(* ===== verification/DPC_Prelude.thy ===== *)
theory DPC_Prelude
  imports Main "HOL-Library.Word" "HOL-Library.AList"
begin

text \<open>
  What every component shares: the machine types, the exceptions as values, the result type
  and the state-and-exception computations the code's member functions become, and the rules
  by which facts about them compose.

  A C++ function that may throw and touches nothing is a value of \<open>'a res\<close>; one that also
  works on the outside world is an \<open>('w, 'a) io\<close>. The state a computation had reached when it
  threw is kept: a backup that stops half way leaves its files behind, and what they look like
  is what crash safety is about.
\<close>

section \<open>Machine types (include/dpc/common/Types.hpp)\<close>

type_synonym byte = "8 word"
type_synonym u16 = "16 word"
type_synonym u32 = "32 word"
type_synonym u64 = "64 word"
type_synonym bytes = "8 word list"

section \<open>Exceptions (include/dpc/common/Error.hpp, FaultInjector.hpp)\<close>

text \<open>
  \<open>FaultInjectedCrash\<close> derives from \<open>DpcError\<close>. \<open>StdException\<close> is every other
  \<open>std::exception\<close> the code lets out (\<open>std::invalid_argument\<close>, \<open>std::out_of_range\<close>,
  \<open>std::length_error\<close>). \<open>Killed\<close> is no exception: it is the process ending, by
  \<open>std::abort\<close>, by a signal or by power, after which no handler runs.
\<close>

datatype exn =
    DpcError string
  | FaultInjectedCrash string
  | StdException string
  | Killed

type_synonym 'a res = "exn + 'a"

fun is_dpc_error :: "exn \<Rightarrow> bool" where
  "is_dpc_error (DpcError _) = True"
| "is_dpc_error (FaultInjectedCrash _) = True"
| "is_dpc_error (StdException _) = False"
| "is_dpc_error Killed = False"

fun what :: "exn \<Rightarrow> string" where
  "what (DpcError m) = m"
| "what (FaultInjectedCrash m) = m"
| "what (StdException m) = m"
| "what Killed = []"

definition require :: "bool \<Rightarrow> string \<Rightarrow> unit res" where
  "require condition message = (if \<not> condition then Inl (DpcError message) else Inr ())"

named_theorems res_simps \<open>inversion of a result: which branch gave this value\<close>
named_theorems keeps_intro \<open>a computation keeps a predicate of the state, however it ends\<close>

lemma require_Inr [res_simps]: "require c m = Inr u \<longleftrightarrow> c"
  by (simp add: require_def)

lemma require_Inl [res_simps]: "require c m = Inl e \<longleftrightarrow> \<not> c \<and> e = DpcError m"
  by (auto simp: require_def)

section \<open>Results in sequence\<close>

definition rbind :: "'a res \<Rightarrow> ('a \<Rightarrow> 'b res) \<Rightarrow> 'b res" where
  "rbind m f = (case m of Inl e \<Rightarrow> Inl e | Inr a \<Rightarrow> f a)"

lemma rbind_simps [simp]:
  "rbind (Inl e) f = Inl e"
  "rbind (Inr a) f = f a"
  by (simp_all add: rbind_def)

lemma rbind_Inr [res_simps]: "rbind m f = Inr b \<longleftrightarrow> (\<exists>a. m = Inr a \<and> f a = Inr b)"
  by (cases m) simp_all

lemma rbind_Inl: "rbind m f = Inl e \<longleftrightarrow> m = Inl e \<or> (\<exists>a. m = Inr a \<and> f a = Inl e)"
  by (cases m) simp_all

lemma if_Inl_Inr [res_simps]:
  "(if b then Inl e else m) = Inr a \<longleftrightarrow> \<not> b \<and> m = Inr a"
  "(if b then m else Inl e) = Inr a \<longleftrightarrow> b \<and> m = Inr a"
  by simp_all

lemma option_Inl_Inr [res_simps]:
  "(case opt of None \<Rightarrow> Inl e | Some x \<Rightarrow> f x) = Inr a \<longleftrightarrow> (\<exists>x. opt = Some x \<and> f x = Inr a)"
  by (cases opt) simp_all

lemma list_Inl_Inr [res_simps]:
  "(case xs of [] \<Rightarrow> Inl e | y # ys \<Rightarrow> f y ys) = Inr a \<longleftrightarrow> (\<exists>y ys. xs = y # ys \<and> f y ys = Inr a)"
  by (cases xs) simp_all

text \<open>A range-for that maps every element, leaving at the first throw.\<close>

fun rmap :: "('a \<Rightarrow> 'b res) \<Rightarrow> 'a list \<Rightarrow> 'b list res" where
  "rmap f [] = Inr []"
| "rmap f (x # xs) = rbind (f x) (\<lambda>y. rbind (rmap f xs) (\<lambda>ys. Inr (y # ys)))"

lemma rmap_Inr_iff: "rmap f xs = Inr ys \<longleftrightarrow> list_all2 (\<lambda>x y. f x = Inr y) xs ys"
  by (induction xs arbitrary: ys) (auto simp: res_simps list_all2_Cons1)

lemma rmap_all_Inr: "(\<And>x. x \<in> set xs \<Longrightarrow> f x = Inr (g x)) \<Longrightarrow> rmap f xs = Inr (map g xs)"
  by (induction xs) auto

lemma rmap_length: "rmap f xs = Inr ys \<Longrightarrow> length ys = length xs"
  by (auto simp: rmap_Inr_iff dest: list_all2_lengthD)

section \<open>Computations over a state\<close>

type_synonym ('w, 'a) io = "'w \<Rightarrow> 'a res \<times> 'w"

definition io_return :: "'a \<Rightarrow> ('w, 'a) io" where
  "io_return a = (\<lambda>w. (Inr a, w))"

definition io_throw :: "exn \<Rightarrow> ('w, 'a) io" where
  "io_throw e = (\<lambda>w. (Inl e, w))"

definition io_lift :: "'a res \<Rightarrow> ('w, 'a) io" where
  "io_lift r = (\<lambda>w. (r, w))"

definition io_get :: "('w \<Rightarrow> 'a) \<Rightarrow> ('w, 'a) io" where
  "io_get f = (\<lambda>w. (Inr (f w), w))"

definition io_query :: "('w \<Rightarrow> 'a res) \<Rightarrow> ('w, 'a) io" where
  "io_query f = (\<lambda>w. (f w, w))"

definition io_modify :: "('w \<Rightarrow> 'w) \<Rightarrow> ('w, unit) io" where
  "io_modify f = (\<lambda>w. (Inr (), f w))"

definition io_bind :: "('w, 'a) io \<Rightarrow> ('a \<Rightarrow> ('w, 'b) io) \<Rightarrow> ('w, 'b) io" where
  "io_bind m f = (\<lambda>w. case m w of (Inl e, w') \<Rightarrow> (Inl e, w') | (Inr a, w') \<Rightarrow> f a w')"

definition io_seq :: "('w, 'a) io \<Rightarrow> ('w, 'b) io \<Rightarrow> ('w, 'b) io" where
  "io_seq m n = io_bind m (\<lambda>_. n)"

text \<open>\<open>try { m } catch (e) { h e }\<close>; the end of the process is never caught.\<close>

definition io_catch :: "('w, 'a) io \<Rightarrow> (exn \<Rightarrow> ('w, 'a) io) \<Rightarrow> ('w, 'a) io" where
  "io_catch m h = (\<lambda>w. case m w of
     (Inl e, w') \<Rightarrow> (if e = Killed then (Inl e, w') else h e w')
   | (Inr a, w') \<Rightarrow> (Inr a, w'))"

fun io_foreach :: "('a \<Rightarrow> ('w, unit) io) \<Rightarrow> 'a list \<Rightarrow> ('w, unit) io" where
  "io_foreach f [] = io_return ()"
| "io_foreach f (x # xs) = io_seq (f x) (io_foreach f xs)"

fun io_fold :: "('a \<Rightarrow> 's \<Rightarrow> ('w, 's) io) \<Rightarrow> 'a list \<Rightarrow> 's \<Rightarrow> ('w, 's) io" where
  "io_fold f [] s = io_return s"
| "io_fold f (x # xs) s = io_bind (f x s) (io_fold f xs)"

lemma io_eval [simp]:
  "io_return a w = (Inr a, w)"
  "io_throw e w = (Inl e, w)"
  "io_lift r w = (r, w)"
  "io_get f w = (Inr (f w), w)"
  "io_query q w = (q w, w)"
  "io_modify g w = (Inr (), g w)"
  by (simp_all add: io_return_def io_throw_def io_lift_def io_get_def io_query_def io_modify_def)

lemma io_lift_steps:
  "io_bind (io_lift (Inr a)) f = f a" "io_bind (io_lift (Inl e)) f = io_throw e"
  "io_seq (io_lift (Inr a)) n = n" "io_seq (io_lift (Inl e)) n = io_throw e"
  by (simp_all add: fun_eq_iff io_bind_def io_seq_def)

text \<open>Inversion of a sequence that returned.\<close>

lemma io_bind_Inr [res_simps]:
  "io_bind m f w = (Inr b, w2) \<longleftrightarrow> (\<exists>a w1. m w = (Inr a, w1) \<and> f a w1 = (Inr b, w2))"
  by (auto simp: io_bind_def split: prod.splits sum.splits)

lemma io_seq_Inr [res_simps]:
  "io_seq m n w = (Inr b, w2) \<longleftrightarrow> (\<exists>a w1. m w = (Inr a, w1) \<and> n w1 = (Inr b, w2))"
  by (simp add: io_seq_def res_simps)

lemma io_foreach_snoc:
  "io_foreach f (xs @ [x]) w = (Inr u, w') \<longleftrightarrow>
     (\<exists>w1. io_foreach f xs w = (Inr (), w1) \<and> f x w1 = (Inr u, w'))"
  by (induction xs arbitrary: w) (auto simp: res_simps)

lemma io_bind_run: "m w = (Inr a, w1) \<Longrightarrow> io_bind m f w = f a w1"
  by (simp add: io_bind_def)

lemma io_seq_run: "m w = (Inr a, w1) \<Longrightarrow> io_seq m n w = n w1"
  by (simp add: io_seq_def io_bind_def)

lemma io_bind_fail: "m w = (Inl e, w1) \<Longrightarrow> io_bind m f w = (Inl e, w1)"
  by (simp add: io_bind_def)

section \<open>Facts that hold however a computation ends\<close>

text \<open>
  \<open>keeps P m\<close>: whatever \<open>m\<close> does from a state with \<open>P\<close> (return, throw, or be cut off by
  the end of the process), the state it leaves has \<open>P\<close>. \<open>triple P m Q E\<close> also says what
  holds of a returned value, with \<open>E\<close> for the other ends.
\<close>

definition keeps :: "('w \<Rightarrow> bool) \<Rightarrow> ('w, 'a) io \<Rightarrow> bool" where
  "keeps P m \<longleftrightarrow> (\<forall>w. P w \<longrightarrow> P (snd (m w)))"

definition triple ::
  "('w \<Rightarrow> bool) \<Rightarrow> ('w, 'a) io \<Rightarrow> ('a \<Rightarrow> 'w \<Rightarrow> bool) \<Rightarrow> ('w \<Rightarrow> bool) \<Rightarrow> bool" where
  "triple P m Q E \<longleftrightarrow>
     (\<forall>w. P w \<longrightarrow> (case m w of (Inr a, w') \<Rightarrow> Q a w' | (Inl e, w') \<Rightarrow> E w'))"

lemma keepsI: "(\<And>w. P w \<Longrightarrow> P (snd (m w))) \<Longrightarrow> keeps P m"
  by (simp add: keeps_def)

lemma keepsD: "keeps P m \<Longrightarrow> P w \<Longrightarrow> P (snd (m w))"
  by (simp add: keeps_def)

lemma keepsD_eq: "keeps P m \<Longrightarrow> P w \<Longrightarrow> m w = (r, w') \<Longrightarrow> P w'"
  using keepsD by fastforce

lemma tripleI:
  assumes "\<And>w a w'. P w \<Longrightarrow> m w = (Inr a, w') \<Longrightarrow> Q a w'"
    and "\<And>w e w'. P w \<Longrightarrow> m w = (Inl e, w') \<Longrightarrow> E w'"
  shows "triple P m Q E"
  unfolding triple_def using assms by (auto split: prod.splits sum.splits)

lemma tripleD_Inr: "triple P m Q E \<Longrightarrow> P w \<Longrightarrow> m w = (Inr a, w') \<Longrightarrow> Q a w'"
  by (fastforce simp: triple_def)

lemma tripleD_Inl: "triple P m Q E \<Longrightarrow> P w \<Longrightarrow> m w = (Inl e, w') \<Longrightarrow> E w'"
  by (fastforce simp: triple_def)

lemma triple_snd:
  assumes "triple P m (\<lambda>_. E) E" and "P w"
  shows "E (snd (m w))"
proof (cases "m w")
  case (Pair r w')
  with assms show ?thesis by (cases r) (auto dest: tripleD_Inr tripleD_Inl)
qed

lemma keeps_triple: "keeps P m \<longleftrightarrow> triple P m (\<lambda>_. P) P"
proof
  assume "keeps P m"
  then show "triple P m (\<lambda>_. P) P"
    by (intro tripleI) (auto dest: keepsD_eq)
next
  assume "triple P m (\<lambda>_. P) P"
  then show "keeps P m" by (intro keepsI) (rule triple_snd)
qed

lemma triple_bind:
  assumes "triple P m R E" and "\<And>a. triple (R a) (f a) Q E"
  shows "triple P (io_bind m f) Q E"
proof (rule tripleI)
  fix w b w'
  assume "P w" and "io_bind m f w = (Inr b, w')"
  then show "Q b w'" using assms by (auto simp: res_simps dest: tripleD_Inr)
next
  fix w e w'
  assume "P w" and "io_bind m f w = (Inl e, w')"
  then show "E w'"
    using assms by (auto simp: io_bind_def split: prod.splits sum.splits dest: tripleD_Inr tripleD_Inl)
qed

lemma triple_seq:
  "triple P m (\<lambda>_. R) E \<Longrightarrow> triple R n Q E \<Longrightarrow> triple P (io_seq m n) Q E"
  unfolding io_seq_def by (rule triple_bind)

lemma triple_conseq:
  assumes "triple P m Q E" and "\<And>w. P' w \<Longrightarrow> P w" and "\<And>a w. Q a w \<Longrightarrow> Q' a w"
    and "\<And>w. E w \<Longrightarrow> E' w"
  shows "triple P' m Q' E'"
  using assms by (intro tripleI) (blast dest: tripleD_Inr tripleD_Inl)+

lemma triple_throw: "(\<And>w. P w \<Longrightarrow> E w) \<Longrightarrow> triple P (io_throw e) Q E"
  by (auto intro!: tripleI)

lemma triple_return: "(\<And>w. P w \<Longrightarrow> Q a w) \<Longrightarrow> triple P (io_return a) Q E"
  by (auto intro!: tripleI)

lemma triple_lift:
  "(\<And>w a. P w \<Longrightarrow> m = Inr a \<Longrightarrow> Q a w) \<Longrightarrow> (\<And>w. P w \<Longrightarrow> E w) \<Longrightarrow> triple P (io_lift m) Q E"
  by (auto intro!: tripleI)

lemma triple_get: "(\<And>w. P w \<Longrightarrow> Q (f w) w) \<Longrightarrow> triple P (io_get f) Q E"
  by (auto intro!: tripleI)

lemma triple_query:
  "(\<And>w a. P w \<Longrightarrow> q w = Inr a \<Longrightarrow> Q a w) \<Longrightarrow> (\<And>w. P w \<Longrightarrow> E w) \<Longrightarrow> triple P (io_query q) Q E"
  by (auto intro!: tripleI)

lemma triple_keeps: "keeps P m \<Longrightarrow> triple P m (\<lambda>_. P) P"
  by (simp add: keeps_triple)

lemma triple_False: "(\<And>w. \<not> P w) \<Longrightarrow> triple P m Q E"
  by (auto intro!: tripleI)

text \<open>A fact that does not speak of the state moves out of the precondition.\<close>

lemma triple_pure: "(c \<Longrightarrow> triple P m Q E) \<Longrightarrow> triple (\<lambda>w. P w \<and> c) m Q E"
  by (cases c) (auto intro!: tripleI)

lemma triple_foreach:
  assumes "\<And>x. x \<in> set xs \<Longrightarrow> triple P (f x) (\<lambda>_. P) E" and "\<And>w. P w \<Longrightarrow> E w"
  shows "triple P (io_foreach f xs) (\<lambda>_. P) E"
  using assms
proof (induction xs)
  case Nil
  then show ?case by (auto intro!: tripleI)
next
  case (Cons x xs)
  then show ?case by (auto intro!: triple_seq)
qed

lemma keeps_return [keeps_intro]: "keeps P (io_return a)"
  and keeps_throw [keeps_intro]: "keeps P (io_throw e)"
  and keeps_lift [keeps_intro]: "keeps P (io_lift r)"
  and keeps_get [keeps_intro]: "keeps P (io_get f)"
  and keeps_query [keeps_intro]: "keeps P (io_query q)"
  by (simp_all add: keeps_def)

lemma keeps_bind [keeps_intro]: "keeps P m \<Longrightarrow> (\<And>a. keeps P (f a)) \<Longrightarrow> keeps P (io_bind m f)"
  by (auto simp: keeps_triple intro: triple_bind)

lemma keeps_seq [keeps_intro]: "keeps P m \<Longrightarrow> keeps P n \<Longrightarrow> keeps P (io_seq m n)"
  unfolding io_seq_def by (rule keeps_bind)

lemma keeps_get_bind: "(\<And>w. P w \<Longrightarrow> keeps P (g (f w))) \<Longrightarrow> keeps P (io_bind (io_get f) g)"
  by (simp add: keeps_def io_bind_def)

lemma keeps_foreach [keeps_intro]:
  "(\<And>x. x \<in> set xs \<Longrightarrow> keeps P (f x)) \<Longrightarrow> keeps P (io_foreach f xs)"
  by (auto simp: keeps_triple intro: triple_foreach)

lemma keeps_fold [keeps_intro]:
  "(\<And>x s. x \<in> set xs \<Longrightarrow> keeps P (f x s)) \<Longrightarrow> keeps P (io_fold f xs s)"
  by (induction xs arbitrary: s) (auto intro!: keeps_intro)

lemma keeps_catch [keeps_intro]:
  assumes "keeps P m" and "\<And>e. keeps P (h e)"
  shows "keeps P (io_catch m h)"
  using assms by (fastforce simp: keeps_def io_catch_def split: prod.splits sum.splits)

lemma keeps_if [keeps_intro]: "keeps P m \<Longrightarrow> keeps P n \<Longrightarrow> keeps P (if b then m else n)"
  by simp

lemma keeps_option [keeps_intro]:
  "keeps P m \<Longrightarrow> (\<And>x. keeps P (f x)) \<Longrightarrow> keeps P (case opt of None \<Rightarrow> m | Some x \<Rightarrow> f x)"
  by (cases opt) simp_all

section \<open>Lists and association lists\<close>

lemma map_of_update_eq [simp]: "map_of (AList.update k v al) k = Some v"
  by (simp add: update_conv')

lemma map_of_update_neq: "k' \<noteq> k \<Longrightarrow> map_of (AList.update k v al) k' = map_of al k'"
  by (simp add: update_conv')

lemma map_of_delete_eq [simp]: "map_of (AList.delete k al) k = None"
  by (simp add: delete_conv')

lemma map_of_delete_neq: "k' \<noteq> k \<Longrightarrow> map_of (AList.delete k al) k' = map_of al k'"
  by (simp add: delete_conv')

lemma take_append_exact [simp]: "length xs = n \<Longrightarrow> take n (xs @ ys) = xs"
  by simp

lemma drop_append_exact [simp]: "length xs = n \<Longrightarrow> drop n (xs @ ys) = ys"
  by simp

lemma nth_append_offset: "length xs = n \<Longrightarrow> (xs @ ys) ! (n + i) = ys ! i"
  by (simp add: nth_append)

lemma longer_not_take: "length xs < length ys \<Longrightarrow> ys \<noteq> take i xs"
  by auto

lemma list_all2_mem1: "list_all2 P xs ys \<Longrightarrow> x \<in> set xs \<Longrightarrow> \<exists>y \<in> set ys. P x y"
  by (induction rule: list_all2_induct) auto

lemma list_all2_mem: "list_all2 P xs ys \<Longrightarrow> y \<in> set ys \<Longrightarrow> \<exists>x \<in> set xs. P x y"
  by (induction rule: list_all2_induct) auto

lemma takeWhile_append_stop:
  "(\<And>x. x \<in> set xs \<Longrightarrow> P x) \<Longrightarrow> \<not> P y \<Longrightarrow> takeWhile P (xs @ y # ys) = xs"
  by (simp add: takeWhile_append2)

lemma dropWhile_append_stop:
  "(\<And>x. x \<in> set xs \<Longrightarrow> P x) \<Longrightarrow> \<not> P y \<Longrightarrow> dropWhile P (xs @ y # ys) = y # ys"
  by (simp add: dropWhile_append2)

end
