(* ===== verification/DPC_Text.thy ===== *)
theory DPC_Text
  imports DPC_Prelude "HOL-Library.Char_ord" "HOL-Library.List_Lexorder"
begin

text \<open>
  The text formats: what the code uses of \<open>std::string\<close>, \<open>std::istringstream\<close>,
  \<open>std::ostringstream\<close>, \<open>std::getline\<close>, \<open>std::to_string\<close> and \<open>std::stoull\<close>, as
  definitions over character lists (a C++ \<open>char\<close> is one byte, an Isabelle \<open>char\<close> too), and the
  number and line helpers of src/core/ManifestStore.cpp. The lemmas are the round trips the
  text formats of the repository rest on: a number printed is read back, tokens written with
  blanks between them are the tokens read, lines written with newlines are the lines read.
\<close>

section \<open>Characters\<close>

abbreviation nl :: char where "nl \<equiv> CHR 0x0A"

abbreviation sp :: char where "sp \<equiv> CHR 0x20"

definition char_code :: "char \<Rightarrow> nat" where
  "char_code c = of_char c"

definition byte_of_char :: "char \<Rightarrow> byte" where
  "byte_of_char c = word_of_nat (char_code c)"

definition char_of_byte :: "byte \<Rightarrow> char" where
  "char_of_byte b = char_of (unat b)"

definition bytes_of_string :: "string \<Rightarrow> bytes" where
  "bytes_of_string s = map byte_of_char s"

definition string_of_bytes :: "bytes \<Rightarrow> string" where
  "string_of_bytes bs = map char_of_byte bs"

definition isspace :: "char \<Rightarrow> bool" where
  "isspace c \<longleftrightarrow> char_code c = 32 \<or> 9 \<le> char_code c \<and> char_code c \<le> 13"

definition isdigit :: "char \<Rightarrow> bool" where
  "isdigit c \<longleftrightarrow> 48 \<le> char_code c \<and> char_code c \<le> 57"

definition isxdigit :: "char \<Rightarrow> bool" where
  "isxdigit c \<longleftrightarrow> isdigit c \<or> 97 \<le> char_code c \<and> char_code c \<le> 102
     \<or> 65 \<le> char_code c \<and> char_code c \<le> 70"

lemma char_code_lt [simp]: "char_code c < 256"
  by (simp add: char_code_def)

lemma unat_byte_of_char [simp]: "unat (byte_of_char c) = char_code c"
proof -
  have "unat (word_of_nat (char_code c) :: byte) = char_code c mod 2 ^ 8"
    by (simp add: unat_of_nat)
  then show ?thesis by (simp add: byte_of_char_def)
qed

lemma char_of_byte_of_char [simp]: "char_of_byte (byte_of_char c) = c"
  by (simp add: char_of_byte_def) (simp add: char_code_def)

lemma char_code_of_byte [simp]: "char_code (char_of_byte b) = unat b"
proof -
  have "unat b < 2 ^ 8" using unsigned_less [of b, where ?'a = nat] by simp
  then show ?thesis by (simp add: char_of_byte_def char_code_def)
qed

lemma byte_of_char_of_byte [simp]: "byte_of_char (char_of_byte b) = b"
  by (simp add: byte_of_char_def)

lemma string_of_bytes_of_string [simp]: "string_of_bytes (bytes_of_string s) = s"
  by (simp add: string_of_bytes_def bytes_of_string_def o_def)

lemma bytes_of_string_of_bytes [simp]: "bytes_of_string (string_of_bytes bs) = bs"
  by (simp add: string_of_bytes_def bytes_of_string_def o_def)

lemma length_bytes_of_string [simp]: "length (bytes_of_string s) = length s"
  by (simp add: bytes_of_string_def)

lemma isdigit_not_space: "isdigit c \<Longrightarrow> \<not> isspace c"
  by (simp add: isdigit_def isspace_def)

lemma isxdigit_not_space: "isxdigit c \<Longrightarrow> \<not> isspace c"
  by (auto simp: isxdigit_def isdigit_def isspace_def)

lemma isspace_sp [simp]: "isspace sp"
  by (simp add: isspace_def char_code_def)

lemma isspace_nl [simp]: "isspace nl"
  by (simp add: isspace_def char_code_def)

section \<open>Decimal numbers\<close>

definition digit_char :: "nat \<Rightarrow> char" where
  "digit_char d = char_of (48 + d)"

definition digit_val :: "char \<Rightarrow> nat" where
  "digit_val c = char_code c - 48"

text \<open>\<open>std::to_string\<close>, \<open>operator<<\<close> on an unsigned integer.\<close>

fun dec :: "nat \<Rightarrow> string" where
  "dec n = (if n < 10 then [digit_char n] else dec (n div 10) @ [digit_char (n mod 10)])"

declare dec.simps [simp del]

abbreviation dec_word :: "'a::len word \<Rightarrow> string" where
  "dec_word w \<equiv> dec (unat w)"

definition dec_val :: "string \<Rightarrow> nat" where
  "dec_val s = foldl (\<lambda>a c. 10 * a + digit_val c) 0 s"

lemma char_code_digit [simp]: "d < 10 \<Longrightarrow> char_code (digit_char d) = 48 + d"
  by (simp add: digit_char_def char_code_def)

lemma isdigit_digit_char [simp]: "d < 10 \<Longrightarrow> isdigit (digit_char d)"
  by (simp add: isdigit_def)

lemma digit_val_digit_char [simp]: "d < 10 \<Longrightarrow> digit_val (digit_char d) = d"
  by (simp add: digit_val_def)

lemma digit_char_val: "isdigit c \<Longrightarrow> digit_char (digit_val c) = c"
  by (simp add: digit_char_def digit_val_def isdigit_def char_code_def)

lemma digit_val_lt: "isdigit c \<Longrightarrow> digit_val c < 10"
  by (simp add: digit_val_def isdigit_def) linarith

lemma dec_nonempty [simp]: "dec n \<noteq> []"
  by (subst dec.simps) simp

lemma dec_digits: "list_all isdigit (dec n)"
proof (induction n rule: dec.induct)
  case (1 n)
  then show ?case by (subst dec.simps) simp
qed

lemma dec_isdigit: "c \<in> set (dec n) \<Longrightarrow> isdigit c"
  using dec_digits [of n] by (simp add: list_all_iff)

lemma dec_no_space: "c \<in> set (dec n) \<Longrightarrow> \<not> isspace c"
  by (blast dest: dec_isdigit isdigit_not_space)

lemma dec_val_snoc [simp]: "dec_val (s @ [c]) = 10 * dec_val s + digit_val c"
  by (simp add: dec_val_def)

lemma dec_val_Nil [simp]: "dec_val [] = 0"
  by (simp add: dec_val_def)

lemma dec_val_dec [simp]: "dec_val (dec n) = n"
proof (induction n rule: dec.induct)
  case (1 n)
  show ?case
  proof (cases "n < 10")
    case True
    then show ?thesis
      using dec_val_snoc [of "[]" "digit_char n"] by (simp add: dec.simps [of n])
  next
    case False
    with 1 show ?thesis by (simp add: dec.simps [of n])
  qed
qed

lemma dec_inj [simp]: "dec m = dec n \<longleftrightarrow> m = n"
  by (metis dec_val_dec)

lemma dec_val_lt: "list_all isdigit s \<Longrightarrow> dec_val s < 10 ^ length s"
proof (induction s rule: rev_induct)
  case Nil
  then show ?case by simp
next
  case (snoc c s)
  then have "dec_val s < 10 ^ length s" and "digit_val c < 10" by (auto intro: digit_val_lt)
  then show ?case by (simp add: algebra_simps)
qed

lemma length_dec_le: "n < 10 ^ k \<Longrightarrow> 0 < k \<Longrightarrow> length (dec n) \<le> k"
proof (induction n arbitrary: k rule: dec.induct)
  case (1 n)
  show ?case
  proof (cases "n < 10")
    case True
    with "1.prems" show ?thesis by (simp add: dec.simps [of n])
  next
    case False
    with "1.prems" obtain j where k: "k = Suc j" and "0 < j"
      by (cases k; cases "k - 1") auto
    with False "1.prems" have "length (dec (n div 10)) \<le> j"
      by (intro "1.IH") (auto simp: div_less_iff_less_mult mult.commute)
    with False k show ?thesis by (simp add: dec.simps [of n])
  qed
qed

lemma length_dec_ge: "10 ^ k \<le> n \<Longrightarrow> k < length (dec n)"
proof (rule ccontr)
  assume "10 ^ k \<le> n" and "\<not> k < length (dec n)"
  then have "n < 10 ^ length (dec n)" "10 ^ length (dec n) \<le> (10 :: nat) ^ k"
    using dec_val_lt [OF dec_digits, of n] by (auto intro: power_increasing)
  with \<open>10 ^ k \<le> n\<close> show False by linarith
qed

text \<open>Padding with zeros on the left, and reading the padded number back.\<close>

lemma dec_val_zeros: "dec_val (replicate k (CHR ''0'') @ s) = dec_val s"
proof (induction s rule: rev_induct)
  case Nil
  have "digit_val (CHR ''0'') = 0" by (simp add: digit_val_def char_code_def)
  then have "dec_val (replicate k (CHR ''0'')) = 0"
    by (induction k) (simp_all flip: replicate_append_same)
  then show ?case by simp
next
  case (snoc c s)
  then show ?case by (simp flip: append_assoc)
qed

text \<open>A string of digits is its value, printed and padded to the string's length.\<close>

lemma digits_as_padded_dec:
  "list_all isdigit s \<Longrightarrow> s \<noteq> [] \<Longrightarrow>
     replicate (length s - length (dec (dec_val s))) (CHR ''0'') @ dec (dec_val s) = s"
proof (induction s rule: rev_induct)
  case Nil
  then show ?case by simp
next
  case (snoc c s)
  have c: "isdigit c" and s: "list_all isdigit s" using snoc.prems by simp_all
  have v: "digit_val c < 10" and dc: "digit_char (digit_val c) = c"
    using c by (simp_all add: digit_val_lt digit_char_val)
  let ?v = "dec_val s"
  show ?case
  proof (cases "?v = 0")
    case True
    have zeros: "s = replicate (length s) (CHR ''0'')"
    proof (cases "s = []")
      case False
      have "dec 0 = [CHR ''0'']" by (simp add: dec.simps digit_char_def char_of_eq_iff)
      with snoc.IH [OF s False] True False show ?thesis
        by (cases s rule: rev_cases) (auto simp flip: replicate_append_same)
    qed simp
    have "dec (dec_val (s @ [c])) = [c]" using True v dc by (simp add: dec.simps)
    then show ?thesis using zeros by simp
  next
    case False
    have d: "dec (dec_val (s @ [c])) = dec ?v @ [c]"
      using False v dc by (subst dec.simps) simp
    have "s \<noteq> []" using False by auto
    then show ?thesis using snoc.IH [OF s] d by simp
  qed
qed

section \<open>Reading a stream of tokens\<close>

text \<open>
  An input string stream: what is left to read, and failbit. A read from a failed stream, or
  one that finds only white space, leaves its variable as it was and sets failbit; a number
  that does not start with a digit sets the variable to 0, one too large to the greatest value
  of its type, and sets failbit; a minus sign before an unsigned number negates it modulo the
  width.
\<close>

type_synonym istream = "string \<times> bool"

definition istringstream :: "string \<Rightarrow> istream" where
  "istringstream s = (s, False)"

definition failed :: "istream \<Rightarrow> bool" where
  "failed st = snd st"

definition skipws :: "string \<Rightarrow> string" where
  "skipws s = dropWhile isspace s"

definition extract_string :: "istream \<Rightarrow> string \<Rightarrow> string \<times> istream" where
  "extract_string st old =
     (if failed st then (old, st)
      else let t = skipws (fst st) in
        if t = [] then (old, ([], True))
        else (takeWhile (\<lambda>c. \<not> isspace c) t, (dropWhile (\<lambda>c. \<not> isspace c) t, False)))"

definition sign_of :: "string \<Rightarrow> bool \<times> string" where
  "sign_of s = (case s of
      [] \<Rightarrow> (False, [])
    | c # cs \<Rightarrow> if c = CHR ''-'' then (True, cs) else if c = CHR ''+'' then (False, cs) else (False, s))"

definition extract_word :: "istream \<Rightarrow> 'a::len word \<Rightarrow> 'a word \<times> istream" where
  "extract_word st old =
     (if failed st then (old, st)
      else let t = skipws (fst st) in
        if t = [] then (old, ([], True))
        else let (neg, u) = sign_of t; ds = takeWhile isdigit u; rest = dropWhile isdigit u in
          if ds = [] then (0, (rest, True))
          else if dec_val ds \<ge> 2 ^ LENGTH('a) then (- 1, (rest, True))
          else (if neg then - word_of_nat (dec_val ds) else word_of_nat (dec_val ds), (rest, False)))"

text \<open>\<open>std::stoull(value)\<close>: \<open>strtoull\<close> with the two exceptions the library documents.\<close>

definition stoull :: "string \<Rightarrow> u64 res" where
  "stoull s =
     (let (neg, u) = sign_of (skipws s); ds = takeWhile isdigit u in
      if ds = [] then Inl (StdException ''stoull'')
      else if dec_val ds \<ge> 2 ^ 64 then Inl (StdException ''stoull'')
      else Inr (if neg then - word_of_nat (dec_val ds) else word_of_nat (dec_val ds)))"

lemma failed_Pair [simp]: "failed (s, b) = b"
  by (simp add: failed_def)

lemma istringstream_simps [simp]: "fst (istringstream s) = s" "failed (istringstream s) = False"
  by (simp_all add: istringstream_def)

definition token :: "string \<Rightarrow> bool" where
  "token t \<longleftrightarrow> t \<noteq> [] \<and> list_all (\<lambda>c. \<not> isspace c) t"

definition token_end :: "string \<Rightarrow> bool" where
  "token_end s \<longleftrightarrow> s = [] \<or> isspace (hd s)"

lemma token_end_simps [simp]: "token_end []" "token_end (c # s) \<longleftrightarrow> isspace c"
  by (simp_all add: token_end_def)

lemma token_dec [simp]: "token (dec n)"
  by (auto simp: token_def list_all_iff dest: dec_no_space)

lemma skipws_token: "token t \<Longrightarrow> skipws (t @ s) = t @ s"
  by (cases t) (simp_all add: token_def skipws_def)

lemma skipws_space: "isspace c \<Longrightarrow> skipws (c # s) = skipws s"
  by (simp add: skipws_def)

lemma takeWhile_until:
  "(\<And>c. c \<in> set t \<Longrightarrow> P c) \<Longrightarrow> rest = [] \<or> \<not> P (hd rest) \<Longrightarrow> takeWhile P (t @ rest) = t"
  by (cases rest) (auto simp: takeWhile_append2)

lemma dropWhile_until:
  "(\<And>c. c \<in> set t \<Longrightarrow> P c) \<Longrightarrow> rest = [] \<or> \<not> P (hd rest) \<Longrightarrow> dropWhile P (t @ rest) = rest"
  by (cases rest) (auto simp: dropWhile_append2)

lemma extract_string_token:
  assumes "token t" and "token_end rest"
  shows "extract_string (t @ rest, False) old = (t, (rest, False))"
    and "isspace c \<Longrightarrow> extract_string (c # t @ rest, False) old = (t, (rest, False))"
proof -
  have "takeWhile (\<lambda>c. \<not> isspace c) (t @ rest) = t"
    and "dropWhile (\<lambda>c. \<not> isspace c) (t @ rest) = rest"
    using assms unfolding token_def token_end_def list_all_iff
    by (blast intro: takeWhile_until dropWhile_until)+
  then show "extract_string (t @ rest, False) old = (t, (rest, False))"
    and "isspace c \<Longrightarrow> extract_string (c # t @ rest, False) old = (t, (rest, False))"
    using assms by (simp_all add: extract_string_def skipws_token skipws_space token_def)
qed

lemma extract_string_end [simp]:
  "skipws s = [] \<Longrightarrow> extract_string (s, False) old = (old, ([], True))"
  by (simp add: extract_string_def)

lemma extract_string_failed [simp]: "extract_string (s, True) old = (old, (s, True))"
  by (simp add: extract_string_def)

lemma extract_word_failed [simp]: "extract_word (s, True) old = (old, (s, True))"
  by (simp add: extract_word_def)

lemma sign_of_digit: "isdigit c \<Longrightarrow> sign_of (c # s) = (False, c # s)"
  by (auto simp: sign_of_def isdigit_def char_code_def)

lemma sign_of_dec: "sign_of (dec n @ s) = (False, dec n @ s)"
  by (cases "dec n") (use dec_isdigit [of _ n] in \<open>auto simp: sign_of_digit\<close>)

lemma space_not_digit: "isspace c \<Longrightarrow> \<not> isdigit c"
  by (auto dest: isdigit_not_space)

lemma dec_span:
  assumes "token_end rest"
  shows "takeWhile isdigit (dec n @ rest) = dec n" and "dropWhile isdigit (dec n @ rest) = rest"
  using assms unfolding token_end_def
  by (blast intro: takeWhile_until dropWhile_until dest: dec_isdigit space_not_digit)+

lemma extract_word_dec:
  fixes old :: "'a::len word"
  assumes "token_end rest" and "n < 2 ^ LENGTH('a)"
  shows "extract_word (dec n @ rest, False) old = (word_of_nat n, (rest, False))"
    and "isspace c \<Longrightarrow> extract_word (c # dec n @ rest, False) old = (word_of_nat n, (rest, False))"
  using assms
  by (simp_all add: extract_word_def skipws_token skipws_space sign_of_dec dec_span)

lemma extract_word_dec_word:
  fixes w :: "'a::len word"
  assumes "token_end rest"
  shows "extract_word (dec (unat w) @ rest, False) old = (w, (rest, False))"
    and "isspace c \<Longrightarrow> extract_word (c # dec (unat w) @ rest, False) old = (w, (rest, False))"
  using extract_word_dec [OF assms unsigned_less [of w, where ?'a = nat]] by simp_all

lemma takeWhile_dec [simp]: "takeWhile isdigit (dec n) = dec n"
  by (simp add: takeWhile_eq_all_conv dec_isdigit)

lemma stoull_dec: "n < 2 ^ 64 \<Longrightarrow> stoull (dec n) = Inr (word_of_nat n)"
  using skipws_token [of "dec n" "[]"] sign_of_dec [of n "[]"]
  by (simp add: stoull_def Let_def)

section \<open>Lines\<close>

text \<open>Repeated \<open>std::getline\<close>: the newline ends a line and is dropped.\<close>

function getlines :: "string \<Rightarrow> string list" where
  "getlines s =
     (if s = [] then []
      else takeWhile (\<lambda>c. c \<noteq> nl) s # getlines (tl (dropWhile (\<lambda>c. c \<noteq> nl) s)))"
  by pat_completeness auto
termination
proof (relation "measure length", goal_cases)
  case (2 s)
  have "length (dropWhile (\<lambda>c. c \<noteq> nl) s) \<le> length s" by (rule length_dropWhile_le)
  moreover have "0 < length s" using 2 by simp
  ultimately have "length (tl (dropWhile (\<lambda>c. c \<noteq> nl) s)) < length s"
    unfolding length_tl by linarith
  then show ?case by (simp only: in_measure)
qed simp

declare getlines.simps [simp del]

lemma getlines_Nil [simp]: "getlines [] = []"
  by (simp add: getlines.simps)

lemma getlines_line: "nl \<notin> set l \<Longrightarrow> getlines (l @ nl # s) = l # getlines s"
proof -
  assume "nl \<notin> set l"
  then have "takeWhile (\<lambda>c. c \<noteq> nl) (l @ nl # s) = l"
    and "dropWhile (\<lambda>c. c \<noteq> nl) (l @ nl # s) = nl # s"
    by (auto intro!: takeWhile_append_stop dropWhile_append_stop)
  then show ?thesis by (subst getlines.simps) simp
qed

lemma getlines_lines:
  "\<forall>l \<in> set ls. nl \<notin> set l \<Longrightarrow> getlines (concat (map (\<lambda>l. l @ [nl]) ls)) = ls"
  by (induction ls) (simp_all add: getlines_line)

text \<open>Blank-separated tokens on one line.\<close>

fun unwords :: "string list \<Rightarrow> string" where
  "unwords [] = []"
| "unwords [t] = t"
| "unwords (t # ts) = t @ sp # unwords ts"

lemma token_no_nl: "token t \<Longrightarrow> nl \<notin> set t"
  by (auto simp: token_def list_all_iff)

lemma unwords_no_nl: "list_all token ts \<Longrightarrow> nl \<notin> set (unwords ts)"
  by (induction ts rule: unwords.induct) (auto dest: token_no_nl)

end
