(* ===== verification/DPC_Hash.thy ===== *)
theory DPC_Hash
  imports DPC_Text
begin

unbundle bit_operations_syntax

text \<open>
  Hashes and hexadecimal text: include/dpc/common/Hash.hpp and the two hex helpers of
  src/core/ManifestStore.cpp. SHA-256 itself is OpenSSL's and zstd is a shared library: both
  are fields of the record \<open>third_party\<close>, an argument of every definition that calls them.
\<close>

section \<open>The libraries the code links\<close>

record third_party =
  sha256 :: "bytes \<Rightarrow> bytes"
  zstd_bound :: "nat \<Rightarrow> nat"
  zstd_compress :: "nat \<Rightarrow> bytes \<Rightarrow> int \<Rightarrow> string + bytes"
  zstd_decompress :: "nat \<Rightarrow> bytes \<Rightarrow> string + bytes"
  zstd_frame_size :: "bytes \<Rightarrow> u64"

text \<open>
  What OpenSSL documents of SHA-256 and the code relies on: a digest has 32 bytes.
\<close>

definition sha_ok :: "third_party \<Rightarrow> bool" where
  "sha_ok T \<longleftrightarrow> (\<forall>d. length (sha256 T d) = 32)"

section \<open>Hexadecimal text\<close>

definition hex_digits :: string where
  "hex_digits = ''0123456789abcdef''"

definition bytesToHex :: "bytes \<Rightarrow> string" where
  "bytesToHex data =
     concat (map (\<lambda>b. [hex_digits ! unat (drop_bit 4 b AND 0x0f), hex_digits ! unat (b AND 0x0f)]) data)"

definition fromHex :: "char \<Rightarrow> byte res" where
  "fromHex c =
     (if char_code (CHR ''0'') \<le> char_code c \<and> char_code c \<le> char_code (CHR ''9'')
      then Inr (word_of_nat (char_code c - char_code (CHR ''0'')))
      else if char_code (CHR ''a'') \<le> char_code c \<and> char_code c \<le> char_code (CHR ''f'')
      then Inr (word_of_nat (10 + char_code c - char_code (CHR ''a'')))
      else if char_code (CHR ''A'') \<le> char_code c \<and> char_code c \<le> char_code (CHR ''F'')
      then Inr (word_of_nat (10 + char_code c - char_code (CHR ''A'')))
      else Inl (DpcError ''invalid hex character''))"

fun hex_pairs :: "(char \<Rightarrow> byte res) \<Rightarrow> string \<Rightarrow> bytes res" where
  "hex_pairs nib (a # b # cs) =
     rbind (nib a) (\<lambda>x. rbind (nib b) (\<lambda>y.
       rbind (hex_pairs nib cs) (\<lambda>rest. Inr ((push_bit 4 x OR y) # rest))))"
| "hex_pairs nib _ = Inr []"

definition hexToBytes :: "string \<Rightarrow> bytes res" where
  "hexToBytes hex =
     (if length hex mod 2 \<noteq> 0 then Inl (DpcError ''hex string has odd length'')
      else hex_pairs fromHex hex)"

definition hexEncodeString :: "string \<Rightarrow> string" where
  "hexEncodeString value =
     concat (map (\<lambda>c. let b = byte_of_char c in
        [hex_digits ! unat (drop_bit 4 b AND 0x0f), hex_digits ! unat (b AND 0x0f)]) value)"

definition nibble :: "char \<Rightarrow> byte res" where
  "nibble c =
     (if char_code (CHR ''0'') \<le> char_code c \<and> char_code c \<le> char_code (CHR ''9'')
      then Inr (word_of_nat (char_code c - char_code (CHR ''0'')))
      else if char_code (CHR ''a'') \<le> char_code c \<and> char_code c \<le> char_code (CHR ''f'')
      then Inr (word_of_nat (10 + char_code c - char_code (CHR ''a'')))
      else if char_code (CHR ''A'') \<le> char_code c \<and> char_code c \<le> char_code (CHR ''F'')
      then Inr (word_of_nat (10 + char_code c - char_code (CHR ''A'')))
      else Inl (DpcError ''invalid hex string in manifest''))"

definition hexDecodeString :: "string \<Rightarrow> string res" where
  "hexDecodeString value =
     (if length value mod 2 \<noteq> 0 then Inl (DpcError ''invalid hex string length in manifest'')
      else rbind (hex_pairs nibble value) (\<lambda>bs. Inr (string_of_bytes bs)))"

lemma hex_codes:
  "char_code (CHR ''0'') = 48" "char_code (CHR ''9'') = 57"
  "char_code (CHR ''a'') = 97" "char_code (CHR ''f'') = 102"
  "char_code (CHR ''A'') = 65" "char_code (CHR ''F'') = 70"
  by (simp_all add: char_code_def)

lemma nibble_fromHex: "(\<exists>x. nibble c = Inr x) \<Longrightarrow> nibble c = fromHex c"
  unfolding nibble_def fromHex_def hex_codes by (auto split: if_splits)

lemma isxdigit_fromHex: "isxdigit c \<longleftrightarrow> (\<exists>x. fromHex c = Inr x)"
  by (simp add: isxdigit_def isdigit_def fromHex_def hex_codes)

lemma hex_char_cases:
  assumes "n < (16 :: nat)"
  shows "fromHex (hex_digits ! n) = Inr (word_of_nat n) \<and>
         nibble (hex_digits ! n) = Inr (word_of_nat n) \<and> isxdigit (hex_digits ! n)"
proof -
  have "list_all (\<lambda>n. fromHex (hex_digits ! n) = Inr (word_of_nat n) \<and>
      nibble (hex_digits ! n) = Inr (word_of_nat n) \<and> isxdigit (hex_digits ! n)) [0 ..< 16]"
    by code_simp
  then show ?thesis using assms by (simp add: list_all_iff)
qed

lemma low_nibble: "(b :: byte) AND 0x0f = take_bit 4 b"
  by (simp add: take_bit_eq_mask mask_eq_exp_minus_1)

lemma nibble_lt: "unat ((b :: byte) AND 0x0f) < 16"
  using take_bit_nat_less_exp [of 4 "unat b"] by (simp add: low_nibble unsigned_take_bit_eq)

lemma nibbles_join: "push_bit 4 (drop_bit 4 b AND 0x0f) OR (b AND 0x0f) = (b :: byte)"
  unfolding low_nibble
  by (rule bit_word_eqI) (auto simp: bit_or_iff bit_push_bit_iff bit_drop_bit_eq bit_take_bit_iff)

lemma hex_digit_byte [simp]:
  "fromHex (hex_digits ! unat ((b :: byte) AND 0x0f)) = Inr (b AND 0x0f)"
  "nibble (hex_digits ! unat (b AND 0x0f)) = Inr (b AND 0x0f)"
  "isxdigit (hex_digits ! unat (b AND 0x0f))"
  using hex_char_cases [OF nibble_lt [of b]] by simp_all

lemma bytesToHex_simps [simp]:
  "bytesToHex [] = []"
  "bytesToHex (b # bs) =
     hex_digits ! unat (drop_bit 4 b AND 0x0f) # hex_digits ! unat (b AND 0x0f) # bytesToHex bs"
  by (simp_all add: bytesToHex_def)

lemma hexEncodeString_bytes: "hexEncodeString s = bytesToHex (bytes_of_string s)"
  by (simp add: hexEncodeString_def bytesToHex_def bytes_of_string_def o_def Let_def)

lemma hex_pairs_bytesToHex:
  "hex_pairs fromHex (bytesToHex bs) = Inr bs" "hex_pairs nibble (bytesToHex bs) = Inr bs"
  by (induction bs)
    (simp_all only: bytesToHex_simps hex_pairs.simps hex_digit_byte rbind_simps nibbles_join)

lemma length_bytesToHex [simp]: "length (bytesToHex bs) = 2 * length bs"
  by (induction bs) simp_all

lemma bytesToHex_xdigit: "list_all isxdigit (bytesToHex bs)"
  by (induction bs) simp_all

lemma hex_pairs_length:
  "hex_pairs nib s = Inr bs \<Longrightarrow> even (length s) \<Longrightarrow> length s = 2 * length bs"
  by (induction nib s arbitrary: bs rule: hex_pairs.induct) (auto simp: res_simps)

lemma hex_pairs_total:
  "(\<And>c. isxdigit c \<Longrightarrow> \<exists>x. nib c = Inr x) \<Longrightarrow> list_all isxdigit s \<Longrightarrow> \<exists>bs. hex_pairs nib s = Inr bs"
proof (induction nib s rule: hex_pairs.induct)
  case (1 nib a b cs)
  then obtain x y where "nib a = Inr x" "nib b = Inr y" by fastforce
  moreover have "\<exists>bs. hex_pairs nib cs = Inr bs" using 1 calculation by simp
  ultimately show ?case by auto
qed simp_all

text \<open>
  The contract both pairs of functions share: what is encoded is decoded again, a text of hex
  digits only comes out, two for each byte, and a text the decoder accepts has even length.
\<close>

locale hex_codec =
  fixes enc :: "'a list \<Rightarrow> string" and decode :: "string \<Rightarrow> 'a list res"
  assumes decode_enc: "decode (enc xs) = Inr xs"
    and length_enc: "length (enc xs) = 2 * length xs"
    and enc_xdigit: "list_all isxdigit (enc xs)"
    and decode_length: "decode s = Inr xs \<Longrightarrow> length s = 2 * length xs"
begin

lemma enc_inj: "enc xs = enc ys \<longleftrightarrow> xs = ys"
  by (metis decode_enc sum.inject(2))

lemma enc_empty: "enc xs = [] \<longleftrightarrow> xs = []"
  using length_enc [of xs] by (metis length_0_conv mult_eq_0_iff zero_neq_numeral)

lemma enc_isxdigit: "c \<in> set (enc xs) \<Longrightarrow> isxdigit c"
  using enc_xdigit [of xs] by (simp add: list_all_iff)

lemma enc_token: "xs \<noteq> [] \<Longrightarrow> token (enc xs)"
  using enc_xdigit [of xs] by (auto simp: token_def enc_empty list_all_iff dest: isxdigit_not_space)

end

interpretation hash_hex: hex_codec bytesToHex hexToBytes
proof
  fix bs s
  show "hexToBytes (bytesToHex bs) = Inr bs"
    by (simp add: hexToBytes_def hex_pairs_bytesToHex)
  show "length (bytesToHex bs) = 2 * length bs" by simp
  show "list_all isxdigit (bytesToHex bs)" by (rule bytesToHex_xdigit)
  show "hexToBytes s = Inr bs \<Longrightarrow> length s = 2 * length bs"
    by (auto simp: hexToBytes_def split: if_splits dest: hex_pairs_length)
qed

interpretation str_hex: hex_codec hexEncodeString hexDecodeString
proof
  fix v s
  show "hexDecodeString (hexEncodeString v) = Inr v"
    by (simp add: hexDecodeString_def hexEncodeString_bytes hex_pairs_bytesToHex)
  show "length (hexEncodeString v) = 2 * length v" by (simp add: hexEncodeString_bytes)
  show "list_all isxdigit (hexEncodeString v)"
    by (simp add: hexEncodeString_bytes bytesToHex_xdigit)
  show "hexDecodeString s = Inr v \<Longrightarrow> length s = 2 * length v"
    by (auto simp: hexDecodeString_def res_simps string_of_bytes_def split: if_splits dest!: hex_pairs_length)
qed

section \<open>The SHA-256 context (class Hash::Sha256)\<close>

text \<open>
  The context holds what was hashed so far; the library's \<open>Init\<close>, \<open>Update\<close> and \<open>Final\<close> hash
  the concatenation of the pieces. The failures of the library's own calls are left out.
\<close>

record sha_ctx =
  hashed :: bytes
  finalized :: bool

definition sha_init :: sha_ctx where
  "sha_init = \<lparr>hashed = [], finalized = False\<rparr>"

definition sha_update :: "sha_ctx \<Rightarrow> bytes \<Rightarrow> sha_ctx res" where
  "sha_update ctx data =
     (if finalized ctx then Inl (DpcError ''SHA-256 context already finalized'')
      else Inr (ctx\<lparr>hashed := hashed ctx @ data\<rparr>))"

definition finalBytes :: "third_party \<Rightarrow> sha_ctx \<Rightarrow> (bytes \<times> sha_ctx) res" where
  "finalBytes T ctx =
     (if finalized ctx then Inl (DpcError ''SHA-256 context already finalized'')
      else if length (sha256 T (hashed ctx)) \<noteq> 32 then Inl (DpcError ''OpenSSL SHA-256 final failed'')
      else Inr (sha256 T (hashed ctx), ctx\<lparr>finalized := True\<rparr>))"

definition finalHex :: "third_party \<Rightarrow> sha_ctx \<Rightarrow> (string \<times> sha_ctx) res" where
  "finalHex T ctx = rbind (finalBytes T ctx) (\<lambda>(digest, ctx'). Inr (bytesToHex digest, ctx'))"

definition sha256Hex :: "third_party \<Rightarrow> bytes \<Rightarrow> string res" where
  "sha256Hex T data =
     rbind (sha_update sha_init data) (\<lambda>ctx.
     rbind (finalHex T ctx) (\<lambda>(hex, _). Inr hex))"

definition isSha256Hex :: "string \<Rightarrow> bool" where
  "isSha256Hex value \<longleftrightarrow> length value = 64 \<and> list_all isxdigit value"

definition requireSha256Hex :: "string \<Rightarrow> string \<Rightarrow> unit res" where
  "requireSha256Hex value field =
     (if \<not> isSha256Hex value
      then Inl (DpcError (field @ '' must be a 64-character SHA-256 hex string'')) else Inr ())"

text \<open>\<open>sha256File\<close> reads 64 KiB blocks until the end of the file.\<close>

definition sha_block_size :: nat where
  "sha_block_size = 64 * 1024"

function sha_read_blocks :: "sha_ctx \<Rightarrow> bytes \<Rightarrow> sha_ctx res" where
  "sha_read_blocks ctx rest =
     (if rest = [] then Inr ctx
      else rbind (sha_update ctx (take sha_block_size rest))
             (\<lambda>ctx'. sha_read_blocks ctx' (drop sha_block_size rest)))"
  by pat_completeness auto
termination
  by (relation "measure (\<lambda>(_, rest). length rest)") (auto simp: sha_block_size_def)

declare sha_read_blocks.simps [simp del]

definition sha256File :: "third_party \<Rightarrow> bytes \<Rightarrow> string res" where
  "sha256File T contents =
     rbind (sha_read_blocks sha_init contents) (\<lambda>ctx.
     rbind (finalHex T ctx) (\<lambda>(hex, _). Inr hex))"

text \<open>The digest of some data as text, the value every successful path computes.\<close>

definition sha_hex :: "third_party \<Rightarrow> bytes \<Rightarrow> string" where
  "sha_hex T data = bytesToHex (sha256 T data)"

lemma sha256Hex_ok: "sha_ok T \<Longrightarrow> sha256Hex T data = Inr (sha_hex T data)"
  by (simp add: sha256Hex_def sha_update_def sha_init_def finalHex_def finalBytes_def sha_ok_def sha_hex_def)

lemma sha256Hex_Inr: "sha256Hex T data = Inr h \<Longrightarrow> h = sha_hex T data \<and> isSha256Hex h"
  by (auto simp: sha256Hex_def sha_update_def sha_init_def finalHex_def finalBytes_def sha_hex_def
      isSha256Hex_def res_simps bytesToHex_xdigit split: if_splits)

lemma isSha256Hex_sha_hex: "sha_ok T \<Longrightarrow> isSha256Hex (sha_hex T d)"
  by (simp add: isSha256Hex_def sha_hex_def sha_ok_def bytesToHex_xdigit)

lemma requireSha256Hex_Inr [res_simps]: "requireSha256Hex v f = Inr u \<longleftrightarrow> isSha256Hex v"
  by (simp add: requireSha256Hex_def)

lemma isSha256Hex_token: "isSha256Hex h \<Longrightarrow> token h"
  by (auto simp: isSha256Hex_def token_def list_all_iff dest: isxdigit_not_space)

lemma sha_read_blocks_all:
  "\<not> finalized ctx \<Longrightarrow> sha_read_blocks ctx rest = Inr (ctx\<lparr>hashed := hashed ctx @ rest\<rparr>)"
proof (induction ctx rest rule: sha_read_blocks.induct)
  case (1 ctx rest)
  show ?case
  proof (cases "rest = []")
    case True
    then show ?thesis by (subst sha_read_blocks.simps) simp
  next
    case False
    let ?ctx = "ctx\<lparr>hashed := hashed ctx @ take sha_block_size rest\<rparr>"
    have "sha_read_blocks ?ctx (drop sha_block_size rest)
        = Inr (?ctx\<lparr>hashed := hashed ?ctx @ drop sha_block_size rest\<rparr>)"
      using False "1.prems" by (intro "1.IH") (simp_all add: sha_update_def)
    then show ?thesis
      using False "1.prems" by (subst sha_read_blocks.simps) (simp add: sha_update_def)
  qed
qed

text \<open>Hashing a file block by block is hashing its contents at once.\<close>

lemma sha256File_eq: "sha256File T contents = sha256Hex T contents"
  using sha_read_blocks_all [of sha_init contents]
  by (simp add: sha256File_def sha256Hex_def sha_update_def sha_init_def)

text \<open>A context fed pieces in turn ends with their concatenation.\<close>

fun sha_updates :: "sha_ctx \<Rightarrow> bytes list \<Rightarrow> sha_ctx res" where
  "sha_updates ctx [] = Inr ctx"
| "sha_updates ctx (d # ds) = rbind (sha_update ctx d) (\<lambda>ctx'. sha_updates ctx' ds)"

lemma sha_updates_concat:
  "\<not> finalized ctx \<Longrightarrow> sha_updates ctx ds = Inr (ctx\<lparr>hashed := hashed ctx @ concat ds\<rparr>)"
  by (induction ds arbitrary: ctx) (simp_all add: sha_update_def)

end
