(* ===== verification/DPC_Path.thy ===== *)
theory DPC_Path
  imports DPC_Hash
begin

text \<open>
  Paths: what the code uses of \<open>std::filesystem::path\<close>, and the check every path from outside
  passes, \<open>fileutil::safeRelativePath\<close> (include/dpc/common/FileUtils.hpp). A path is the list of
  the components its iterator gives: a path that ends in a slash has an empty last component,
  an absolute one the component \<open>/\<close> first. \<open>walk\<close> is the place a path leads to, as the kernel
  follows it when no component is a symbolic link.
\<close>

section \<open>Components\<close>

type_synonym path = "string list"

abbreviation slash :: char where "slash \<equiv> CHR ''/''"

definition dot :: string where
  "dot = ''.''"

definition dotdot :: string where
  "dotdot = ''..''"

lemma dots_distinct [simp]:
  "dot \<noteq> []" "dotdot \<noteq> []" "[] \<noteq> dot" "[] \<noteq> dotdot" "dot \<noteq> dotdot" "dotdot \<noteq> dot"
  by (simp_all add: dot_def dotdot_def)

lemma dots_chars [simp]:
  "slash \<notin> set dot" "slash \<notin> set dotdot" "CHR 0x00 \<notin> set dot" "CHR 0x00 \<notin> set dotdot"
  by (simp_all add: dot_def dotdot_def)

fun split_slash :: "string \<Rightarrow> string list" where
  "split_slash [] = [[]]"
| "split_slash (c # cs) =
     (if c = slash then [] # split_slash cs
      else (case split_slash cs of [] \<Rightarrow> [[c]] | x # xs \<Rightarrow> (c # x) # xs))"

fun join_path :: "path \<Rightarrow> string" where
  "join_path [] = []"
| "join_path [c] = c"
| "join_path (c # cs) = (if c = [slash] then c else c @ [slash]) @ join_path cs"

definition is_absolute :: "string \<Rightarrow> bool" where
  "is_absolute s \<longleftrightarrow> s \<noteq> [] \<and> hd s = slash"

text \<open>
  \<open>path::lexically_normal\<close> of a relative path: a dot goes with the slash after it, a name
  followed by two dots goes with them, a slash at the end stays unless two dots precede it,
  and what is left of nothing is a dot. The flag says whether a slash is at the end.
\<close>

fun normal_step :: "path \<times> bool \<Rightarrow> string \<Rightarrow> path \<times> bool" where
  "normal_step (stack, trailing) name =
     (if name = [] then (stack, stack \<noteq> [])
      else if name = dot then (stack, stack \<noteq> [])
      else if name = dotdot then
        (if stack \<noteq> [] \<and> last stack \<noteq> dotdot then (butlast stack, butlast stack \<noteq> [])
         else (stack @ [dotdot], False))
      else (stack @ [name], False))"

definition lexically_normal :: "string \<Rightarrow> path" where
  "lexically_normal s =
     (let (stack, trailing) = foldl normal_step ([], False) (split_slash s) in
      if stack = [] then [dot]
      else if trailing \<and> last stack \<noteq> dotdot then stack @ [[]]
      else stack)"

definition safeRelativePath :: "string \<Rightarrow> string \<Rightarrow> path res" where
  "safeRelativePath value field_name =
     (if CHR 0x00 \<in> set value then Inl (DpcError (field_name @ '' must not contain null bytes''))
      else if value = [] \<or> is_absolute value
        then Inl (DpcError (field_name @ '' must be a non-empty relative path''))
      else let normalized = lexically_normal value in
        if normalized = [] \<or> normalized = [dot]
          then Inl (DpcError (field_name @ '' must not resolve to current directory''))
        else if dotdot \<in> set normalized
          then Inl (DpcError (field_name @ '' must not contain parent directory traversal''))
        else Inr normalized)"

definition safeJoinUnderRoot :: "path \<Rightarrow> string \<Rightarrow> string \<Rightarrow> path res" where
  "safeJoinUnderRoot root relative field_name =
     rbind (safeRelativePath relative field_name) (\<lambda>safe. Inr (root @ safe))"

text \<open>A component that names an entry of a directory.\<close>

definition plain_name :: "string \<Rightarrow> bool" where
  "plain_name c \<longleftrightarrow> c \<noteq> [] \<and> c \<noteq> dot \<and> c \<noteq> dotdot \<and> slash \<notin> set c"

section \<open>Where a path leads\<close>

definition walk_step :: "path \<Rightarrow> string \<Rightarrow> path" where
  "walk_step acc c =
     (if c = [] \<or> c = dot then acc
      else if c = dotdot then
        (if acc = [[slash]] then acc
         else if acc = [] \<or> last acc = dotdot then acc @ [dotdot]
         else butlast acc)
      else acc @ [c])"

definition walk :: "path \<Rightarrow> path" where
  "walk p = foldl walk_step [] p"

lemma walk_Nil [simp]: "walk [] = []"
  by (simp add: walk_def)

lemma walk_snoc: "walk (p @ [c]) = walk_step (walk p) c"
  by (simp add: walk_def)

lemma walk_plain: "list_all plain_name cs \<Longrightarrow> walk (p @ cs) = walk p @ cs"
proof (induction cs rule: rev_induct)
  case Nil
  then show ?case by simp
next
  case (snoc c cs)
  then show ?case
    by (simp add: walk_snoc flip: append_assoc) (simp add: walk_step_def plain_name_def)
qed

lemma walk_trailing [simp]: "walk (p @ [[]]) = walk p"
  by (simp add: walk_snoc walk_step_def)

lemma plain_name_token: "c \<noteq> [] \<Longrightarrow> CHR ''.'' \<notin> set c \<Longrightarrow> slash \<notin> set c \<Longrightarrow> plain_name c"
  by (auto simp: plain_name_def dot_def dotdot_def)

lemma xdigits_plain: "list_all isxdigit c \<Longrightarrow> c \<noteq> [] \<Longrightarrow> plain_name c"
proof (rule plain_name_token)
  assume a: "list_all isxdigit c"
  have "\<not> isxdigit (CHR ''.'')" "\<not> isxdigit slash"
    by (simp_all add: isxdigit_def isdigit_def char_code_def)
  with a show "CHR ''.'' \<notin> set c" "slash \<notin> set c" unfolding list_all_iff by blast+
qed

section \<open>Normal forms\<close>

lemma split_slash_nonempty [simp]: "split_slash s \<noteq> []"
  by (cases s) (auto split: list.splits)

lemma split_slash_no_slash: "c \<in> set (split_slash s) \<Longrightarrow> slash \<notin> set c"
  by (induction s arbitrary: c) (fastforce split: list.splits if_splits)+

lemma split_slash_chars: "c \<in> set (split_slash s) \<Longrightarrow> set c \<subseteq> set s"
  by (induction s arbitrary: c) (fastforce split: list.splits if_splits)+

lemma split_slash_name: "slash \<notin> set n \<Longrightarrow> split_slash n = [n]"
  by (induction n) auto

lemma split_slash_append: "slash \<notin> set n \<Longrightarrow> split_slash (n @ slash # s) = n # split_slash s"
  by (induction n) auto

lemma split_slash_join:
  "cs \<noteq> [] \<Longrightarrow> list_all (\<lambda>c. slash \<notin> set c) cs \<Longrightarrow> split_slash (join_path cs) = cs"
  by (induction cs rule: join_path.induct) (auto simp: split_slash_name split_slash_append)

text \<open>What the loop has on its stack: names, after two dots only at the front.\<close>

lemma normal_step_stack:
  "fst (normal_step (stack, t) name) = stack \<or> fst (normal_step (stack, t) name) = butlast stack
     \<or> fst (normal_step (stack, t) name) = stack @ [dotdot] \<and> name = dotdot
     \<or> fst (normal_step (stack, t) name) = stack @ [name] \<and> name \<noteq> [] \<and> name \<noteq> dot"
  by simp

lemma normal_step_names:
  assumes "normal_step (stack, t) name = (stack', t')"
    and "\<forall>c \<in> set stack. c \<noteq> [] \<and> c \<noteq> dot \<and> slash \<notin> set c" and "slash \<notin> set name"
  shows "\<forall>c \<in> set stack'. c \<noteq> [] \<and> c \<noteq> dot \<and> slash \<notin> set c"
  using normal_step_stack [of stack t name] assms(2,3)
  unfolding assms(1) fst_conv
  by (elim disjE conjE) (simp_all, blast dest: in_set_butlastD)

lemma normal_step_set:
  assumes "normal_step (stack, t) name = (stack', t')"
  shows "set stack' \<subseteq> insert name (set stack)"
  using normal_step_stack [of stack t name]
  unfolding assms fst_conv
  by (elim disjE conjE) (simp_all add: subset_iff, blast dest: in_set_butlastD)

lemma normal_fold_names:
  assumes "foldl normal_step (stack, t) names = (stack', t')"
    and "\<forall>c \<in> set stack. c \<noteq> [] \<and> c \<noteq> dot \<and> slash \<notin> set c"
    and "\<forall>n \<in> set names. slash \<notin> set n"
  shows "\<forall>c \<in> set stack'. c \<noteq> [] \<and> c \<noteq> dot \<and> slash \<notin> set c"
  using assms
proof (induction names arbitrary: stack t)
  case (Cons n names)
  obtain s1 t1 where st: "normal_step (stack, t) n = (s1, t1)" by fastforce
  have "\<forall>c \<in> set s1. c \<noteq> [] \<and> c \<noteq> dot \<and> slash \<notin> set c"
    using normal_step_names [OF st] Cons.prems by simp
  moreover have "foldl normal_step (s1, t1) names = (stack', t')" using Cons.prems(1) st by simp
  ultimately show ?case using Cons.prems(3) by (intro Cons.IH) auto
qed simp

lemma normal_fold_chars:
  assumes "foldl normal_step (stack, t) names = (stack', t')"
  shows "set stack' \<subseteq> set stack \<union> set names"
  using assms
proof (induction names arbitrary: stack t)
  case (Cons n names)
  obtain s1 t1 where st: "normal_step (stack, t) n = (s1, t1)" by fastforce
  have "set s1 \<subseteq> insert n (set stack)" by (rule normal_step_set [OF st])
  moreover have "foldl normal_step (s1, t1) names = (stack', t')" using Cons.prems(1) st by simp
  ultimately show ?case using Cons.IH by fastforce
qed simp

text \<open>
  A path that passes is a list of plain names, with an empty component at its end when the
  text ended in a slash.
\<close>

definition safe_path :: "path \<Rightarrow> bool" where
  "safe_path p \<longleftrightarrow> (\<exists>cs. cs \<noteq> [] \<and> list_all plain_name cs
     \<and> list_all (\<lambda>c. CHR 0x00 \<notin> set c) cs \<and> (p = cs \<or> p = cs @ [[]]))"

lemma safeRelativePath_safe:
  assumes "safeRelativePath value f = Inr p"
  shows "safe_path p"
proof -
  obtain stack t where fold: "foldl normal_step ([], False) (split_slash value) = (stack, t)"
    by fastforce
  have names: "\<forall>c \<in> set stack. c \<noteq> [] \<and> c \<noteq> dot \<and> slash \<notin> set c"
    by (rule normal_fold_names [OF fold]) (auto dest: split_slash_no_slash)
  have nul: "\<forall>c \<in> set stack. CHR 0x00 \<notin> set c"
    using assms normal_fold_chars [OF fold] split_slash_chars [of _ "value"]
    by (fastforce simp: safeRelativePath_def split: if_splits)
  have p: "p = lexically_normal value" "p \<noteq> [dot]" "dotdot \<notin> set p"
    using assms by (auto simp: safeRelativePath_def Let_def split: if_splits)
  then have ne: "stack \<noteq> []" and sp: "p = stack \<or> p = stack @ [[]]"
    by (auto simp: lexically_normal_def fold split: if_splits)
  then have "list_all plain_name stack"
    using names p(3) by (auto simp: list_all_iff plain_name_def)
  then show ?thesis using ne sp nul unfolding safe_path_def list_all_iff by blast
qed

lemma safe_path_nonempty: "safe_path p \<Longrightarrow> p \<noteq> []"
  by (auto simp: safe_path_def)

lemma safe_path_walk:
  assumes "safe_path p"
  shows "\<exists>cs. cs \<noteq> [] \<and> list_all plain_name cs \<and> walk (root @ p) = walk root @ cs"
proof -
  obtain cs where cs: "cs \<noteq> []" "list_all plain_name cs" "p = cs \<or> p = cs @ [[]]"
    using assms by (auto simp: safe_path_def)
  then have "walk (root @ p) = walk root @ cs"
    using walk_plain [of cs root] walk_trailing [of "root @ cs"] by auto
  with cs show ?thesis by blast
qed

lemma normal_fold_plain:
  "list_all plain_name cs \<Longrightarrow> foldl normal_step (stack, t) cs = (stack @ cs, if cs = [] then t else False)"
  by (induction cs arbitrary: stack t) (auto simp: plain_name_def)

lemma join_path_first: "plain_name c \<Longrightarrow> join_path (c # cs) \<noteq> [] \<and> hd (join_path (c # cs)) \<noteq> slash"
  by (cases c; cases cs) (auto simp: plain_name_def)

lemma join_path_chars: "CHR 0x00 \<in> set (join_path cs) \<Longrightarrow> \<exists>c \<in> set cs. CHR 0x00 \<in> set c"
  by (induction cs rule: join_path.induct) (auto split: if_splits)

text \<open>The check leaves a path that already is in normal form as it is.\<close>

lemma safeRelativePath_join:
  assumes "safe_path p"
  shows "safeRelativePath (join_path p) f = Inr p"
proof -
  obtain cs where cs: "cs \<noteq> []" "list_all plain_name cs" "list_all (\<lambda>c. CHR 0x00 \<notin> set c) cs"
      "p = cs \<or> p = cs @ [[]]"
    using assms by (auto simp: safe_path_def)
  obtain c cs' where c: "cs = c # cs'" using cs(1) by (cases cs) auto
  have p0: "p \<noteq> []" "\<exists>p'. p = c # p'" using cs(4) c by auto
  have "list_all (\<lambda>c. slash \<notin> set c) p" using cs by (auto simp: list_all_iff plain_name_def)
  then have split: "split_slash (join_path p) = p" using p0(1) by (intro split_slash_join)
  have noslash: "join_path p \<noteq> []" "hd (join_path p) \<noteq> slash"
    using p0(2) join_path_first cs(2) c by (auto simp: list_all_iff)
  have nul: "CHR 0x00 \<notin> set (join_path p)"
    using cs(3,4) by (auto simp: list_all_iff dest!: join_path_chars)
  have last: "last cs \<noteq> dotdot" "dotdot \<notin> set cs" "dot \<notin> set cs"
    using cs(1,2) by (auto simp: list_all_iff plain_name_def)
  have "lexically_normal (join_path p) = p"
    using cs(4) cs(1) last
    by (auto simp: lexically_normal_def split normal_fold_plain [OF cs(2)])
  moreover have "dotdot \<notin> set p" "p \<noteq> [dot]" using last cs(1,4) by auto
  ultimately show ?thesis
    using p0(1) noslash nul by (simp add: safeRelativePath_def is_absolute_def)
qed

lemma safe_path_plain:
  "cs \<noteq> [] \<Longrightarrow> list_all plain_name cs \<Longrightarrow> list_all (\<lambda>c. CHR 0x00 \<notin> set c) cs \<Longrightarrow> safe_path cs"
  by (auto simp: safe_path_def)

text \<open>How a path is printed in messages (\<open>path::string\<close>).\<close>

abbreviation path_string :: "path \<Rightarrow> string" where
  "path_string p \<equiv> join_path p"

end
