(* ===== verification/DPC_Files.thy ===== *)
theory DPC_Files
  imports DPC_Path
begin

text \<open>
  The outside world and the file helpers of include/dpc/common/FileUtils.hpp.

  The world holds the disk, the bytes of a connection, the clocks, and a script: what the
  environment does to the system calls still to come, one event for each call (a call does its
  work, fails with an error text, is interrupted, writes only some bytes, or never returns
  because the process ends there). An exhausted script lets every call do its work. A theorem
  about all worlds is a theorem about all scripts: every failure and every point where the
  process can be cut off is one of them. Reads of the disk use no event.
\<close>

section \<open>The disk\<close>

datatype node = File bytes u32 | Directory

type_synonym fs = "(path \<times> node) list"

text \<open>Keys are places (\<open>walk\<close> of a path); the root of a walk is always a directory.\<close>

definition node_at :: "fs \<Rightarrow> path \<Rightarrow> node option" where
  "node_at d k = (if k = [] \<or> k = [[slash]] then Some Directory else map_of d k)"

definition is_dir :: "fs \<Rightarrow> path \<Rightarrow> bool" where
  "is_dir d p \<longleftrightarrow> node_at d (walk p) = Some Directory"

definition is_regular :: "fs \<Rightarrow> path \<Rightarrow> bool" where
  "is_regular d p \<longleftrightarrow> (case node_at d (walk p) of Some (File _ _) \<Rightarrow> True | _ \<Rightarrow> False)"

definition exists_path :: "fs \<Rightarrow> path \<Rightarrow> bool" where
  "exists_path d p \<longleftrightarrow> node_at d (walk p) \<noteq> None"

text \<open>The entries of a directory, in the order the directory holds them, and everything below it.\<close>

definition directory_entries :: "fs \<Rightarrow> path \<Rightarrow> path list" where
  "directory_entries d p = filter (\<lambda>k. k \<noteq> [] \<and> butlast k = walk p) (remdups (map fst d))"

text \<open>A name a directory can hold: what the kernel accepts, and what the iterators show.\<close>

definition entry_name :: "string \<Rightarrow> bool" where
  "entry_name c \<longleftrightarrow> plain_name c \<and> CHR 0x00 \<notin> set c"

definition recursive_entries :: "fs \<Rightarrow> path \<Rightarrow> path list" where
  "recursive_entries d p =
     filter (\<lambda>k. length (walk p) < length k \<and> take (length (walk p)) k = walk p
               \<and> list_all entry_name (drop (length (walk p)) k)) (remdups (map fst d))"

section \<open>System calls\<close>

datatype event = Done | Fail string | Eintr | Short nat | Kill

record world =
  disk :: fs
  script :: "event list"
  steady_clock :: "nat list"
  system_clock :: u64
  pid :: nat
  umask :: u32
  fault_abort :: bool
  fault_fired :: bool
  sock_in :: bytes
  sock_out :: bytes

type_synonym 'a act = "(world, 'a) io"

definition eintr_text :: string where
  "eintr_text = ''Interrupted system call''"

text \<open>A call that changes the disk: \<open>None\<close> when it did, the error text when it did not.\<close>

definition sys_try :: "(fs \<Rightarrow> string + fs) \<Rightarrow> string option act" where
  "sys_try call w =
     (let (e, w1) = (case script w of [] \<Rightarrow> (Done, w) | e # es \<Rightarrow> (e, w\<lparr>script := es\<rparr>)) in
      case e of
        Kill \<Rightarrow> (Inl Killed, w1)
      | Fail m \<Rightarrow> (Inr (Some m), w1)
      | Eintr \<Rightarrow> (Inr (Some eintr_text), w1)
      | _ \<Rightarrow> (case call (disk w1) of
                Inl m \<Rightarrow> (Inr (Some m), w1)
              | Inr d \<Rightarrow> (Inr None, w1\<lparr>disk := d\<rparr>)))"

definition errnoMessage :: "string \<Rightarrow> string \<Rightarrow> string" where
  "errnoMessage prefix strerror = prefix @ '': '' @ strerror"

definition sys :: "string \<Rightarrow> (fs \<Rightarrow> string + fs) \<Rightarrow> unit act" where
  "sys prefix call = io_bind (sys_try call) (\<lambda>r. case r of
       None \<Rightarrow> io_return ()
     | Some m \<Rightarrow> io_throw (DpcError (errnoMessage prefix m)))"

definition mkdir_call :: "path \<Rightarrow> fs \<Rightarrow> string + fs" where
  "mkdir_call k d =
     (if node_at d k \<noteq> None then Inl ''File exists''
      else if node_at d (butlast k) \<noteq> Some Directory then Inl ''No such file or directory''
      else Inr (AList.update k Directory d))"

definition creat_excl_call :: "path \<Rightarrow> u32 \<Rightarrow> fs \<Rightarrow> string + fs" where
  "creat_excl_call k mode d =
     (if node_at d k \<noteq> None then Inl ''File exists''
      else if node_at d (butlast k) \<noteq> Some Directory then Inl ''No such file or directory''
      else Inr (AList.update k (File [] mode) d))"

definition open_append_call :: "path \<Rightarrow> u32 \<Rightarrow> fs \<Rightarrow> string + fs" where
  "open_append_call k mode d =
     (case node_at d k of
        Some Directory \<Rightarrow> Inl ''Is a directory''
      | Some (File _ _) \<Rightarrow> Inr d
      | None \<Rightarrow> (if node_at d (butlast k) \<noteq> Some Directory then Inl ''No such file or directory''
                 else Inr (AList.update k (File [] mode) d)))"

definition rename_call :: "path \<Rightarrow> path \<Rightarrow> fs \<Rightarrow> string + fs" where
  "rename_call src dst d =
     (case node_at d src of
        Some (File c m) \<Rightarrow>
          (if node_at d dst = Some Directory then Inl ''Is a directory''
           else if node_at d (butlast dst) \<noteq> Some Directory then Inl ''No such file or directory''
           else if src = dst then Inr d
           else Inr (AList.delete src (AList.update dst (File c m) d)))
      | _ \<Rightarrow> Inl ''No such file or directory'')"

definition unlink_call :: "path \<Rightarrow> fs \<Rightarrow> string + fs" where
  "unlink_call k d =
     (case node_at d k of
        Some (File _ _) \<Rightarrow> Inr (AList.delete k d)
      | _ \<Rightarrow> Inl ''No such file or directory'')"

definition chmod_call :: "path \<Rightarrow> u32 \<Rightarrow> fs \<Rightarrow> string + fs" where
  "chmod_call k mode d =
     (case node_at d k of
        Some (File c _) \<Rightarrow> Inr (AList.update k (File c (mode AND 0xfff)) d)
      | Some Directory \<Rightarrow> Inr d
      | None \<Rightarrow> Inl ''No such file or directory'')"

definition open_dir_call :: "path \<Rightarrow> fs \<Rightarrow> string + fs" where
  "open_dir_call k d =
     (if node_at d k = Some Directory then Inr d else Inl ''Not a directory'')"

text \<open>Bytes written at the end of an open file.\<close>

definition append_bytes :: "path \<Rightarrow> bytes \<Rightarrow> fs \<Rightarrow> fs" where
  "append_bytes k data d =
     (case node_at d k of Some (File c m) \<Rightarrow> AList.update k (File (c @ data) m) d | _ \<Rightarrow> d)"

section \<open>The helpers of FileUtils.hpp\<close>

text \<open>
  \<open>write_run\<close> is the loop of \<open>writeAll\<close> against the events of the script: what was written,
  how it ended, the events left.
\<close>

fun write_run :: "event list \<Rightarrow> bytes \<Rightarrow> bytes \<times> unit res \<times> event list" where
  "write_run es [] = ([], Inr (), es)"
| "write_run [] data = (data, Inr (), [])"
| "write_run (Done # es) data = (data, Inr (), es)"
| "write_run (Eintr # es) data = write_run es data"
| "write_run (Fail m # es) data = ([], Inl (DpcError (errnoMessage ''write failed'' m)), es)"
| "write_run (Kill # es) data = ([], Inl Killed, es)"
| "write_run (Short n # es) data =
     (if n = 0 then ([], Inl (DpcError ''write returned zero bytes''), es)
      else (let (written, r, es') = write_run es (drop n data) in (take n data @ written, r, es')))"

definition writeAll :: "path \<Rightarrow> bytes \<Rightarrow> unit act" where
  "writeAll k data w =
     (let (written, r, es) = write_run (script w) data in
      (r, w\<lparr>script := es, disk := append_bytes k written (disk w)\<rparr>))"

fun fsync_run :: "string \<Rightarrow> event list \<Rightarrow> unit res \<times> event list" where
  "fsync_run name [] = (Inr (), [])"
| "fsync_run name (Eintr # es) = fsync_run name es"
| "fsync_run name (Kill # es) = (Inl Killed, es)"
| "fsync_run name (Fail m # es) = (Inl (DpcError (errnoMessage (''fsync failed for '' @ name) m)), es)"
| "fsync_run name (_ # es) = (Inr (), es)"

definition fsyncFd :: "string \<Rightarrow> unit act" where
  "fsyncFd name w = (let (r, es) = fsync_run name (script w) in (r, w\<lparr>script := es\<rparr>))"

definition ensureDirectory :: "path \<Rightarrow> unit act" where
  "ensureDirectory p =
     (let message = ''create directory failed: '' @ path_string p in
      if p = [] then io_throw (DpcError (errnoMessage message ''Invalid argument''))
      else io_foreach (\<lambda>k.
        io_bind (io_get (\<lambda>w. node_at (disk w) k)) (\<lambda>n. case n of
            Some Directory \<Rightarrow> io_return ()
          | Some (File _ _) \<Rightarrow> io_throw (DpcError (errnoMessage message ''Not a directory''))
          | None \<Rightarrow> sys message (mkdir_call k)))
        (map (\<lambda>i. take i (walk p)) [1 ..< Suc (length (walk p))]))"

definition fsyncDirectory :: "path \<Rightarrow> unit act" where
  "fsyncDirectory p =
     io_seq (sys (''open directory failed: '' @ path_string p) (open_dir_call (walk p)))
       (fsyncFd (path_string p))"

definition temp_name :: "string \<Rightarrow> nat \<Rightarrow> nat \<Rightarrow> string" where
  "temp_name filename process tick = filename @ ''.tmp.'' @ dec process @ ''.'' @ dec tick"

definition makeTempPath :: "path \<Rightarrow> path act" where
  "makeTempPath final_path w =
     (let tick = (case steady_clock w of [] \<Rightarrow> 0 | t # _ \<Rightarrow> t) in
      (Inr (butlast final_path @ [temp_name (last final_path) (pid w) tick]),
       w\<lparr>steady_clock := tl (steady_clock w)\<rparr>))"

definition writeFileAtomic :: "path \<Rightarrow> bytes \<Rightarrow> u32 \<Rightarrow> unit act" where
  "writeFileAtomic final_path data mode =
     io_seq (ensureDirectory (butlast final_path)) (
     io_bind (makeTempPath final_path) (\<lambda>tmp_path.
     io_bind (io_get umask) (\<lambda>um.
     io_seq (sys (''open temp file failed: '' @ path_string tmp_path)
               (creat_excl_call (walk tmp_path) (mode AND NOT um))) (
     io_seq (if data \<noteq> [] then writeAll (walk tmp_path) data else io_return ()) (
     io_seq (fsyncFd (path_string tmp_path)) (
     io_bind (sys_try (rename_call (walk tmp_path) (walk final_path))) (\<lambda>r. case r of
         Some m \<Rightarrow> io_bind (sys_try (unlink_call (walk tmp_path))) (\<lambda>ignored.
           io_throw (DpcError (errnoMessage
             (''rename failed: '' @ path_string tmp_path @ '' -> '' @ path_string final_path)
             (case ignored of None \<Rightarrow> m | Some errno \<Rightarrow> errno))))
       | None \<Rightarrow> fsyncDirectory (butlast final_path))))))))"

definition writeTextAtomic :: "path \<Rightarrow> string \<Rightarrow> u32 \<Rightarrow> unit act" where
  "writeTextAtomic final_path text mode = writeFileAtomic final_path (bytes_of_string text) mode"

definition readFile :: "fs \<Rightarrow> path \<Rightarrow> bytes res" where
  "readFile d p =
     (case node_at d (walk p) of
        Some (File c _) \<Rightarrow> Inr c
      | Some Directory \<Rightarrow> Inl (StdException ''error reading the file: Is a directory'')
      | None \<Rightarrow> Inl (DpcError (''open file failed: '' @ path_string p)))"

definition sha256FileAt :: "third_party \<Rightarrow> fs \<Rightarrow> path \<Rightarrow> string res" where
  "sha256FileAt T d p =
     (case node_at d (walk p) of
        Some (File c _) \<Rightarrow> sha256File T c
      | Some Directory \<Rightarrow> Inl (DpcError (''read file failed for SHA-256: '' @ path_string p))
      | None \<Rightarrow> Inl (DpcError (''open file failed for SHA-256: '' @ path_string p)))"

definition readTextFile :: "fs \<Rightarrow> path \<Rightarrow> string res" where
  "readTextFile d p = rbind (readFile d p) (\<lambda>data. Inr (string_of_bytes data))"

definition fileMode :: "fs \<Rightarrow> path \<Rightarrow> u32 res" where
  "fileMode d p =
     (case node_at d (walk p) of
        Some (File _ m) \<Rightarrow> Inr (m AND 0x1ff)
      | Some Directory \<Rightarrow> Inr 0x1ed
      | None \<Rightarrow> Inl (DpcError (errnoMessage (''stat failed: '' @ path_string p) ''No such file or directory'')))"

definition setFileMode :: "path \<Rightarrow> u32 \<Rightarrow> unit act" where
  "setFileMode p mode = sys (''chmod failed: '' @ path_string p) (chmod_call (walk p) mode)"

definition fileSize :: "fs \<Rightarrow> path \<Rightarrow> u64 res" where
  "fileSize d p =
     (case node_at d (walk p) of
        Some (File c _) \<Rightarrow> Inr (word_of_nat (length c))
      | Some Directory \<Rightarrow> Inl (DpcError (''file_size failed: '' @ path_string p @ '': Is a directory''))
      | None \<Rightarrow> Inl (DpcError (''file_size failed: '' @ path_string p @ '': No such file or directory'')))"

section \<open>What the calls do to the disk\<close>

lemma node_at_root [simp]: "node_at d [] = Some Directory" "node_at d [[slash]] = Some Directory"
  by (simp_all add: node_at_def)

lemma node_at_None_root: "node_at d k = None \<Longrightarrow> k \<noteq> [] \<and> k \<noteq> [[slash]]"
  by (auto simp: node_at_def)

lemma node_at_File_root: "node_at d k = Some (File c m) \<Longrightarrow> k \<noteq> [] \<and> k \<noteq> [[slash]]"
  by (auto simp: node_at_def)

lemma node_at_update_same: "k \<noteq> [] \<Longrightarrow> k \<noteq> [[slash]] \<Longrightarrow> node_at (AList.update k v d) k = Some v"
  by (simp add: node_at_def)

lemma node_at_update_deep [simp]: "1 < length k \<Longrightarrow> node_at (AList.update k v d) k = Some v"
  by (rule node_at_update_same) auto

lemma node_at_update_other [simp]: "k' \<noteq> k \<Longrightarrow> node_at (AList.update k v d) k' = node_at d k'"
  by (simp add: node_at_def map_of_update_neq)

lemma node_at_delete_other [simp]: "k' \<noteq> k \<Longrightarrow> node_at (AList.delete k d) k' = node_at d k'"
  by (simp add: node_at_def map_of_delete_neq)

lemma node_at_delete_same: "k \<noteq> [] \<Longrightarrow> k \<noteq> [[slash]] \<Longrightarrow> node_at (AList.delete k d) k = None"
  by (simp add: node_at_def)

lemma append_bytes_other [simp]: "k' \<noteq> k \<Longrightarrow> node_at (append_bytes k data d) k' = node_at d k'"
  by (auto simp: append_bytes_def split: option.splits node.splits)

lemma append_bytes_same:
  "node_at d k = Some (File c m) \<Longrightarrow> node_at (append_bytes k data d) k = Some (File (c @ data) m)"
  by (auto simp: append_bytes_def dest: node_at_File_root intro: node_at_update_same)

lemma append_bytes_Nil: "node_at (append_bytes k [] d) k' = node_at d k'"
proof (cases "k' = k")
  case True
  then show ?thesis
    by (auto simp: append_bytes_def split: option.splits node.splits dest: node_at_File_root
        intro: node_at_update_same)
qed simp

lemma readFile_Inr [res_simps]: "readFile d p = Inr c \<longleftrightarrow> (\<exists>m. node_at d (walk p) = Some (File c m))"
  by (auto simp: readFile_def split: option.splits node.splits)

lemma directory_entries_iff:
  "k \<in> set (directory_entries d p) \<longleftrightarrow> k \<in> fst ` set d \<and> k \<noteq> [] \<and> butlast k = walk p"
  by (auto simp: directory_entries_def)

lemma node_at_key: "node_at d k = Some (File c m) \<Longrightarrow> k \<in> fst ` set d"
  by (auto simp: node_at_def split: if_splits dest: map_of_SomeD intro: rev_image_eqI)

section \<open>Facts a call keeps\<close>

text \<open>
  A predicate of the disk is kept by a call when it is kept by the disk the call makes; the
  events, the clocks and the other fields do not matter to it.
\<close>

abbreviation on_disk :: "(fs \<Rightarrow> bool) \<Rightarrow> world \<Rightarrow> bool" where
  "on_disk D \<equiv> \<lambda>w. D (disk w)"

lemma keeps_sys_try [keeps_intro]:
  assumes "\<And>d d'. D d \<Longrightarrow> call d = Inr d' \<Longrightarrow> D d'"
  shows "keeps (on_disk D) (sys_try call)"
  using assms by (auto simp: keeps_def sys_try_def split: list.splits event.splits sum.splits)

lemma keeps_sys [keeps_intro]:
  assumes "\<And>d d'. D d \<Longrightarrow> call d = Inr d' \<Longrightarrow> D d'"
  shows "keeps (on_disk D) (sys prefix call)"
  unfolding sys_def using assms by (auto intro!: keeps_intro split: option.splits)

lemma keeps_fsyncFd [keeps_intro]: "keeps (on_disk D) (fsyncFd name)"
  by (simp add: keeps_def fsyncFd_def split: prod.splits)

lemma keeps_fsyncDirectory [keeps_intro]: "keeps (on_disk D) (fsyncDirectory p)"
  unfolding fsyncDirectory_def by (auto intro!: keeps_intro simp: open_dir_call_def split: if_splits)

lemma keeps_makeTempPath [keeps_intro]: "keeps (on_disk D) (makeTempPath p)"
  by (simp add: keeps_def makeTempPath_def)

lemma keeps_writeAll:
  assumes "\<And>d written. D d \<Longrightarrow> D (append_bytes k written d)"
  shows "keeps (on_disk D) (writeAll k data)"
  using assms by (simp add: keeps_def writeAll_def split: prod.splits)

lemma keeps_ensureDirectory:
  assumes "\<And>d i. D d \<Longrightarrow> node_at d (take i (walk p)) = None \<Longrightarrow>
      D (AList.update (take i (walk p)) Directory d)"
  shows "keeps (on_disk D) (ensureDirectory p)"
proof -
  have "D d'" if "D d" "mkdir_call (take i (walk p)) d = Inr d'" for d d' i
    using that assms by (auto simp: mkdir_call_def split: if_splits)
  then have step: "keeps (on_disk D) (sys message (mkdir_call (take i (walk p))))" for message i
    by (intro keeps_sys)
  show ?thesis
    unfolding ensureDirectory_def Let_def
    by (auto intro!: keeps_if keeps_throw keeps_foreach keeps_bind keeps_get step
        simp del: upt_Suc split: option.splits node.splits) (auto intro!: keeps_intro step)
qed

text \<open>How a call can return, with what it then did.\<close>

lemma sys_try_Inr_None:
  assumes "sys_try call w = (Inr None, w')"
  shows "\<exists>d. call (disk w) = Inr d \<and> disk w' = d "
  using assms by (auto simp: sys_try_def split: list.splits event.splits sum.splits)

lemma sys_try_Inr_Some:
  assumes "sys_try call w = (Inr (Some m), w')"
  shows "disk w' = disk w"
  using assms by (auto simp: sys_try_def split: list.splits event.splits sum.splits)

lemma sys_Inr:
  assumes "sys prefix call w = (Inr u, w')"
  shows "call (disk w) = Inr (disk w')"
  using assms sys_try_Inr_None [of call w w'] by (auto simp: sys_def res_simps split: option.splits)

lemma ensureDirectory_ok:
  assumes "ensureDirectory p w = (Inr u, w')"
  shows "node_at (disk w') (walk p) = Some Directory"
proof (cases "walk p = []")
  case False
  let ?k = "walk p"
  have "[1 ..< Suc (length ?k)] = [1 ..< length ?k] @ [length ?k]" using False by (cases ?k) simp_all
  then obtain w1 message where step: "io_bind (io_get (\<lambda>w. node_at (disk w) ?k)) (\<lambda>n. case n of
            Some Directory \<Rightarrow> io_return ()
          | Some (File _ _) \<Rightarrow> io_throw (DpcError (errnoMessage message ''Not a directory''))
          | None \<Rightarrow> sys message (mkdir_call ?k)) w1 = (Inr u, w')"
    using assms by (auto simp: ensureDirectory_def Let_def io_foreach_snoc split: if_splits)
  show ?thesis
  proof (cases "node_at (disk w1) ?k")
    case None
    then have "mkdir_call ?k (disk w1) = Inr (disk w')"
      using step by (auto simp: res_simps dest: sys_Inr)
    then have "disk w' = AList.update ?k Directory (disk w1)" by (auto simp: mkdir_call_def split: if_splits)
    then show ?thesis using node_at_None_root [OF None] by (simp add: node_at_update_same)
  next
    case (Some n)
    then show ?thesis using step by (cases n) (auto simp: res_simps)
  qed
qed simp

lemma write_run_prefix: "write_run es data = (written, r, es') \<Longrightarrow> \<exists>rest. data = written @ rest"
proof (induction es data arbitrary: written r es' rule: write_run.induct)
  case (7 n es v va)
  show ?case
  proof (cases "n = 0")
    case False
    obtain w1 r1 e1 where st: "write_run es (drop n (v # va)) = (w1, r1, e1)"
      by (metis prod_cases3)
    then obtain rest where "drop n (v # va) = w1 @ rest" using "7.IH" [OF False] by blast
    then have "v # va = (take n (v # va) @ w1) @ rest" by (metis append.assoc append_take_drop_id)
    then show ?thesis using "7.prems" False st by auto
  qed (use "7.prems" in auto)
qed auto

lemma write_run_ok: "write_run es data = (written, Inr u, es') \<Longrightarrow> written = data"
proof (induction es data arbitrary: written u es' rule: write_run.induct)
  case (7 n es v va)
  then have "n \<noteq> 0" by (auto split: if_splits)
  obtain w1 r1 e1 where st: "write_run es (drop n (v # va)) = (w1, r1, e1)"
    by (metis prod_cases3)
  with "7.prems" \<open>n \<noteq> 0\<close> have w: "written = take n (v # va) @ w1" and "r1 = Inr u" by auto
  then have "w1 = drop n (v # va)" using "7.IH" [OF \<open>n \<noteq> 0\<close>] st by blast
  then show ?case using w by simp
qed auto

text \<open>\<open>writeAll\<close> leaves a prefix of the data at the end of the file, all of it when it returns.\<close>

lemma writeAll_prefix:
  "\<exists>written rest. data = written @ rest \<and> disk (snd (writeAll k data w)) = append_bytes k written (disk w)"
  by (auto simp: writeAll_def split: prod.splits dest: write_run_prefix)

lemma writeAll_ok:
  "writeAll k data w = (Inr u, w') \<Longrightarrow>
     disk w' = append_bytes k data (disk w)"
  by (auto simp: writeAll_def split: prod.splits dest: write_run_ok)

lemma fsyncFd_disk: "fsyncFd name w = (r, w') \<Longrightarrow> disk w' = disk w"
  by (auto simp: fsyncFd_def split: prod.splits)

section \<open>The atomic replacement of a file\<close>

text \<open>
  Where \<open>writeFileAtomic\<close> stages the new contents, whatever the process and the clock: beside
  the final path, under its name with a suffix.
\<close>

definition temp_of :: "path \<Rightarrow> path \<Rightarrow> bool" where
  "temp_of p t \<longleftrightarrow> (\<exists>process tick. t = walk (butlast p @ [temp_name (last p) process tick]))"

lemma makeTempPath_temp:
  "makeTempPath p w = (Inr t, w') \<Longrightarrow> temp_of p (walk t) \<and> disk w' = disk w"
  by (auto simp: makeTempPath_def temp_of_def)

lemma makeTempPath_Inl [simp]: "makeTempPath p w \<noteq> (Inl e, w')"
  by (simp add: makeTempPath_def)

text \<open>
  A predicate that survives new directories, any file at a temporary path of \<open>p\<close>, and the new
  contents at \<open>p\<close> itself is kept by the whole call, at whatever point it ends; when the call
  returns, \<open>p\<close> holds the new contents.
\<close>

definition survives_write :: "(fs \<Rightarrow> bool) \<Rightarrow> path \<Rightarrow> bytes \<Rightarrow> bool" where
  "survives_write D p data \<longleftrightarrow>
     (\<forall>d i. D d \<longrightarrow> node_at d (take i (walk (butlast p))) = None \<longrightarrow>
        D (AList.update (take i (walk (butlast p))) Directory d))
   \<and> (\<forall>d t c m. D d \<longrightarrow> temp_of p t \<longrightarrow> D (AList.update t (File c m) d) \<and> D (AList.delete t d))
   \<and> (\<forall>d m. D d \<longrightarrow> D (AList.update (walk p) (File data m) d))"

lemma survives_writeD:
  assumes "survives_write D p data" and "D d"
  shows "node_at d (take i (walk (butlast p))) = None \<Longrightarrow>
      D (AList.update (take i (walk (butlast p))) Directory d)"
    and "temp_of p t \<Longrightarrow> D (AList.update t (File c m) d)"
    and "temp_of p t \<Longrightarrow> D (AList.delete t d)"
    and "D (AList.update (walk p) (File data m) d)"
  using assms by (auto simp: survives_write_def)

lemma survives_conj:
  "survives_write D p data \<Longrightarrow> survives_write E p data \<Longrightarrow> survives_write (\<lambda>d. D d \<and> E d) p data"
  unfolding survives_write_def by blast

text \<open>A place off the path of the write keeps its node.\<close>

lemma survives_node:
  assumes place: "\<And>i. k \<noteq> take i (walk (butlast p))" and temp: "\<not> temp_of p k" and final: "k \<noteq> walk p"
  shows "survives_write (\<lambda>d. node_at d k = n) p data"
proof -
  have "k \<noteq> t" if "temp_of p t" for t using that temp by blast
  then show ?thesis
    unfolding survives_write_def using place final
    by (intro conjI allI impI) (simp_all add: node_at_update_other node_at_delete_other)
qed

lemma temp_append_bytes:
  "survives_write D p data \<Longrightarrow> D d \<Longrightarrow> temp_of p t \<Longrightarrow> D (append_bytes t written d)"
  by (auto simp: append_bytes_def survives_write_def split: option.splits node.splits)

lemma creat_excl_survives:
  assumes "survives_write D p data" and "temp_of p t"
  shows "triple (on_disk D) (sys prefix (creat_excl_call t mode))
    (\<lambda>_ w. D (disk w) \<and> (\<exists>m. node_at (disk w) t = Some (File [] m))) (on_disk D)"
proof (rule tripleI)
  fix w u w'
  assume pre: "D (disk w)" and "sys prefix (creat_excl_call t mode) w = (Inr u, w')"
  then have "node_at (disk w) t = None" and d: "disk w' = AList.update t (File [] mode) (disk w)"
    by (auto dest!: sys_Inr simp: creat_excl_call_def split: if_splits)
  then have "node_at (disk w') t = Some (File [] mode)"
    by (simp add: node_at_update_same node_at_None_root)
  then show "D (disk w') \<and> (\<exists>m. node_at (disk w') t = Some (File [] m))"
    using survives_writeD(2) [OF assms(1) pre assms(2)] d by auto
next
  fix w e w'
  assume "D (disk w)" and "sys prefix (creat_excl_call t mode) w = (Inl e, w')"
  moreover have "keeps (on_disk D) (sys prefix (creat_excl_call t mode))"
    using survives_writeD(2) [OF assms(1) _ assms(2)]
    by (intro keeps_sys) (auto simp: creat_excl_call_def split: if_splits)
  ultimately show "D (disk w')" by (auto dest: keepsD_eq)
qed

lemma temp_write_survives:
  assumes "survives_write D p data" and "temp_of p t"
  shows "triple (\<lambda>w. D (disk w) \<and> (\<exists>m. node_at (disk w) t = Some (File [] m)))
    (if data \<noteq> [] then writeAll t data else io_return ())
    (\<lambda>_ w. D (disk w) \<and> (\<exists>m. node_at (disk w) t = Some (File data m))) (on_disk D)"
proof (cases "data = []")
  case False
  show ?thesis
  proof (rule tripleI)
    fix w u w'
    assume pre: "D (disk w) \<and> (\<exists>m. node_at (disk w) t = Some (File [] m))"
      and "(if data \<noteq> [] then writeAll t data else io_return ()) w = (Inr u, w')"
    then have "disk w' = append_bytes t data (disk w)" using False by (auto dest: writeAll_ok)
    then show "D (disk w') \<and> (\<exists>m. node_at (disk w') t = Some (File data m))"
      using pre temp_append_bytes [OF assms(1) _ assms(2)] append_bytes_same [of "disk w" t "[]" _ data]
      by auto
  next
    fix w e w'
    assume "D (disk w) \<and> (\<exists>m. node_at (disk w) t = Some (File [] m))"
      and "(if data \<noteq> [] then writeAll t data else io_return ()) w = (Inl e, w')"
    moreover have "keeps (on_disk D) (writeAll t data)"
      using temp_append_bytes [OF assms(1) _ assms(2)] by (intro keeps_writeAll)
    ultimately show "D (disk w')" using False by (auto dest: keepsD_eq)
  qed
qed (auto intro!: tripleI)

lemma rename_survives:
  assumes "survives_write D p data" and "temp_of p t"
  shows "triple (\<lambda>w. D (disk w) \<and> (\<exists>m. node_at (disk w) t = Some (File data m)))
    (sys_try (rename_call t (walk p)))
    (\<lambda>r w. D (disk w) \<and> (r = None \<longrightarrow> (\<exists>m. node_at (disk w) (walk p) = Some (File data m)))) (on_disk D)"
proof (rule tripleI)
  fix w r w'
  assume pre: "D (disk w) \<and> (\<exists>m. node_at (disk w) t = Some (File data m))"
    and run: "sys_try (rename_call t (walk p)) w = (Inr r, w')"
  show "D (disk w') \<and> (r = None \<longrightarrow> (\<exists>m. node_at (disk w') (walk p) = Some (File data m)))"
  proof (cases r)
    case None
    with run have "rename_call t (walk p) (disk w) = Inr (disk w')" by (auto dest: sys_try_Inr_None)
    moreover obtain m where m: "node_at (disk w) t = Some (File data m)" using pre by blast
    ultimately have ren: "t = walk p \<and> disk w' = disk w \<or>
        t \<noteq> walk p \<and> node_at (disk w) (walk p) \<noteq> Some Directory
        \<and> disk w' = AList.delete t (AList.update (walk p) (File data m) (disk w))"
      by (auto simp: rename_call_def split: if_splits)
    then have "D (disk w')"
      using pre survives_writeD(3,4) [OF assms(1)] assms(2) by metis
    moreover have "\<exists>m. node_at (disk w') (walk p) = Some (File data m)"
    proof (cases "t = walk p")
      case False
      with ren have "walk p \<noteq> []" "walk p \<noteq> [[slash]]" by auto
      with ren False show ?thesis by (auto intro: node_at_update_same)
    qed (use ren m in auto)
    ultimately show ?thesis by blast
  qed (use run pre in \<open>auto dest: sys_try_Inr_Some\<close>)
next
  fix w e w'
  assume "D (disk w) \<and> (\<exists>m. node_at (disk w) t = Some (File data m))"
    and "sys_try (rename_call t (walk p)) w = (Inl e, w')"
  then show "D (disk w')" by (auto simp: sys_try_def split: list.splits event.splits sum.splits)
qed

lemma writeFileAtomic_survives:
  assumes "survives_write D p data"
  shows "triple (on_disk D) (writeFileAtomic p data mode)
    (\<lambda>_ w. D (disk w) \<and> (\<exists>m. node_at (disk w) (walk p) = Some (File data m))) (on_disk D)"
proof -
  let ?Q = "\<lambda>w. D (disk w) \<and> (\<exists>m. node_at (disk w) (walk p) = Some (File data m))"
  have keepQ: "triple ?Q (fsyncDirectory q) (\<lambda>_. ?Q) (on_disk D)" for q
    using keeps_fsyncDirectory [where D = "\<lambda>d. D d \<and> (\<exists>m. node_at d (walk p) = Some (File data m))"]
    by (auto simp: keeps_triple intro: triple_conseq)
  have dirs: "triple (on_disk D) (ensureDirectory (butlast p)) (\<lambda>_. on_disk D) (on_disk D)"
    using survives_writeD(1) [OF assms] by (intro keeps_ensureDirectory [unfolded keeps_triple]) auto
  have temp: "triple (on_disk D) (makeTempPath p)
      (\<lambda>t w. D (disk w) \<and> temp_of p (walk t)) (on_disk D)"
    by (auto intro!: tripleI dest: makeTempPath_temp)
  have sync: "triple (\<lambda>w. D (disk w) \<and> (\<exists>m. node_at (disk w) t = Some (File data m))) (fsyncFd name)
      (\<lambda>_ w. D (disk w) \<and> (\<exists>m. node_at (disk w) t = Some (File data m))) (on_disk D)" for t name
    by (auto intro!: tripleI dest: fsyncFd_disk)
  have cleanup: "triple (on_disk D) (io_bind (sys_try (unlink_call t)) (\<lambda>u. io_throw (e u))) (\<lambda>_. ?Q) (on_disk D)"
    if "temp_of p t" for t e
  proof (rule tripleI)
    fix w e' w'
    assume "D (disk w)" and "io_bind (sys_try (unlink_call t)) (\<lambda>u. io_throw (e u)) w = (Inl e', w')"
    moreover have "keeps (on_disk D) (sys_try (unlink_call t))"
      using survives_writeD(3) [OF assms] that
      by (intro keeps_sys_try) (auto simp: unlink_call_def split: option.splits node.splits)
    ultimately show "D (disk w')"
      by (auto simp: io_bind_def split: prod.splits sum.splits dest: keepsD_eq)
  qed (auto simp: res_simps)
  have rest: "triple (\<lambda>w. D (disk w) \<and> temp_of p (walk t))
     (io_bind (io_get umask) (\<lambda>um.
        io_seq (sys (pre t) (creat_excl_call (walk t) (mode AND NOT um))) (
        io_seq (if data \<noteq> [] then writeAll (walk t) data else io_return ()) (
        io_seq (fsyncFd (nm t)) (
        io_bind (sys_try (rename_call (walk t) (walk p))) (\<lambda>r. case r of
           Some m \<Rightarrow> io_bind (sys_try (unlink_call (walk t))) (\<lambda>u. io_throw (err t m u))
         | None \<Rightarrow> fsyncDirectory q)))))) (\<lambda>_. ?Q) (on_disk D)" for t pre nm err q
  proof (cases "temp_of p (walk t)")
    case True
    have tail: "triple (\<lambda>w. D (disk w) \<and> (r = None \<longrightarrow> (\<exists>m. node_at (disk w) (walk p) = Some (File data m))))
        (case r of Some m \<Rightarrow> io_bind (sys_try (unlink_call (walk t))) (\<lambda>u. io_throw (err t m u))
         | None \<Rightarrow> fsyncDirectory q) (\<lambda>_. ?Q) (on_disk D)" for r
      using cleanup [OF True] keepQ by (cases r) auto
    have get: "triple (\<lambda>w. D (disk w) \<and> temp_of p (walk t)) (io_get umask) (\<lambda>_. on_disk D) (on_disk D)"
      by (auto intro!: tripleI)
    show ?thesis
      by (rule triple_bind [OF get triple_seq [OF creat_excl_survives [OF assms True]
            triple_seq [OF temp_write_survives [OF assms True]
              triple_seq [OF sync triple_bind [OF rename_survives [OF assms True] tail]]]]])
  qed (auto intro!: tripleI)
  show ?thesis
    unfolding writeFileAtomic_def
    by (rule triple_seq [OF dirs triple_bind [OF temp rest]])
qed

lemma keeps_writeFileAtomic:
  "survives_write D p data \<Longrightarrow> keeps (on_disk D) (writeFileAtomic p data mode)"
  unfolding keeps_triple by (rule triple_conseq [OF writeFileAtomic_survives]) auto

lemma writeFileAtomic_ok:
  "survives_write D p data \<Longrightarrow> D (disk w) \<Longrightarrow> writeFileAtomic p data mode w = (Inr u, w') \<Longrightarrow>
     D (disk w') \<and> (\<exists>m. node_at (disk w') (walk p) = Some (File data m))"
  by (rule tripleD_Inr [OF writeFileAtomic_survives])

text \<open>A temporary path is none of the paths the code reads.\<close>

lemma temp_name_longer: "length filename < length (temp_name filename process tick)"
  by (simp add: temp_name_def)

lemma temp_name_plain: "slash \<notin> set filename \<Longrightarrow> plain_name (temp_name filename process tick)"
proof -
  assume "slash \<notin> set filename"
  moreover have "slash \<notin> set (dec n)" for n
    using dec_isdigit [of slash n] by (auto simp: isdigit_def char_code_def)
  moreover have "5 < length (temp_name filename process tick)"
    by (cases "dec process") (simp_all add: temp_name_def)
  ultimately show ?thesis
    by (auto simp: plain_name_def temp_name_def dot_def dotdot_def)
qed

lemma temp_of_plain:
  assumes "list_all plain_name cs" and "cs \<noteq> []" and "temp_of (p @ cs) t"
  shows "\<exists>process tick. t = walk p @ butlast cs @ [temp_name (last cs) process tick]"
proof -
  obtain process tick where t: "t = walk (butlast (p @ cs) @ [temp_name (last (p @ cs)) process tick])"
    using assms(3) by (auto simp: temp_of_def)
  have "plain_name (last cs)" "list_all plain_name (butlast cs)"
    using assms(1,2) by (auto simp: list_all_iff dest: in_set_butlastD)
  then have "list_all plain_name (butlast cs @ [temp_name (last cs) process tick])"
    by (simp add: temp_name_plain plain_name_def [of "last cs"])
  then show ?thesis
    using t assms(2) walk_plain [of "butlast cs @ [temp_name (last cs) process tick]" p]
    by (auto simp: butlast_append)
qed

lemma temp_of_not_final:
  assumes "list_all plain_name cs" and "cs \<noteq> []" and "temp_of (p @ cs) t"
  shows "t \<noteq> walk (p @ cs)"
proof
  obtain process tick where t: "t = walk p @ butlast cs @ [temp_name (last cs) process tick]"
    using temp_of_plain [OF assms] by blast
  assume "t = walk (p @ cs)"
  with t have "butlast cs @ [temp_name (last cs) process tick] = butlast cs @ [last cs]"
    using walk_plain [OF assms(1)] assms(2) by simp
  then have "temp_name (last cs) process tick = last cs" by simp
  then show False using temp_name_longer [of "last cs" process tick] by simp
qed

section \<open>Files that stay as they are\<close>

text \<open>
  \<open>kept K d0 d\<close>: the files that were at the places of \<open>K\<close> in \<open>d0\<close> are the same in \<open>d\<close>. Only a
  call that writes, renames or removes at one of those places could break it.
\<close>

definition kept :: "path set \<Rightarrow> fs \<Rightarrow> fs \<Rightarrow> bool" where
  "kept K d0 d \<longleftrightarrow> (\<forall>k \<in> K. \<forall>c m. node_at d0 k = Some (File c m) \<longrightarrow> node_at d k = Some (File c m))"

lemma kept_refl [simp]: "kept K d d"
  by (simp add: kept_def)

lemma kept_trans: "kept K d0 d1 \<Longrightarrow> kept K d1 d2 \<Longrightarrow> kept K d0 d2"
  by (simp add: kept_def)

lemma keptD: "kept K d0 d \<Longrightarrow> k \<in> K \<Longrightarrow> node_at d0 k = Some (File c m) \<Longrightarrow> node_at d k = Some (File c m)"
  by (simp add: kept_def)

lemma kept_mono: "kept K d0 d \<Longrightarrow> K' \<subseteq> K \<Longrightarrow> kept K' d0 d"
  by (auto simp: kept_def)

lemma kept_mkdir: "kept K d0 d \<Longrightarrow> node_at d k = None \<Longrightarrow> kept K d0 (AList.update k Directory d)"
  unfolding kept_def by (metis node_at_update_other option.distinct(1))

lemma kept_update: "kept K d0 d \<Longrightarrow> k \<notin> K \<Longrightarrow> kept K d0 (AList.update k v d)"
  unfolding kept_def by (metis node_at_update_other)

lemma kept_delete: "kept K d0 d \<Longrightarrow> k \<notin> K \<Longrightarrow> kept K d0 (AList.delete k d)"
  unfolding kept_def by (metis node_at_delete_other)

lemma kept_append: "kept K d0 d \<Longrightarrow> k \<notin> K \<Longrightarrow> kept K d0 (append_bytes k data d)"
  unfolding kept_def by (metis append_bytes_other)

lemma kept_new: "(\<And>c m. node_at d0 k \<noteq> Some (File c m)) \<Longrightarrow> kept K d0 d \<Longrightarrow> kept K d0 (AList.update k v d)"
  unfolding kept_def by (metis node_at_update_other)

lemma keeps_ensureDirectory_kept [keeps_intro]: "keeps (on_disk (kept K d0)) (ensureDirectory p)"
  by (rule keeps_ensureDirectory) (rule kept_mkdir)

text \<open>
  A whole atomic write keeps them when its final and temporary places are none of them, or when
  the final place held no file before.
\<close>

lemma survives_kept:
  assumes "walk p \<notin> K \<or> (\<forall>c m. node_at d0 (walk p) \<noteq> Some (File c m))"
    and "\<And>t. temp_of p t \<Longrightarrow> t \<notin> K"
  shows "survives_write (kept K d0) p data"
proof -
  have "kept K d0 (AList.update (walk p) (File data m) d)" if "kept K d0 d" for d m
    using assms(1) that by (auto intro: kept_update kept_new)
  then show ?thesis
    unfolding survives_write_def using assms(2) by (auto intro: kept_mkdir kept_update kept_delete)
qed

lemma keeps_writeFileAtomic_kept:
  assumes "walk p \<notin> K" and "\<And>t. temp_of p t \<Longrightarrow> t \<notin> K"
  shows "keeps (on_disk (kept K d0)) (writeFileAtomic p data mode)"
  using assms by (intro keeps_writeFileAtomic survives_kept) auto

text \<open>
  \<open>untouched K d0 d\<close>: at the places of \<open>K\<close> there are the same files as before, and no new ones.
\<close>

definition untouched :: "path set \<Rightarrow> fs \<Rightarrow> fs \<Rightarrow> bool" where
  "untouched K d0 d \<longleftrightarrow> (\<forall>k \<in> K. \<forall>c m. node_at d k = Some (File c m) \<longleftrightarrow> node_at d0 k = Some (File c m))"

lemma untouched_refl [simp]: "untouched K d d"
  by (simp add: untouched_def)

lemma untouched_mkdir:
  "untouched K d0 d \<Longrightarrow> node_at d k = None \<Longrightarrow> untouched K d0 (AList.update k Directory d)"
  unfolding untouched_def
  by (metis node.distinct(1) node_at_None_root node_at_update_other node_at_update_same option.distinct(1) option.inject)

lemma untouched_update: "untouched K d0 d \<Longrightarrow> k \<notin> K \<Longrightarrow> untouched K d0 (AList.update k v d)"
  unfolding untouched_def by (metis node_at_update_other)

lemma untouched_delete: "untouched K d0 d \<Longrightarrow> k \<notin> K \<Longrightarrow> untouched K d0 (AList.delete k d)"
  unfolding untouched_def by (metis node_at_delete_other)

lemma survives_untouched:
  assumes "walk p \<notin> K" and "\<And>t. temp_of p t \<Longrightarrow> t \<notin> K"
  shows "survives_write (untouched K d0) p data"
  unfolding survives_write_def using assms by (auto intro: untouched_mkdir untouched_update untouched_delete)

lemma keeps_ensureDirectory_untouched: "keeps (on_disk (untouched K d0)) (ensureDirectory p)"
  by (rule keeps_ensureDirectory) (rule untouched_mkdir)

end
