(* ===== verification/DPC_Chunk.thy ===== *)
theory DPC_Chunk
  imports DPC_Files
begin

text \<open>
  Cutting files into chunks and compressing them: src/core/FixedChunker.cpp,
  src/core/ContentDefinedChunker.cpp and src/core/Compressor.cpp. Sizes of containers
  (\<open>std::size_t\<close>) are \<open>nat\<close>: a vector never holds \<open>2 ^ 63\<close> bytes, so the sums the loops form do
  not wrap. The rolling hash is a 64-bit word and does wrap.
\<close>

section \<open>The data (include/dpc/common/Types.hpp)\<close>

datatype chunking_mode = Fixed | ContentDefined

definition mode_toString :: "chunking_mode \<Rightarrow> string" where
  "mode_toString mode = (if mode = Fixed then ''fixed'' else ''cdc'')"

definition chunkingModeFromString :: "string \<Rightarrow> chunking_mode" where
  "chunkingModeFromString value = (if value = ''cdc'' then ContentDefined else Fixed)"

lemma chunkingModeFromString_toString [simp]: "chunkingModeFromString (mode_toString m) = m"
  by (cases m) (simp_all add: chunkingModeFromString_def mode_toString_def)

record chunk =
  ch_index :: u64
  ch_data :: bytes

section \<open>What a chunker promises\<close>

text \<open>
  The engines rely on this and no more: the chunks in order are the data, they are numbered
  from 0, there is at least one, and only an empty file has an empty chunk.
\<close>

locale chunker =
  fixes chunkBytes :: "bytes \<Rightarrow> chunk list"
  assumes join: "concat (map ch_data (chunkBytes d)) = d"
    and numbered: "map ch_index (chunkBytes d) = map word_of_nat [0 ..< length (chunkBytes d)]"
    and some_chunk: "chunkBytes d \<noteq> []"
    and empty_chunk: "c \<in> set (chunkBytes d) \<Longrightarrow> ch_data c = [] \<Longrightarrow> d = []"
begin

lemma total_size: "sum_list (map (\<lambda>c. length (ch_data c)) (chunkBytes d)) = length d"
proof -
  have "sum_list (map (\<lambda>c. length (ch_data c)) (chunkBytes d))
      = length (concat (map ch_data (chunkBytes d)))"
    by (simp add: length_concat o_def)
  then show ?thesis by (simp add: join)
qed

lemma chunk_size_le: "c \<in> set (chunkBytes d) \<Longrightarrow> length (ch_data c) \<le> length d"
proof -
  assume "c \<in> set (chunkBytes d)"
  then have "length (ch_data c) \<in> set (map (\<lambda>c. length (ch_data c)) (chunkBytes d))" by auto
  then have "length (ch_data c) \<le> sum_list (map (\<lambda>c. length (ch_data c)) (chunkBytes d))"
    by (rule member_le_sum_list) simp_all
  then show ?thesis unfolding total_size .
qed

lemma chunk_count_le: "d \<noteq> [] \<Longrightarrow> length (chunkBytes d) \<le> length d"
proof -
  assume "d \<noteq> []"
  then have one: "1 \<le> length (ch_data c)" if "c \<in> set (chunkBytes d)" for c
    using empty_chunk [OF that] by (cases "ch_data c") auto
  have "length cs \<le> sum_list (map (\<lambda>c. length (ch_data c)) cs)"
    if "set cs \<subseteq> set (chunkBytes d)" for cs
    using that
  proof (induction cs)
    case (Cons c cs)
    then show ?case using one [of c] by simp
  qed simp
  from this [of "chunkBytes d"] show ?thesis using total_size [of d] by simp
qed

text \<open>Hashing chunk by chunk is hashing the file.\<close>

lemma hash_chunks:
  "sha_updates sha_init (map ch_data (chunkBytes d)) = sha_update sha_init d"
  by (simp add: sha_updates_concat sha_init_def join sha_update_def)

end

section \<open>Fixed-size chunks\<close>

definition kDefaultChunkSize :: nat where
  "kDefaultChunkSize = 64 * 1024"

definition fixedChunker :: "nat \<Rightarrow> nat res" where
  "fixedChunker chunk_size =
     rbind (require (chunk_size > 0) ''fixed chunk size must be greater than zero'') (\<lambda>_. Inr chunk_size)"

function fixed_loop :: "nat \<Rightarrow> bytes \<Rightarrow> nat \<Rightarrow> u64 \<Rightarrow> chunk list" where
  "fixed_loop chunk_size data offset index =
     (if 0 < chunk_size \<and> offset < length data then
        (let stop = min (offset + chunk_size) (length data) in
         \<lparr>ch_index = index, ch_data = take (stop - offset) (drop offset data)\<rparr>
           # fixed_loop chunk_size data (offset + chunk_size) (index + 1))
      else [])"
  by pat_completeness auto
termination
  by (relation "measure (\<lambda>(_, data, offset, _). length data - offset)") auto

declare fixed_loop.simps [simp del]

definition fixed_chunkBytes :: "nat \<Rightarrow> bytes \<Rightarrow> chunk list" where
  "fixed_chunkBytes chunk_size data =
     fixed_loop chunk_size data 0 0 @ (if data = [] then [\<lparr>ch_index = 0, ch_data = []\<rparr>] else [])"

lemma fixed_loop_Nil: "length data \<le> offset \<Longrightarrow> fixed_loop n data offset ix = []"
  by (subst fixed_loop.simps) simp

lemma fixed_loop_Cons:
  "0 < n \<Longrightarrow> offset < length data \<Longrightarrow> fixed_loop n data offset ix =
     \<lparr>ch_index = ix, ch_data = take n (drop offset data)\<rparr> # fixed_loop n data (offset + n) (ix + 1)"
proof -
  assume "0 < n" "offset < length data"
  moreover have "take (min (offset + n) (length data) - offset) (drop offset data) = take n (drop offset data)"
    by (simp add: min_def)
  ultimately show ?thesis by (subst fixed_loop.simps) simp
qed

lemma fixed_loop_concat: "0 < n \<Longrightarrow> concat (map ch_data (fixed_loop n data offset ix)) = drop offset data"
proof (induction n data offset ix rule: fixed_loop.induct)
  case (1 n data offset ix)
  show ?case
  proof (cases "offset < length data")
    case True
    then have "concat (map ch_data (fixed_loop n data (offset + n) (ix + 1))) = drop (offset + n) data"
      using "1.IH" "1.prems" by simp
    then show ?thesis
      using True "1.prems" append_take_drop_id [of n "drop offset data"]
      by (simp add: fixed_loop_Cons add.commute)
  qed (simp add: fixed_loop_Nil)
qed

lemma fixed_loop_index:
  "map ch_index (fixed_loop n data offset ix)
     = map (\<lambda>i. ix + word_of_nat i) [0 ..< length (fixed_loop n data offset ix)]"
proof (induction n data offset ix rule: fixed_loop.induct)
  case (1 n data offset ix)
  show ?case
  proof (cases "0 < n \<and> offset < length data")
    case True
    let ?l = "fixed_loop n data (offset + n) (ix + 1)"
    have "map ch_index ?l = map (\<lambda>i. ix + 1 + word_of_nat i) [0 ..< length ?l]"
      using "1.IH" True by simp
    moreover have "[0 ..< Suc (length ?l)] = 0 # map Suc [0 ..< length ?l]"
      by (simp add: upt_conv_Cons map_Suc_upt del: upt_Suc)
    ultimately show ?thesis using True
      by (simp add: fixed_loop_Cons o_def algebra_simps del: upt_Suc)
  next
    case False
    then show ?thesis by (subst (1 2) fixed_loop.simps) simp
  qed
qed

lemma fixed_loop_piece:
  "0 < n \<Longrightarrow> c \<in> set (fixed_loop n data offset ix) \<Longrightarrow> ch_data c \<noteq> [] \<and> length (ch_data c) \<le> n"
proof (induction n data offset ix rule: fixed_loop.induct)
  case (1 n data offset ix)
  show ?case
  proof (cases "offset < length data")
    case True
    then have "c = \<lparr>ch_index = ix, ch_data = take n (drop offset data)\<rparr>
        \<or> c \<in> set (fixed_loop n data (offset + n) (ix + 1))"
      using "1.prems" by (simp add: fixed_loop_Cons)
    then show ?thesis
    proof
      assume "c \<in> set (fixed_loop n data (offset + n) (ix + 1))"
      then show ?thesis using "1.prems"(1) True by (intro "1.IH" [OF _ refl]) simp_all
    qed (use True "1.prems"(1) in simp)
  next
    case False
    then show ?thesis using "1.prems"(2) by (simp add: fixed_loop_Nil)
  qed
qed

text \<open>Every chunk but the last has the configured size.\<close>

lemma fixed_loop_full:
  "0 < n \<Longrightarrow> i + 1 < length (fixed_loop n data offset ix) \<Longrightarrow>
     length (ch_data (fixed_loop n data offset ix ! i)) = n"
proof (induction n data offset ix arbitrary: i rule: fixed_loop.induct)
  case (1 n data offset ix)
  then have off: "offset < length data" by (cases "offset < length data") (auto simp: fixed_loop_Nil)
  show ?case
  proof (cases i)
    case 0
    then have "fixed_loop n data (offset + n) (ix + 1) \<noteq> []"
      using "1.prems" off by (auto simp: fixed_loop_Cons)
    then have "offset + n < length data"
      by (cases "offset + n < length data") (auto simp: fixed_loop_Nil)
    then show ?thesis using 0 "1.prems" off by (simp add: fixed_loop_Cons)
  next
    case (Suc j)
    then have "j + 1 < length (fixed_loop n data (offset + n) (ix + 1))"
      using "1.prems" off by (simp add: fixed_loop_Cons)
    then have "length (ch_data (fixed_loop n data (offset + n) (ix + 1) ! j)) = n"
      using "1.prems"(1) off by (intro "1.IH" [OF _ refl]) simp_all
    then show ?thesis using Suc "1.prems"(1) off by (simp add: fixed_loop_Cons)
  qed
qed

lemma fixed_chunker_contract: "0 < n \<Longrightarrow> chunker (fixed_chunkBytes n)"
proof
  fix d :: bytes and c
  assume n: "0 < n"
  show "concat (map ch_data (fixed_chunkBytes n d)) = d"
    using fixed_loop_concat [OF n, of d 0 0] by (simp add: fixed_chunkBytes_def)
  show "map ch_index (fixed_chunkBytes n d) = map word_of_nat [0 ..< length (fixed_chunkBytes n d)]"
    using fixed_loop_index [of n d 0 0] by (simp add: fixed_chunkBytes_def fixed_loop_Nil)
  show "fixed_chunkBytes n d \<noteq> []"
    using n by (cases "d = []") (auto simp: fixed_chunkBytes_def fixed_loop_Cons)
  show "c \<in> set (fixed_chunkBytes n d) \<Longrightarrow> ch_data c = [] \<Longrightarrow> d = []"
    using fixed_loop_piece [OF n] by (auto simp: fixed_chunkBytes_def split: if_splits)
qed

section \<open>Content-defined chunks\<close>

record cdc =
  min_size :: nat
  avg_size :: nat
  max_size :: nat
  cdc_mask :: u64

definition contentDefinedChunker :: "nat \<Rightarrow> nat \<Rightarrow> nat \<Rightarrow> cdc res" where
  "contentDefinedChunker mn avg mx =
     rbind (require (mn > 0) ''CDC min size must be greater than zero'') (\<lambda>_.
     rbind (require (mn \<le> avg) ''CDC min size must be <= avg size'') (\<lambda>_.
     rbind (require (avg \<le> mx) ''CDC avg size must be <= max size'') (\<lambda>_.
     rbind (require ((word_of_nat avg :: u64) AND (word_of_nat avg - 1) = 0)
              ''CDC avg size must be a power of two'') (\<lambda>_.
     Inr \<lparr>min_size = mn, avg_size = avg, max_size = mx, cdc_mask = word_of_nat avg - 1\<rparr>))))"

definition rolling_seed :: u64 where
  "rolling_seed = 0x9e3779b97f4a7c15"

definition roll :: "u64 \<Rightarrow> byte \<Rightarrow> u64" where
  "roll rolling b = (((push_bit 1 rolling) XOR (drop_bit 23 rolling)) XOR ucast b) XOR 0x517cc1b727220a95"

text \<open>
  The loop over the bytes; \<open>cur\<close> is the data from \<open>start\<close> up to the byte being read. What is left
  at the end of the data is the last chunk.
\<close>

fun cdc_loop :: "cdc \<Rightarrow> u64 \<Rightarrow> bytes \<Rightarrow> u64 \<Rightarrow> bytes \<Rightarrow> chunk list" where
  "cdc_loop P rolling cur index [] =
     (if cur \<noteq> [] then [\<lparr>ch_index = index, ch_data = cur\<rparr>] else [])"
| "cdc_loop P rolling cur index (b # bs) =
     (let rolling' = roll rolling b; len = length cur + 1;
          boundary = (len \<ge> min_size P \<and> rolling' AND cdc_mask P = 0) in
      if len \<ge> max_size P \<or> boundary
      then \<lparr>ch_index = index, ch_data = cur @ [b]\<rparr> # cdc_loop P rolling_seed [] (index + 1) bs
      else cdc_loop P rolling' (cur @ [b]) index bs)"

definition cdc_chunkBytes :: "cdc \<Rightarrow> bytes \<Rightarrow> chunk list" where
  "cdc_chunkBytes P data =
     (if data = [] then [\<lparr>ch_index = 0, ch_data = []\<rparr>] else cdc_loop P rolling_seed [] 0 data)"

lemma cdc_loop_concat: "concat (map ch_data (cdc_loop P r cur ix bs)) = cur @ bs"
  by (induction P r cur ix bs rule: cdc_loop.induct) (simp_all add: Let_def)

lemma cdc_loop_nonempty: "cur @ bs \<noteq> [] \<Longrightarrow> cdc_loop P r cur ix bs \<noteq> []"
  by (induction P r cur ix bs rule: cdc_loop.induct) (simp_all add: Let_def)

lemma cdc_loop_piece: "c \<in> set (cdc_loop P r cur ix bs) \<Longrightarrow> ch_data c \<noteq> []"
  by (induction P r cur ix bs rule: cdc_loop.induct) (auto simp: Let_def split: if_splits)

lemma cdc_loop_index:
  "map ch_index (cdc_loop P r cur ix bs)
     = map (\<lambda>i. ix + word_of_nat i) [0 ..< length (cdc_loop P r cur ix bs)]"
proof (induction P r cur ix bs rule: cdc_loop.induct)
  case (2 P r cur ix b bs)
  let ?l = "cdc_loop P rolling_seed [] (ix + 1) bs"
  have "[0 ..< Suc (length ?l)] = 0 # map Suc [0 ..< length ?l]"
    by (simp add: upt_conv_Cons map_Suc_upt del: upt_Suc)
  then show ?case using 2 by (simp add: Let_def o_def algebra_simps del: upt_Suc)
qed simp

lemma cdc_loop_max:
  "0 < max_size P \<Longrightarrow> length cur < max_size P \<Longrightarrow> c \<in> set (cdc_loop P r cur ix bs) \<Longrightarrow>
     length (ch_data c) \<le> max_size P"
  by (induction P r cur ix bs rule: cdc_loop.induct) (auto simp: Let_def split: if_splits)

lemma cdc_loop_min:
  "min_size P \<le> max_size P \<Longrightarrow> c \<in> set (butlast (cdc_loop P r cur ix bs)) \<Longrightarrow>
     min_size P \<le> length (ch_data c)"
  by (induction P r cur ix bs rule: cdc_loop.induct) (auto simp: Let_def split: if_splits)

text \<open>
  A cut forgets what was before it: the chunks after a cut are the chunks of the rest alone,
  and the chunks up to a cut are the chunks of the data up to it.
\<close>

definition cdc_cut :: "cdc \<Rightarrow> u64 \<Rightarrow> nat \<Rightarrow> bool" where
  "cdc_cut P rolling len \<longleftrightarrow>
     len \<ge> max_size P \<or> (len \<ge> min_size P \<and> rolling AND cdc_mask P = 0)"

lemma cdc_loop_step:
  "cdc_cut P (roll r b) (length cur + 1) \<Longrightarrow> cdc_loop P r cur ix (b # bs) =
     \<lparr>ch_index = ix, ch_data = cur @ [b]\<rparr> # cdc_loop P rolling_seed [] (ix + 1) bs"
  "\<not> cdc_cut P (roll r b) (length cur + 1) \<Longrightarrow>
     cdc_loop P r cur ix (b # bs) = cdc_loop P (roll r b) (cur @ [b]) ix bs"
  by (auto simp: cdc_cut_def Let_def)

text \<open>The index only numbers the chunks.\<close>

lemma cdc_loop_data_index: "map ch_data (cdc_loop P r cur ix bs) = map ch_data (cdc_loop P r cur jx bs)"
proof (induction bs arbitrary: r cur ix jx)
  case (Cons b bs)
  have "map ch_data (cdc_loop P rolling_seed [] (ix + 1) bs)
      = map ch_data (cdc_loop P rolling_seed [] (jx + 1) bs)" by (rule Cons.IH)
  moreover have "map ch_data (cdc_loop P (roll r b) (cur @ [b]) ix bs)
      = map ch_data (cdc_loop P (roll r b) (cur @ [b]) jx bs)" by (rule Cons.IH)
  ultimately show ?case
    by (cases "cdc_cut P (roll r b) (length cur + 1)") (simp_all add: cdc_loop_step del: cdc_loop.simps)
qed simp

lemma cdc_loop_suffix:
  "map ch_data (cdc_loop P r cur ix bs) = xs @ ys \<Longrightarrow> xs \<noteq> [] \<Longrightarrow>
     ys = map ch_data (cdc_loop P rolling_seed [] 0 (concat ys))"
proof (induction bs arbitrary: r cur ix xs)
  case Nil
  then show ?case by (auto simp: Cons_eq_append_conv split: if_splits)
next
  case (Cons b bs)
  show ?case
  proof (cases "cdc_cut P (roll r b) (length cur + 1)")
    case True
    then have "(cur @ [b]) # map ch_data (cdc_loop P rolling_seed [] (ix + 1) bs) = xs @ ys"
      using Cons.prems(1) by (simp only: cdc_loop_step list.map chunk.select_convs)
    then obtain xs' where xs': "xs = (cur @ [b]) # xs'"
        "map ch_data (cdc_loop P rolling_seed [] (ix + 1) bs) = xs' @ ys"
      using Cons.prems(2) by (auto simp: Cons_eq_append_conv)
    show ?thesis
    proof (cases "xs' = []")
      case True
      then have ys: "ys = map ch_data (cdc_loop P rolling_seed [] (ix + 1) bs)" using xs' by simp
      then have "concat ys = bs" using cdc_loop_concat [of P rolling_seed "[]" "ix + 1" bs] by simp
      then show ?thesis using ys cdc_loop_data_index by metis
    qed (use Cons.IH [OF xs'(2)] in simp)
  next
    case False
    then have "map ch_data (cdc_loop P (roll r b) (cur @ [b]) ix bs) = xs @ ys"
      using Cons.prems(1) by (simp add: cdc_loop_step(2) del: cdc_loop.simps)
    then show ?thesis using Cons.IH Cons.prems(2) by blast
  qed
qed

lemma cdc_loop_prefix:
  "map ch_data (cdc_loop P r cur ix bs) = xs @ ys \<Longrightarrow> xs \<noteq> [] \<Longrightarrow>
     \<exists>d. concat xs = cur @ d \<and> xs = map ch_data (cdc_loop P r cur ix d)"
proof (induction bs arbitrary: r cur ix xs)
  case Nil
  then have "cur \<noteq> [] \<and> xs = [cur]" by (auto simp: Cons_eq_append_conv split: if_splits)
  then show ?case by (intro exI [of _ "[]"]) simp
next
  case (Cons b bs)
  show ?case
  proof (cases "cdc_cut P (roll r b) (length cur + 1)")
    case True
    then have "(cur @ [b]) # map ch_data (cdc_loop P rolling_seed [] (ix + 1) bs) = xs @ ys"
      using Cons.prems(1) by (simp only: cdc_loop_step list.map chunk.select_convs)
    then obtain xs' where xs': "xs = (cur @ [b]) # xs'"
        "map ch_data (cdc_loop P rolling_seed [] (ix + 1) bs) = xs' @ ys"
      using Cons.prems(2) by (auto simp: Cons_eq_append_conv)
    have "\<exists>d. concat xs' = d \<and> xs' = map ch_data (cdc_loop P rolling_seed [] (ix + 1) d)"
      using Cons.IH [OF xs'(2)] by (cases "xs' = []") auto
    then obtain d where "concat xs' = d" "xs' = map ch_data (cdc_loop P rolling_seed [] (ix + 1) d)"
      by blast
    then show ?thesis
      using xs'(1) by (intro exI [of _ "b # d"]) (simp add: cdc_loop_step(1) [OF True] del: cdc_loop.simps)
  next
    case False
    then have "map ch_data (cdc_loop P (roll r b) (cur @ [b]) ix bs) = xs @ ys"
      using Cons.prems(1) by (simp add: cdc_loop_step(2) del: cdc_loop.simps)
    then obtain d where "concat xs = (cur @ [b]) @ d"
        "xs = map ch_data (cdc_loop P (roll r b) (cur @ [b]) ix d)"
      using Cons.IH Cons.prems(2) by blast
    then show ?thesis
      by (intro exI [of _ "b # d"]) (simp add: cdc_loop_step(2) [OF False] del: cdc_loop.simps)
  qed
qed

lemma cdc_chunker_contract: "chunker (cdc_chunkBytes P)"
proof
  fix d :: bytes and c
  show "concat (map ch_data (cdc_chunkBytes P d)) = d"
    by (simp add: cdc_chunkBytes_def cdc_loop_concat)
  show "map ch_index (cdc_chunkBytes P d) = map word_of_nat [0 ..< length (cdc_chunkBytes P d)]"
    by (simp add: cdc_chunkBytes_def cdc_loop_index)
  show "cdc_chunkBytes P d \<noteq> []" by (simp add: cdc_chunkBytes_def cdc_loop_nonempty)
  show "c \<in> set (cdc_chunkBytes P d) \<Longrightarrow> ch_data c = [] \<Longrightarrow> d = []"
    by (auto simp: cdc_chunkBytes_def split: if_splits dest: cdc_loop_piece)
qed

section \<open>The chunkers the programs use\<close>

text \<open>
  \<open>FixedChunker()\<close> and \<open>ContentDefinedChunker()\<close> with their default arguments; the second
  argument of \<open>contentDefinedChunker\<close> passes its checks, so the constructor returns.
\<close>

definition default_cdc :: cdc where
  "default_cdc = \<lparr>min_size = 16 * 1024, avg_size = 64 * 1024, max_size = 256 * 1024, cdc_mask = 64 * 1024 - 1\<rparr>"

lemma default_cdc: "contentDefinedChunker (16 * 1024) (64 * 1024) (256 * 1024) = Inr default_cdc"
  by (simp add: contentDefinedChunker_def default_cdc_def require_def)

lemma default_fixed: "fixedChunker kDefaultChunkSize = Inr kDefaultChunkSize"
  by (simp add: fixedChunker_def kDefaultChunkSize_def require_def)

definition chunkBytes_mode :: "chunking_mode \<Rightarrow> bytes \<Rightarrow> chunk list" where
  "chunkBytes_mode mode data =
     (if mode = ContentDefined then cdc_chunkBytes default_cdc data
      else fixed_chunkBytes kDefaultChunkSize data)"

definition chunkFile :: "fs \<Rightarrow> path \<Rightarrow> chunking_mode \<Rightarrow> chunk list res" where
  "chunkFile d p mode = rbind (readFile d p) (\<lambda>data. Inr (chunkBytes_mode mode data))"

interpretation fixed_chunks: chunker "fixed_chunkBytes kDefaultChunkSize"
  by (rule fixed_chunker_contract) (simp add: kDefaultChunkSize_def)

interpretation cdc_chunks: chunker "cdc_chunkBytes P" for P
  by (rule cdc_chunker_contract)

interpretation mode_chunks: chunker "chunkBytes_mode m" for m
proof (cases m)
  case Fixed
  then have "chunkBytes_mode m = fixed_chunkBytes kDefaultChunkSize" by (auto simp: chunkBytes_mode_def)
  then show "chunker (chunkBytes_mode m)" using fixed_chunks.chunker_axioms by simp
next
  case ContentDefined
  then have "chunkBytes_mode m = cdc_chunkBytes default_cdc" by (auto simp: chunkBytes_mode_def)
  then show "chunker (chunkBytes_mode m)" using cdc_chunks.chunker_axioms by simp
qed

section \<open>Compression (src/core/Compressor.cpp)\<close>

definition kZstdContentSizeUnknown :: u64 where
  "kZstdContentSizeUnknown = 0 - 1"

definition kZstdContentSizeError :: u64 where
  "kZstdContentSizeError = 0 - 2"

text \<open>\<open>ByteVector output(n)\<close> throws \<open>std::length_error\<close> beyond the greatest size of a vector.\<close>

definition vector_max_size :: nat where
  "vector_max_size = 2 ^ 63 - 1"

definition checkZstd :: "string + bytes \<Rightarrow> string \<Rightarrow> bytes res" where
  "checkZstd code operation = (case code of
      Inl name \<Rightarrow> Inl (DpcError (operation @ '' failed: '' @ name))
    | Inr out \<Rightarrow> Inr out)"

definition compress :: "third_party \<Rightarrow> bytes \<Rightarrow> int \<Rightarrow> bytes res" where
  "compress T input level =
     checkZstd (zstd_compress T (zstd_bound T (length input)) input level) ''zstd compress''"

fun decompress_attempts :: "third_party \<Rightarrow> bytes \<Rightarrow> nat \<Rightarrow> nat \<Rightarrow> nat \<Rightarrow> bytes res" where
  "decompress_attempts T input expected output_size 0 =
     Inl (DpcError ''zstd decompress failed after growth attempts'')"
| "decompress_attempts T input expected output_size (Suc attempts) =
     (if output_size > vector_max_size
      then Inl (StdException ''cannot create std::vector larger than max_size()'')
      else case zstd_decompress T output_size input of
        Inr output \<Rightarrow>
          (if expected \<noteq> 0 \<and> length output \<noteq> expected
           then Inl (DpcError ''zstd decompressed size mismatch'') else Inr output)
      | Inl name \<Rightarrow>
          (if expected \<noteq> 0 then Inl (DpcError (''zstd decompress failed: '' @ name))
           else decompress_attempts T input expected (output_size * 2) attempts))"

definition decompress :: "third_party \<Rightarrow> bytes \<Rightarrow> nat \<Rightarrow> bytes res" where
  "decompress T input expected_raw_size =
     (if expected_raw_size = 0 then
        (let frame_size = zstd_frame_size T input in
         if frame_size = kZstdContentSizeError then Inl (DpcError ''zstd frame content size error'')
         else if frame_size = kZstdContentSizeUnknown
           then decompress_attempts T input expected_raw_size (max (length input * 4) (64 * 1024)) 8
         else decompress_attempts T input expected_raw_size (unat frame_size) 8)
      else decompress_attempts T input expected_raw_size expected_raw_size 8)"

text \<open>
  What zstd documents and the code relies on, for data that fits in memory: compressing into
  a buffer of the bound succeeds, the frame records the size of the data, and decompressing
  into a buffer at least that large gives the data back.
\<close>

definition zstd_ok :: "third_party \<Rightarrow> bool" where
  "zstd_ok T \<longleftrightarrow> (\<forall>d level. length d < 2 ^ 62 \<longrightarrow>
     (\<exists>c. zstd_compress T (zstd_bound T (length d)) d level = Inr c
        \<and> zstd_frame_size T c = word_of_nat (length d)
        \<and> (\<forall>cap. length d \<le> cap \<longrightarrow> zstd_decompress T cap c = Inr d)))"

lemma compress_ok:
  assumes "zstd_ok T" and "length d < 2 ^ 62"
  shows "\<exists>c. compress T d level = Inr c \<and> zstd_frame_size T c = word_of_nat (length d)
    \<and> (\<forall>cap. length d \<le> cap \<longrightarrow> zstd_decompress T cap c = Inr d)"
proof -
  obtain c where "zstd_compress T (zstd_bound T (length d)) d level = Inr c"
      "zstd_frame_size T c = word_of_nat (length d)"
      "\<forall>cap. length d \<le> cap \<longrightarrow> zstd_decompress T cap c = Inr d"
    using assms unfolding zstd_ok_def by blast
  then show ?thesis by (intro exI [of _ c]) (simp add: compress_def checkZstd_def)
qed

lemma decompress_expected:
  "decompress T c n = Inr d \<Longrightarrow> n \<noteq> 0 \<Longrightarrow> length d = n"
proof -
  have "decompress_attempts T c n size k = Inr d \<Longrightarrow> n \<noteq> 0 \<Longrightarrow> length d = n" for size k
    by (induction T c n size k rule: decompress_attempts.induct) (auto split: if_splits sum.splits)
  then show "decompress T c n = Inr d \<Longrightarrow> n \<noteq> 0 \<Longrightarrow> length d = n"
    by (auto simp: decompress_def)
qed

text \<open>What was compressed is decompressed, with or without the size being told.\<close>

lemma decompress_compress:
  assumes T: "zstd_ok T" and size: "length d < 2 ^ 62" and c: "compress T d level = Inr c"
  shows "decompress T c 0 = Inr d" and "decompress T c (length d) = Inr d"
proof -
  have len: "unat (word_of_nat (length d) :: u64) = length d"
    using size by (simp add: unat_of_nat)
  have "unat (word_of_nat (length d) :: u64) \<noteq> unat kZstdContentSizeError"
    "unat (word_of_nat (length d) :: u64) \<noteq> unat kZstdContentSizeUnknown"
    using size unfolding len
    by (auto simp: kZstdContentSizeError_def kZstdContentSizeUnknown_def unsigned_minus_1_eq_mask
        mask_eq_exp_minus_1)
  then have ne: "(word_of_nat (length d) :: u64) \<noteq> kZstdContentSizeError"
    "(word_of_nat (length d) :: u64) \<noteq> kZstdContentSizeUnknown" by auto
  obtain c' where c': "compress T d level = Inr c'" "zstd_frame_size T c' = word_of_nat (length d)"
      "\<And>cap. length d \<le> cap \<Longrightarrow> zstd_decompress T cap c' = Inr d"
    using compress_ok [OF T size] by blast
  have "c' = c" using c c'(1) by simp
  have first: "zstd_decompress T (length d) c = Inr d" using c'(3) [of "length d"] \<open>c' = c\<close> by simp
  have fits: "\<not> length d > vector_max_size" using size by (simp add: vector_max_size_def)
  have loop: "decompress_attempts T c n (length d) 8 = Inr d" if "n = 0 \<or> n = length d" for n
    unfolding numeral_eq_Suc [of "num.Bit0 (num.Bit0 (num.Bit0 num.One))"] decompress_attempts.simps(2)
    using that first fits by auto
  have "decompress T c 0 = decompress_attempts T c 0 (unat (zstd_frame_size T c)) 8"
    using ne c'(2) \<open>c' = c\<close> unfolding decompress_def Let_def by simp
  then show 0: "decompress T c 0 = Inr d"
    using loop [of 0] c'(2) \<open>c' = c\<close> by (simp only: len simp_thms)
  show "decompress T c (length d) = Inr d"
  proof (cases "length d = 0")
    case False
    then show ?thesis using loop [of "length d"] unfolding decompress_def by simp
  qed (use 0 in simp)
qed

end
