(* ===== verification/DPC_Wire.thy ===== *)
theory DPC_Wire
  imports DPC_Chunk
begin

text \<open>
  Integers on the wire and the CRC: the \<open>put\<close> and \<open>get\<close> helpers of src/metadata/WalLog.cpp
  (little endian) and src/network/PacketCodec.cpp (big endian), and \<open>WalLog::crc32\<close>.
  The helpers are shown equal to one reference coding, byte by byte from the least
  significant, and through it to meet one contract, the locale \<open>int_codec\<close>, which the record
  and packet codecs use.
\<close>

section \<open>Reference coding\<close>

definition byte_at :: "nat \<Rightarrow> 'a::len word \<Rightarrow> byte" where
  "byte_at i v = ucast (drop_bit (8 * i) v)"

definition to_le :: "nat \<Rightarrow> 'a::len word \<Rightarrow> bytes" where
  "to_le k v = map (\<lambda>i. byte_at i v) [0 ..< k]"

fun from_le :: "bytes \<Rightarrow> 'a::len word" where
  "from_le [] = 0"
| "from_le (b # bs) = ucast b OR push_bit 8 (from_le bs)"

lemma bit_byte_at: "bit (byte_at i v) n \<longleftrightarrow> n < 8 \<and> bit v (8 * i + n)"
  by (auto simp: byte_at_def bit_ucast_iff bit_drop_bit_eq)

lemma bit_from_le:
  "bit (from_le bs :: 'a::len word) n \<longleftrightarrow>
     n < LENGTH('a) \<and> n div 8 < length bs \<and> bit (bs ! (n div 8)) (n mod 8)"
proof (induction bs arbitrary: n)
  case (Cons b bs)
  show ?case
  proof (cases "n < 8")
    case True
    then show ?thesis by (auto simp: bit_or_iff bit_ucast_iff bit_push_bit_iff)
  next
    case False
    then have n: "n = 8 + (n - 8)" by simp
    have "\<not> bit b n" using False by (auto dest: bit_imp_le_length)
    moreover have "n div 8 = Suc ((n - 8) div 8)" "n mod 8 = (n - 8) mod 8"
      by (subst n, simp)+
    ultimately show ?thesis using False Cons.IH [of "n - 8"]
      by (auto simp: bit_or_iff bit_ucast_iff bit_push_bit_iff)
  qed
qed simp

lemma length_to_le [simp]: "length (to_le k v) = k"
  by (simp add: to_le_def)

lemma from_le_to_le:
  fixes v :: "'a::len word"
  assumes "8 * k = LENGTH('a)"
  shows "from_le (to_le k v) = v"
proof (rule bit_word_eqI)
  fix n
  assume n: "n < LENGTH('a)"
  then have "n div 8 < k" using assms by auto
  then show "bit (from_le (to_le k v) :: 'a word) n = bit v n"
    using n by (simp add: bit_from_le to_le_def bit_byte_at mult.commute)
qed

lemma to_le_from_le:
  assumes "length bs = k" and "8 * k \<le> LENGTH('a)"
  shows "to_le k (from_le bs :: 'a::len word) = bs"
proof (rule nth_equalityI)
  fix i
  assume "i < length (to_le k (from_le bs :: 'a word))"
  then have i: "i < k" by simp
  have "byte_at i (from_le bs :: 'a word) = bs ! i"
  proof (rule bit_word_eqI)
    fix n
    assume "n < LENGTH(8)"
    then have "n < 8" by simp
    moreover have "(8 * i + n) div 8 = i" "(8 * i + n) mod 8 = n" using \<open>n < 8\<close> by simp_all
    moreover have "8 * i + n < LENGTH('a)" using i assms(2) \<open>n < 8\<close> by linarith
    ultimately show "bit (byte_at i (from_le bs :: 'a word)) n = bit (bs ! i) n"
      using i assms(1) by (simp add: bit_byte_at bit_from_le)
  qed
  then show "to_le k (from_le bs :: 'a word) ! i = bs ! i" using i by (simp add: to_le_def)
qed (use assms in simp)

section \<open>The contract of a pair of helpers\<close>

text \<open>
  \<open>put\<close> appends the coding of a number; \<open>get\<close> reads one at an offset that leaves room for it.
  Reading what was put gives the number, putting what was read gives the bytes.
\<close>

locale int_codec =
  fixes put :: "bytes \<Rightarrow> 'a::len word \<Rightarrow> bytes" and get :: "bytes \<Rightarrow> nat \<Rightarrow> 'a word" and width :: nat
  assumes put_appends: "put out v = out @ put [] v"
    and put_width: "length (put [] v) = width"
    and get_window: "off + width \<le> length data \<Longrightarrow> get data off = get (take width (drop off data)) 0"
    and get_put_Nil: "get (put [] v) 0 = v"
    and put_get_all: "length data = width \<Longrightarrow> put [] (get data 0) = data"
begin

lemma length_put: "length (put out v) = length out + width"
  by (subst put_appends) (simp add: put_width)

lemma get_at:
  assumes "length pre = off"
  shows "get (pre @ put [] v @ post) off = v"
proof -
  have "get (pre @ put [] v @ post) off = get (take width (drop off (pre @ put [] v @ post))) 0"
    by (rule get_window) (simp add: assms put_width)
  also have "take width (drop off (pre @ put [] v @ post)) = put [] v"
    using assms by (simp add: put_width)
  finally show ?thesis by (simp add: get_put_Nil)
qed

lemma get_take:
  assumes "off + width \<le> n" and "n \<le> length data"
  shows "get (take n data) off = get data off"
proof -
  have "take width (drop off (take n data)) = take width (drop off data)"
    using assms by (simp add: drop_take min_def)
  then show ?thesis
    using assms get_window [of off "take n data"] get_window [of off data] by simp
qed

lemma get_drop:
  assumes "n + off + width \<le> length data"
  shows "get (drop n data) off = get data (n + off)"
proof -
  have "take width (drop off (drop n data)) = take width (drop (n + off) data)"
    by (simp add: add.commute)
  then show ?thesis
    using assms get_window [of off "drop n data"] get_window [of "n + off" data] by simp
qed

lemma put_get:
  assumes "off + width \<le> length data"
  shows "put [] (get data off) = take width (drop off data)"
  using assms get_window [of off data] put_get_all [of "take width (drop off data)"] by simp

lemma put_inj: "put [] v = put [] w \<longleftrightarrow> v = w"
  by (metis get_put_Nil)

end

section \<open>Little endian (src/metadata/WalLog.cpp)\<close>

definition le_put16 :: "bytes \<Rightarrow> u16 \<Rightarrow> bytes" where
  "le_put16 out value = (out @ [ucast (value AND 0xff)]) @ [ucast (drop_bit 8 value AND 0xff)]"

definition le_put32 :: "bytes \<Rightarrow> u32 \<Rightarrow> bytes" where
  "le_put32 out value = foldl (\<lambda>o' i. o' @ [ucast (drop_bit (i * 8) value AND 0xff)]) out [0 ..< 4]"

definition le_get16 :: "bytes \<Rightarrow> nat \<Rightarrow> u16" where
  "le_get16 data off = ucast (data ! off) OR push_bit 8 (ucast (data ! (off + 1)))"

definition le_get32 :: "bytes \<Rightarrow> nat \<Rightarrow> u32" where
  "le_get32 data off =
     ucast (data ! off) OR push_bit 8 (ucast (data ! (off + 1)))
       OR push_bit 16 (ucast (data ! (off + 2))) OR push_bit 24 (ucast (data ! (off + 3)))"

section \<open>Big endian (src/network/PacketCodec.cpp)\<close>

definition be_put16 :: "bytes \<Rightarrow> u16 \<Rightarrow> bytes" where
  "be_put16 out value = (out @ [ucast (drop_bit 8 value AND 0xff)]) @ [ucast (value AND 0xff)]"

definition be_put32 :: "bytes \<Rightarrow> u32 \<Rightarrow> bytes" where
  "be_put32 out value =
     foldl (\<lambda>o' shift. o' @ [ucast (drop_bit shift value AND 0xff)]) out [24, 16, 8, 0]"

definition be_put64 :: "bytes \<Rightarrow> u64 \<Rightarrow> bytes" where
  "be_put64 out value =
     foldl (\<lambda>o' shift. o' @ [ucast (drop_bit shift value AND 0xff)]) out [56, 48, 40, 32, 24, 16, 8, 0]"

definition be_get16 :: "bytes \<Rightarrow> nat \<Rightarrow> u16" where
  "be_get16 data off = push_bit 8 (ucast (data ! off)) OR ucast (data ! (off + 1))"

definition be_get32 :: "bytes \<Rightarrow> nat \<Rightarrow> u32" where
  "be_get32 data off =
     push_bit 24 (ucast (data ! off)) OR push_bit 16 (ucast (data ! (off + 1)))
       OR push_bit 8 (ucast (data ! (off + 2))) OR ucast (data ! (off + 3))"

definition be_get64 :: "bytes \<Rightarrow> nat \<Rightarrow> u64" where
  "be_get64 data off = foldl (\<lambda>v i. push_bit 8 v OR ucast (data ! (off + i))) 0 [0 ..< 8]"

section \<open>The helpers are the reference coding\<close>

lemma ucast_low_byte: "(ucast (v AND 0xff) :: byte) = ucast (v :: 'a::len word)"
proof -
  have eq: "(0xff :: 'a word) = mask 8" by (simp add: mask_eq_exp_minus_1)
  show ?thesis
    unfolding eq
    by (rule bit_word_eqI) (auto simp: bit_ucast_iff bit_and_iff bit_mask_iff dest: bit_imp_le_length)
qed

lemma put_reference:
  "le_put16 out v16 = out @ to_le 2 v16" "le_put32 out v32 = out @ to_le 4 v32"
  "be_put16 out v16 = out @ rev (to_le 2 v16)" "be_put32 out v32 = out @ rev (to_le 4 v32)"
  "be_put64 out v64 = out @ rev (to_le 8 v64)"
  by (simp_all add: le_put16_def le_put32_def be_put16_def be_put32_def be_put64_def to_le_def
      byte_at_def ucast_low_byte upt_rec)

lemma get_reference:
  "le_get16 data off = from_le [data ! off, data ! (off + 1)]"
  "le_get32 data off = from_le [data ! off, data ! (off + 1), data ! (off + 2), data ! (off + 3)]"
  "be_get16 data off = from_le (rev [data ! off, data ! (off + 1)])"
  "be_get32 data off = from_le (rev [data ! off, data ! (off + 1), data ! (off + 2), data ! (off + 3)])"
  "be_get64 data off = from_le (rev (map (\<lambda>i. data ! (off + i)) [0 ..< 8]))"
  by (simp_all add: le_get16_def le_get32_def be_get16_def be_get32_def be_get64_def upt_rec
      push_bit_or push_bit_push_bit ac_simps)

lemma upts: "[0 ..< 2] = [0, 1 :: nat]" "[0 ..< 4] = [0, 1, 2, 3 :: nat]"
  by (simp_all add: upt_rec)

lemma window_bytes:
  "off + k \<le> length data \<Longrightarrow> take k (drop off data) = map (\<lambda>i. data ! (off + i)) [0 ..< k]"
  by (rule nth_equalityI) simp_all

lemma le_codec:
  fixes put :: "bytes \<Rightarrow> 'a::len word \<Rightarrow> bytes"
  assumes "8 * k = LENGTH('a)" and put: "\<And>out v. put out v = out @ to_le k v"
    and get: "\<And>data off. get data off = from_le (map (\<lambda>i. data ! (off + i)) [0 ..< k])"
  shows "int_codec put get k"
proof
  fix data :: bytes and off and v :: "'a word" and out
  show "put out v = out @ put [] v" by (simp add: put)
  show "length (put [] v) = k" by (simp add: put)
  have get': "get d 0 = from_le d" if "length d = k" for d
    using window_bytes [of 0 k d] that by (simp add: get)
  show "get (put [] v) 0 = v" using get' [of "to_le k v"] assms(1) by (simp add: put from_le_to_le)
  show "length data = k \<Longrightarrow> put [] (get data 0) = data"
    using assms(1) by (simp add: put get' to_le_from_le)
  assume "off + k \<le> length data"
  then show "get data off = get (take k (drop off data)) 0"
    using get' [of "take k (drop off data)"] by (simp add: get window_bytes)
qed

lemma be_codec:
  fixes put :: "bytes \<Rightarrow> 'a::len word \<Rightarrow> bytes"
  assumes "8 * k = LENGTH('a)" and put: "\<And>out v. put out v = out @ rev (to_le k v)"
    and get: "\<And>data off. get data off = from_le (rev (map (\<lambda>i. data ! (off + i)) [0 ..< k]))"
  shows "int_codec put get k"
proof
  fix data :: bytes and off and v :: "'a word" and out
  show "put out v = out @ put [] v" by (simp add: put)
  show "length (put [] v) = k" by (simp add: put)
  have get': "get d 0 = from_le (rev d)" if "length d = k" for d
    using window_bytes [of 0 k d] that by (simp add: get)
  show "get (put [] v) 0 = v" using get' [of "rev (to_le k v)"] assms(1) by (simp add: put from_le_to_le)
  show "length data = k \<Longrightarrow> put [] (get data 0) = data"
    using assms(1) by (simp add: put get' to_le_from_le)
  assume "off + k \<le> length data"
  then show "get data off = get (take k (drop off data)) 0"
    using get' [of "take k (drop off data)"] by (simp add: get window_bytes)
qed

interpretation le16: int_codec le_put16 le_get16 2
  by (rule le_codec) (simp_all add: put_reference get_reference upts)

interpretation le32: int_codec le_put32 le_get32 4
  by (rule le_codec) (simp_all add: put_reference get_reference upts)

interpretation be16: int_codec be_put16 be_get16 2
  by (rule be_codec) (simp_all add: put_reference get_reference upts)

interpretation be32: int_codec be_put32 be_get32 4
  by (rule be_codec) (simp_all add: put_reference get_reference upts)

interpretation be64: int_codec be_put64 be_get64 8
  by (rule be_codec) (simp_all add: put_reference get_reference)

section \<open>CRC-32 (WalLog::crc32)\<close>

definition crc_bit :: "u32 \<Rightarrow> u32" where
  "crc_bit crc = (let mask = - (crc AND 1) in drop_bit 1 crc XOR (0xedb88320 AND mask))"

definition crc_byte :: "u32 \<Rightarrow> byte \<Rightarrow> u32" where
  "crc_byte crc b = (crc_bit ^^ 8) (crc XOR ucast b)"

definition crc32 :: "bytes \<Rightarrow> u32" where
  "crc32 data = NOT (foldl crc_byte 0xffffffff data)"

text \<open>
  The step from one bit to the next loses nothing: the polynomial has its top bit set, so
  the bit shifted out is the top bit of the result. Two data that differ in one byte
  therefore have different checksums.
\<close>

lemma crc_bit_cases: "crc_bit crc = drop_bit 1 crc XOR (if bit crc 0 then 0xedb88320 else 0)"
proof -
  have "crc AND 1 = of_bool (bit crc 0)" by (simp add: and_one_eq bit_0 odd_iff_mod_2_eq_one)
  then show ?thesis by (auto simp: crc_bit_def)
qed

lemma crc_bit_top: "bit (crc_bit crc) 31 \<longleftrightarrow> bit crc 0"
proof -
  have "\<not> bit (drop_bit 1 crc) 31" by (auto simp: bit_drop_bit_eq dest: bit_imp_le_length)
  moreover have "bit (0xedb88320 :: u32) 31" by simp
  ultimately show ?thesis by (simp add: crc_bit_cases bit_xor_iff)
qed

lemma xor_cancel: "(a :: u32) XOR c = b XOR c \<longleftrightarrow> a = b"
proof
  assume "a XOR c = b XOR c"
  then have "(a XOR c) XOR c = (b XOR c) XOR c" by simp
  then show "a = b" by (simp add: xor.assoc)
qed simp

lemma crc_bit_inj: "crc_bit a = crc_bit b \<longleftrightarrow> a = b"
proof
  assume eq: "crc_bit a = crc_bit b"
  then have low: "bit a 0 \<longleftrightarrow> bit b 0" using crc_bit_top by metis
  have d: "drop_bit 1 a = drop_bit 1 b"
    using eq unfolding crc_bit_cases low xor_cancel .
  show "a = b"
  proof (rule bit_word_eqI)
    fix n
    show "bit a n = bit b n"
    proof (cases n)
      case (Suc m)
      have "bit a (Suc m) = bit (drop_bit 1 a) m" "bit b (Suc m) = bit (drop_bit 1 b) m"
        by (simp_all add: bit_drop_bit_eq)
      then show ?thesis using d Suc by simp
    qed (use low in simp)
  qed
qed simp

lemma crc_bits_inj: "(crc_bit ^^ n) a = (crc_bit ^^ n) b \<longleftrightarrow> a = b"
  by (induction n) (simp_all add: crc_bit_inj)

lemma crc_byte_inj_state: "crc_byte a x = crc_byte b x \<longleftrightarrow> a = b"
  by (simp add: crc_byte_def crc_bits_inj xor_cancel)

lemma ucast_byte_inj: "(ucast (x :: byte) :: u32) = ucast y \<longleftrightarrow> x = y"
proof
  assume eq: "(ucast x :: u32) = ucast y"
  have b: "bit (ucast z :: u32) n = bit z n" if "n < 8" for z :: byte and n
    using that by (simp add: bit_ucast_iff)
  show "x = y" by (rule bit_word_eqI) (use eq b in \<open>simp flip: b\<close>)
qed simp

lemma crc_byte_inj_byte: "crc_byte a x = crc_byte a y \<longleftrightarrow> x = y"
  by (simp add: crc_byte_def crc_bits_inj xor.commute [of a] xor_cancel ucast_byte_inj)

lemma crc_fold_inj: "foldl crc_byte a data = foldl crc_byte b data \<longleftrightarrow> a = b"
  by (induction data arbitrary: a b) (simp_all add: crc_byte_inj_state)

lemma crc32_one_byte: "crc32 (pre @ x # post) = crc32 (pre @ y # post) \<longleftrightarrow> x = y"
  by (simp add: crc32_def crc_fold_inj crc_byte_inj_byte)

lemma crc32_update:
  assumes "i < length data" and "b \<noteq> data ! i"
  shows "crc32 (data[i := b]) \<noteq> crc32 data"
proof -
  have "data = take i data @ data ! i # drop (Suc i) data"
    using assms(1) by (simp add: id_take_nth_drop)
  moreover have "data[i := b] = take i data @ b # drop (Suc i) data"
    using assms(1) by (simp add: upd_conv_take_nth_drop)
  ultimately show ?thesis using crc32_one_byte assms(2) by metis
qed

end
