(* ===== verification/DPC_Wal.thy ===== *)
theory DPC_Wal
  imports DPC_Wire
begin

text \<open>
  The write-ahead log: src/metadata/WalLog.cpp. A record is a 16-byte header (magic, version,
  type, payload size, payload CRC) and its payload; the log is the records one after the other.
  The lemmas say that a record is read as it was written, that the decoder accepts exactly the
  encodings, that \<open>readAll\<close> accepts exactly the concatenations of encodings, and that a torn or
  damaged record is refused.
\<close>

section \<open>Records\<close>

definition kWalMagic :: u32 where "kWalMagic = 0x44505741"

definition kWalVersion :: u16 where "kWalVersion = 1"

definition kWalHeaderSize :: nat where "kWalHeaderSize = 16"

definition kWalMaxPayloadSize :: nat where "kWalMaxPayloadSize = 8 * 1024 * 1024"

datatype wal_type =
    BeginBackup
  | PutObject
  | WriteManifest
  | RenameManifest
  | CommitBackup
  | CheckpointRecord
  | Compact

fun wal_type_code :: "wal_type \<Rightarrow> u16" where
  "wal_type_code BeginBackup = 1"
| "wal_type_code PutObject = 2"
| "wal_type_code WriteManifest = 3"
| "wal_type_code RenameManifest = 4"
| "wal_type_code CommitBackup = 5"
| "wal_type_code CheckpointRecord = 6"
| "wal_type_code Compact = 7"

text \<open>\<open>static_cast<WalRecordType>\<close> of a valid number.\<close>

definition wal_type_of :: "u16 \<Rightarrow> wal_type option" where
  "wal_type_of n =
     (if n = 1 then Some BeginBackup else if n = 2 then Some PutObject
      else if n = 3 then Some WriteManifest else if n = 4 then Some RenameManifest
      else if n = 5 then Some CommitBackup else if n = 6 then Some CheckpointRecord
      else if n = 7 then Some Compact else None)"

definition isValidRecordType :: "u16 \<Rightarrow> bool" where
  "isValidRecordType n \<longleftrightarrow> wal_type_of n \<noteq> None"

record wal_record =
  wr_type :: wal_type
  wr_payload :: bytes

definition encodeRecord :: "wal_type \<Rightarrow> bytes \<Rightarrow> bytes res" where
  "encodeRecord type payload =
     (if \<not> isValidRecordType (wal_type_code type) then Inl (DpcError ''invalid wal record type'')
      else if length payload > kWalMaxPayloadSize then Inl (DpcError ''wal payload too large'')
      else (let out = le_put32 [] kWalMagic;
                out = le_put16 out kWalVersion;
                out = le_put16 out (wal_type_code type);
                out = le_put32 out (word_of_nat (length payload));
                out = le_put32 out (crc32 payload)
            in Inr (out @ payload)))"

definition decodeRecord :: "bytes \<Rightarrow> wal_record res" where
  "decodeRecord encoded =
     (if length encoded < kWalHeaderSize then Inl (DpcError ''wal record too small'')
      else
       (let magic = le_get32 encoded 0; version = le_get16 encoded 4; type = le_get16 encoded 6;
            payload_size = le_get32 encoded 8; expected_crc = le_get32 encoded 12 in
        if magic \<noteq> kWalMagic then Inl (DpcError ''wal magic mismatch'')
        else if version \<noteq> kWalVersion then Inl (DpcError ''wal version mismatch'')
        else (case wal_type_of type of
            None \<Rightarrow> Inl (DpcError ''wal record type mismatch'')
          | Some t \<Rightarrow>
              if unat payload_size > kWalMaxPayloadSize then Inl (DpcError ''wal payload too large'')
              else if length encoded \<noteq> kWalHeaderSize + unat payload_size
                then Inl (DpcError ''wal record size mismatch'')
              else (let payload = drop kWalHeaderSize encoded in
                if crc32 payload \<noteq> expected_crc then Inl (DpcError ''wal crc mismatch'')
                else Inr \<lparr>wr_type = t, wr_payload = payload\<rparr>))))"

section \<open>The log\<close>

definition walPath :: "path \<Rightarrow> path" where
  "walPath repo = repo @ [''metadata'', ''wal.log'']"

function readAll_loop :: "bytes \<Rightarrow> nat \<Rightarrow> wal_record list \<Rightarrow> wal_record list res" where
  "readAll_loop data offset records =
     (if offset < length data then
        (if length data - offset < kWalHeaderSize
         then Inl (DpcError ''wal truncated in record header'')
         else (let payload_size = unat (le_get32 data (offset + 8)) in
           if payload_size > kWalMaxPayloadSize then Inl (DpcError ''wal payload too large'')
           else (let record_size = kWalHeaderSize + payload_size in
             if length data - offset < record_size
             then Inl (DpcError ''wal truncated in record payload'')
             else rbind (decodeRecord (take record_size (drop offset data)))
                    (\<lambda>r. readAll_loop data (offset + record_size) (records @ [r])))))
      else Inr records)"
  by pat_completeness auto
termination
  by (relation "measure (\<lambda>(data, offset, _). length data - offset)") (auto simp: kWalHeaderSize_def)

declare readAll_loop.simps [simp del]

definition readAll :: "fs \<Rightarrow> path \<Rightarrow> wal_record list res" where
  "readAll d repo =
     (if \<not> exists_path d (walPath repo) then Inr []
      else rbind (readFile d (walPath repo)) (\<lambda>data. readAll_loop data 0 []))"

definition wal_append :: "path \<Rightarrow> wal_type \<Rightarrow> bytes \<Rightarrow> unit act" where
  "wal_append repo type payload =
     io_seq (ensureDirectory (butlast (walPath repo))) (
     io_bind (io_lift (encodeRecord type payload)) (\<lambda>encoded.
     io_bind (io_get umask) (\<lambda>um.
     io_seq (sys ''open wal failed'' (open_append_call (walk (walPath repo)) (0x1a4 AND NOT um))) (
     io_seq (writeAll (walk (walPath repo)) encoded) (
     fsyncFd ''wal.log'')))))"

definition wal_append_text :: "path \<Rightarrow> wal_type \<Rightarrow> string \<Rightarrow> unit act" where
  "wal_append_text repo type payload = wal_append repo type (bytes_of_string payload)"

definition replaceWith :: "path \<Rightarrow> wal_record list \<Rightarrow> unit act" where
  "replaceWith repo records =
     io_bind (io_lift (rmap (\<lambda>r. encodeRecord (wr_type r) (wr_payload r)) records)) (\<lambda>encoded.
     writeFileAtomic (walPath repo) (concat encoded) 0x1a4)"

section \<open>Coding and decoding\<close>

lemma wal_type_of_code [simp]: "wal_type_of (wal_type_code t) = Some t"
  by (cases t) (simp_all add: wal_type_of_def)

lemma wal_type_of_Some: "wal_type_of n = Some t \<longleftrightarrow> n = wal_type_code t"
  by (cases t) (auto simp: wal_type_of_def split: if_splits)

lemma isValidRecordType_code [simp]: "isValidRecordType (wal_type_code t)"
  by (simp add: isValidRecordType_def)

definition wal_header :: "wal_type \<Rightarrow> bytes \<Rightarrow> bytes" where
  "wal_header t payload =
     le_put32 [] kWalMagic @ le_put16 [] kWalVersion @ le_put16 [] (wal_type_code t)
       @ le_put32 [] (word_of_nat (length payload)) @ le_put32 [] (crc32 payload)"

lemma length_wal_header [simp]: "length (wal_header t p) = kWalHeaderSize"
  by (simp add: wal_header_def le32.put_width le16.put_width kWalHeaderSize_def)

lemma encodeRecord_eq:
  "encodeRecord t p =
     (if length p > kWalMaxPayloadSize then Inl (DpcError ''wal payload too large'')
      else Inr (wal_header t p @ p))"
proof -
  have "le_put32 (le_put32 (le_put16 (le_put16 (le_put32 [] kWalMagic) kWalVersion) (wal_type_code t))
      (word_of_nat (length p))) (crc32 p) = wal_header t p"
    unfolding wal_header_def
    by (subst le32.put_appends, subst (2) le32.put_appends, subst le16.put_appends,
        subst (2) le16.put_appends) simp
  then show ?thesis by (simp add: encodeRecord_def Let_def)
qed

lemma encodeRecord_Inr [res_simps]:
  "encodeRecord t p = Inr e \<longleftrightarrow> length p \<le> kWalMaxPayloadSize \<and> e = wal_header t p @ p"
  by (auto simp: encodeRecord_eq)

lemma wal_header_fields:
  "le_get32 (wal_header t p @ q) 0 = kWalMagic"
  "le_get16 (wal_header t p @ q) 4 = kWalVersion"
  "le_get16 (wal_header t p @ q) 6 = wal_type_code t"
  "le_get32 (wal_header t p @ q) 8 = word_of_nat (length p)"
  "le_get32 (wal_header t p @ q) 12 = crc32 p"
proof -
  let ?m = "le_put32 [] kWalMagic" and ?v = "le_put16 [] kWalVersion"
  let ?t = "le_put16 [] (wal_type_code t)" and ?s = "le_put32 [] (word_of_nat (length p))"
  note len = le32.put_width le16.put_width
  show "le_get32 (wal_header t p @ q) 0 = kWalMagic"
    using le32.get_at [of "[]" 0] by (simp add: wal_header_def)
  show "le_get16 (wal_header t p @ q) 4 = kWalVersion"
    using le16.get_at [of ?m 4] by (simp add: wal_header_def len)
  show "le_get16 (wal_header t p @ q) 6 = wal_type_code t"
    using le16.get_at [of "?m @ ?v" 6] by (simp add: wal_header_def len)
  show "le_get32 (wal_header t p @ q) 8 = word_of_nat (length p)"
    using le32.get_at [of "?m @ ?v @ ?t" 8] by (simp add: wal_header_def len)
  show "le_get32 (wal_header t p @ q) 12 = crc32 p"
    using le32.get_at [of "?m @ ?v @ ?t @ ?s" 12] by (simp add: wal_header_def len)
qed

lemma payload_size_unat: "length p \<le> kWalMaxPayloadSize \<Longrightarrow> unat (word_of_nat (length p) :: u32) = length p"
  by (simp add: kWalMaxPayloadSize_def unat_of_nat)

lemma decodeRecord_encoding:
  "length p \<le> kWalMaxPayloadSize \<Longrightarrow> decodeRecord (wal_header t p @ p) = Inr \<lparr>wr_type = t, wr_payload = p\<rparr>"
  by (simp add: decodeRecord_def wal_header_fields payload_size_unat Let_def)

lemma decodeRecord_canonical:
  assumes "decodeRecord e = Inr r"
  shows "length (wr_payload r) \<le> kWalMaxPayloadSize \<and> e = wal_header (wr_type r) (wr_payload r) @ wr_payload r"
proof -
  have len: "16 \<le> length e" and magic: "le_get32 e 0 = kWalMagic" and version: "le_get16 e 4 = kWalVersion"
    and type: "le_get16 e 6 = wal_type_code (wr_type r)"
    and size: "length e = 16 + unat (le_get32 e 8)" "unat (le_get32 e 8) \<le> kWalMaxPayloadSize"
    and payload: "wr_payload r = drop 16 e" and crc: "crc32 (drop 16 e) = le_get32 e 12"
    using assms
    by (auto simp: decodeRecord_def Let_def wal_type_of_Some kWalHeaderSize_def
        split: if_splits option.splits)
  have "word_of_nat (length (wr_payload r)) = le_get32 e 8"
    using size(1) payload by simp
  then have "wal_header (wr_type r) (wr_payload r)
      = take 4 (drop 0 e) @ take 2 (drop 4 e) @ take 2 (drop 6 e) @ take 4 (drop 8 e) @ take 4 (drop 12 e)"
    unfolding wal_header_def payload crc
    using len le32.put_get [of 0 e] le16.put_get [of 4 e] le16.put_get [of 6 e] le32.put_get [of 8 e]
      le32.put_get [of 12 e] payload
    by (simp add: magic version type)
  also have "\<dots> = take 16 e"
    by (simp add: take_add [of 4 2 e, symmetric] take_add [of 6 2 e, symmetric]
        take_add [of 8 4 e, symmetric] take_add [of 12 4 e, symmetric] flip: append_assoc)
  finally show ?thesis using payload size len by simp
qed

section \<open>Reading the whole log\<close>

definition encoding :: "wal_record \<Rightarrow> bytes" where
  "encoding r = wal_header (wr_type r) (wr_payload r) @ wr_payload r"

definition small_record :: "wal_record \<Rightarrow> bool" where
  "small_record r \<longleftrightarrow> length (wr_payload r) \<le> kWalMaxPayloadSize"

lemma length_encoding: "length (encoding r) = kWalHeaderSize + length (wr_payload r)"
  by (simp add: encoding_def)

lemma encodeRecord_encoding: "small_record r \<Longrightarrow> encodeRecord (wr_type r) (wr_payload r) = Inr (encoding r)"
  by (simp add: small_record_def encoding_def res_simps)

lemma decodeRecord_iff: "decodeRecord e = Inr r \<longleftrightarrow> small_record r \<and> e = encoding r"
  using decodeRecord_canonical [of e r] decodeRecord_encoding [of "wr_payload r" "wr_type r"]
  by (auto simp: small_record_def encoding_def)

lemma readAll_loop_done: "length data \<le> offset \<Longrightarrow> readAll_loop data offset rs = Inr rs"
  by (subst readAll_loop.simps) simp

lemma readAll_loop_step:
  assumes "drop offset data = encoding r @ rest" and "small_record r"
  shows "readAll_loop data offset rs = readAll_loop data (offset + length (encoding r)) (rs @ [r])"
proof -
  have len: "length data - offset = length (encoding r) + length rest"
    using arg_cong [OF assms(1), of length] by simp
  have "offset + 8 + 4 \<le> length data" using len by (simp add: length_encoding kWalHeaderSize_def)
  then have "le_get32 data (offset + 8) = le_get32 (drop offset data) 8"
    by (simp add: le32.get_drop)
  then have size: "unat (le_get32 data (offset + 8)) = length (wr_payload r)"
    using assms by (simp add: encoding_def wal_header_fields payload_size_unat small_record_def)
  have "take (kWalHeaderSize + length (wr_payload r)) (drop offset data) = encoding r"
    using assms(1) by (simp add: length_encoding)
  moreover have "decodeRecord (encoding r) = Inr r" using assms(2) by (simp add: decodeRecord_iff)
  moreover have "offset < length data" using len by (simp add: length_encoding kWalHeaderSize_def)
  moreover have "\<not> length data - offset < kWalHeaderSize + length (wr_payload r)"
    using len by (simp add: length_encoding)
  ultimately show ?thesis
    using assms(2)
    by (simp add: readAll_loop.simps [of data offset rs] size Let_def length_encoding small_record_def)
qed

lemma readAll_loop_encodings:
  "drop offset data = concat (map encoding rs) @ rest \<Longrightarrow> list_all small_record rs \<Longrightarrow>
     readAll_loop data offset acc
       = readAll_loop data (offset + length (concat (map encoding rs))) (acc @ rs)"
proof (induction rs arbitrary: offset acc)
  case (Cons r rs)
  have "drop (length (encoding r)) (drop offset data) = concat (map encoding rs) @ rest"
    using Cons.prems(1) by simp
  then have "drop (offset + length (encoding r)) data = concat (map encoding rs) @ rest"
    by (simp add: add.commute)
  then show ?case
    using Cons readAll_loop_step [of offset data r "concat (map encoding rs) @ rest" acc]
    by (simp add: add.assoc)
qed simp

lemma readAll_loop_exact:
  "readAll_loop data offset acc = Inr out \<Longrightarrow>
     \<exists>rs. out = acc @ rs \<and> list_all small_record rs \<and> drop offset data = concat (map encoding rs)"
proof (induction data offset acc arbitrary: out rule: readAll_loop.induct)
  case (1 data offset acc)
  show ?case
  proof (cases "offset < length data")
    case False
    then show ?thesis using "1.prems" by (intro exI [of _ "[]"]) (simp add: readAll_loop_done)
  next
    case True
    let ?size = "kWalHeaderSize + unat (le_get32 data (offset + 8))"
    obtain r where conds: "\<not> length data - offset < kWalHeaderSize"
        "\<not> kWalMaxPayloadSize < unat (le_get32 data (offset + 8))" "\<not> length data - offset < ?size"
      and r: "decodeRecord (take ?size (drop offset data)) = Inr r"
      and rest: "readAll_loop data (offset + ?size) (acc @ [r]) = Inr out"
      using "1.prems" True by (subst (asm) readAll_loop.simps) (auto simp: Let_def res_simps split: if_splits)
    obtain rs where rs: "out = (acc @ [r]) @ rs" "list_all small_record rs"
        "drop (offset + ?size) data = concat (map encoding rs)"
      using "1.IH" [OF True conds(1) refl conds(2) refl conds(3) rest] by blast
    have "drop offset data = encoding r @ concat (map encoding rs)"
      using r rs(3) append_take_drop_id [of ?size "drop offset data"]
      by (simp add: decodeRecord_iff add.commute)
    then show ?thesis using rs r by (intro exI [of _ "r # rs"]) (auto simp: decodeRecord_iff)
  qed
qed

text \<open>The log is read exactly when it is a sequence of encodings.\<close>

lemma readAll_loop_iff:
  "readAll_loop data 0 [] = Inr rs \<longleftrightarrow> list_all small_record rs \<and> data = concat (map encoding rs)"
proof
  show "readAll_loop data 0 [] = Inr rs \<Longrightarrow> list_all small_record rs \<and> data = concat (map encoding rs)"
    using readAll_loop_exact [of data 0 "[]" rs] by simp
  assume rs: "list_all small_record rs \<and> data = concat (map encoding rs)"
  then have "readAll_loop data 0 [] = readAll_loop data (length data) rs"
    using readAll_loop_encodings [of 0 data rs "[]" "[]"] by simp
  then show "readAll_loop data 0 [] = Inr rs" by (simp add: readAll_loop_done)
qed

text \<open>A record cut short at the end of the log is an error, wherever it is cut.\<close>

lemma readAll_loop_short:
  assumes "small_record r" and "drop offset data = take k (encoding r)"
    and "0 < k" and "k < length (encoding r)"
  shows "readAll_loop data offset acc =
    Inl (DpcError (if k < kWalHeaderSize then ''wal truncated in record header''
                   else ''wal truncated in record payload''))"
proof -
  have len: "length data - offset = k"
    using arg_cong [OF assms(2), of length] assms(4) by simp
  then have off: "offset < length data" using assms(3) by simp
  show ?thesis
  proof (cases "k < kWalHeaderSize")
    case True
    then show ?thesis using len off by (simp add: readAll_loop.simps [of data offset acc])
  next
    case False
    have "le_get32 data (offset + 8) = le_get32 (drop offset data) 8"
      using len off False by (intro le32.get_drop [symmetric]) (simp add: kWalHeaderSize_def)
    also have "\<dots> = le_get32 (encoding r) 8"
      unfolding assms(2)
      using False assms(4) by (intro le32.get_take) (simp_all add: kWalHeaderSize_def)
    finally have "unat (le_get32 data (offset + 8)) = length (wr_payload r)"
      using assms(1) by (simp add: encoding_def wal_header_fields payload_size_unat small_record_def)
    then show ?thesis
      using len off assms(1,4) False
      by (simp add: readAll_loop.simps [of data offset acc] Let_def small_record_def length_encoding)
  qed
qed

lemma readAll_loop_torn:
  assumes "list_all small_record rs" and "small_record r"
    and "0 < k" and "k < length (encoding r)"
  shows "readAll_loop (concat (map encoding rs) @ take k (encoding r)) 0 [] =
    Inl (DpcError (if k < kWalHeaderSize then ''wal truncated in record header''
                   else ''wal truncated in record payload''))"
  using readAll_loop_encodings [of 0 _ rs "take k (encoding r)" "[]"] assms
  by (simp add: readAll_loop_short)

section \<open>Appending\<close>

text \<open>The bytes of the log on a disk; a log that is not there yet is empty.\<close>

definition log_bytes :: "fs \<Rightarrow> path \<Rightarrow> bytes" where
  "log_bytes d repo = (case node_at d (walk (walPath repo)) of Some (File c _) \<Rightarrow> c | _ \<Rightarrow> [])"

lemma walk_walPath: "walk (walPath repo) = walk repo @ [''metadata'', ''wal.log'']"
  by (simp add: walPath_def walk_plain plain_name_def dot_def dotdot_def)

lemma walk_metadata: "walk (butlast (walPath repo)) = walk repo @ [''metadata'']"
  by (simp add: walPath_def butlast_append walk_plain plain_name_def dot_def dotdot_def)

lemma log_bytes_mkdir:
  "log_bytes (AList.update (take i (walk (butlast (walPath repo)))) Directory d) repo = log_bytes d repo"
proof -
  have "walk (walPath repo) \<noteq> take i (walk (butlast (walPath repo)))"
    by (rule longer_not_take) (simp add: walk_walPath walk_metadata)
  then show ?thesis by (simp add: log_bytes_def)
qed

lemma readAll_log_bytes:
  "node_at d (walk (walPath repo)) \<noteq> Some Directory \<Longrightarrow> readAll d repo = readAll_loop (log_bytes d repo) 0 []"
  by (auto simp: readAll_def exists_path_def readFile_def log_bytes_def readAll_loop_done
      split: option.splits node.splits)

lemma open_append_log:
  assumes "open_append_call (walk (walPath repo)) mode d = Inr d'"
  shows "\<exists>m. node_at d' (walk (walPath repo)) = Some (File (log_bytes d repo) m)"
  using assms
  by (auto simp: open_append_call_def log_bytes_def walk_walPath
      split: option.splits node.splits if_splits)

text \<open>
  However an append ends, the log is what it was and a beginning of the new record; when it
  returns, the whole record is there.
\<close>

abbreviation log_is :: "path \<Rightarrow> bytes \<Rightarrow> fs \<Rightarrow> bool" where
  "log_is repo b d \<equiv> log_bytes d repo = b"

lemma keeps_log_mkdir: "keeps (on_disk (log_is repo b)) (ensureDirectory (butlast (walPath repo)))"
  by (rule keeps_ensureDirectory) (simp add: log_bytes_mkdir)

definition log_end :: "path \<Rightarrow> bytes \<Rightarrow> bytes \<Rightarrow> fs \<Rightarrow> bool" where
  "log_end repo old new d \<longleftrightarrow> (\<exists>k. log_bytes d repo = old @ take k new)"

lemma append_body:
  assumes "node_at d (walk (walPath repo)) = Some (File old m)" and "new = written @ rest"
  shows "log_end repo old new (append_bytes (walk (walPath repo)) written d)"
  using append_bytes_same [OF assms(1)] assms(2)
  by (auto simp: log_end_def log_bytes_def intro: exI [of _ "length written"])

definition appended :: "wal_type \<Rightarrow> bytes \<Rightarrow> bytes" where
  "appended t p = (case encodeRecord t p of Inr e \<Rightarrow> e | Inl _ \<Rightarrow> [])"

lemma log_end_stays: "log_is repo old d \<Longrightarrow> log_end repo old new d"
  by (auto simp: log_end_def intro: exI [of _ 0])

lemma open_log:
  "triple (on_disk (log_is repo old)) (sys m (open_append_call (walk (walPath repo)) mode))
     (\<lambda>_ w. \<exists>md. node_at (disk w) (walk (walPath repo)) = Some (File old md)) (on_disk (log_end repo old new))"
proof (intro tripleI)
  let ?k = "walk (walPath repo)"
  fix w u w'
  assume "log_is repo old (disk w)" and "sys m (open_append_call ?k mode) w = (Inr u, w')"
  then show "\<exists>md. node_at (disk w') ?k = Some (File old md)"
    by (auto dest!: sys_Inr open_append_log)
next
  let ?k = "walk (walPath repo)"
  fix w e w'
  assume "log_is repo old (disk w)" and run: "sys m (open_append_call ?k mode) w = (Inl e, w')"
  moreover have "keeps (on_disk (log_is repo old)) (sys m (open_append_call ?k mode))"
    by (intro keeps_sys) (auto dest!: open_append_log simp: log_bytes_def [of _ repo])
  ultimately have "log_is repo old (disk w')" by (auto dest: keepsD_eq)
  then show "log_end repo old new (disk w')" by (rule log_end_stays)
qed

lemma write_log:
  "triple (\<lambda>w. \<exists>m. node_at (disk w) (walk (walPath repo)) = Some (File old m)) (writeAll (walk (walPath repo)) new)
     (\<lambda>_ w. \<exists>m. node_at (disk w) (walk (walPath repo)) = Some (File (old @ new) m)) (on_disk (log_end repo old new))"
proof (intro tripleI)
  let ?k = "walk (walPath repo)"
  fix w u w'
  assume "\<exists>m. node_at (disk w) ?k = Some (File old m)" and "writeAll ?k new w = (Inr u, w')"
  then show "\<exists>m. node_at (disk w') ?k = Some (File (old @ new) m)"
    using writeAll_ok [of ?k new w u w'] append_bytes_same [of "disk w" ?k old _ new] by auto
next
  let ?k = "walk (walPath repo)"
  fix w e w'
  assume "\<exists>m. node_at (disk w) ?k = Some (File old m)" and "writeAll ?k new w = (Inl e, w')"
  then show "log_end repo old new (disk w')"
    using writeAll_prefix [of new ?k w] append_body [of "disk w" repo old] by auto
qed

lemma wal_append_log:
  "triple (on_disk (log_is repo old)) (wal_append repo t p)
     (\<lambda>_ w. encodeRecord t p = Inr (appended t p)
        \<and> (\<exists>m. node_at (disk w) (walk (walPath repo)) = Some (File (old @ appended t p) m)))
     (on_disk (log_end repo old (appended t p)))"
proof -
  let ?new = "appended t p" and ?k = "walk (walPath repo)"
  let ?E = "on_disk (log_end repo old ?new)"
  have dirs: "triple (on_disk (log_is repo old)) (ensureDirectory (butlast (walPath repo)))
      (\<lambda>_. on_disk (log_is repo old)) ?E"
    using keeps_log_mkdir unfolding keeps_triple by (rule triple_conseq) (erule log_end_stays | assumption)+
  have enc: "triple (on_disk (log_is repo old)) (io_lift (encodeRecord t p))
      (\<lambda>e w. log_is repo old (disk w) \<and> encodeRecord t p = Inr ?new \<and> e = ?new) ?E"
    by (intro tripleI) (auto simp: log_end_def appended_def)
  have get: "triple P (io_get umask) (\<lambda>_. P) ?E" for P
    by (intro tripleI) auto
  have full: "log_end repo old ?new d" if "\<exists>m. node_at d ?k = Some (File (old @ ?new) m)" for d
    using that by (auto simp: log_end_def log_bytes_def intro: exI [of _ "length ?new"])
  have sync: "triple (\<lambda>w. \<exists>m. node_at (disk w) ?k = Some (File (old @ ?new) m)) (fsyncFd ''wal.log'')
      (\<lambda>_ w. \<exists>m. node_at (disk w) ?k = Some (File (old @ ?new) m)) ?E"
    using full by (intro tripleI) (simp_all add: fsyncFd_disk)
  have rest: "triple (\<lambda>w. log_is repo old (disk w) \<and> encodeRecord t p = Inr ?new \<and> e = ?new)
     (io_bind (io_get umask) (\<lambda>um. io_seq (sys m (open_append_call ?k (0x1a4 AND NOT um)))
        (io_seq (writeAll ?k e) (fsyncFd ''wal.log''))))
     (\<lambda>_ w. encodeRecord t p = Inr ?new \<and> (\<exists>m. node_at (disk w) ?k = Some (File (old @ ?new) m))) ?E"
    for e m
  proof (cases "encodeRecord t p = Inr ?new \<and> e = ?new")
    case True
    then show ?thesis
      using triple_bind [OF get triple_seq [OF open_log triple_seq [OF write_log sync]]]
      by (auto intro: triple_conseq)
  qed (auto intro!: tripleI)
  show ?thesis
    unfolding wal_append_def by (rule triple_seq [OF dirs triple_bind [OF enc rest]])
qed

text \<open>The rest of the disk is left alone.\<close>

lemma keeps_wal_append:
  assumes "\<And>d i. D d \<Longrightarrow> node_at d (take i (walk repo @ [''metadata''])) = None \<Longrightarrow>
      D (AList.update (take i (walk repo @ [''metadata''])) Directory d)"
    and "\<And>d c m. D d \<Longrightarrow> D (AList.update (walk repo @ [''metadata'', ''wal.log'']) (File c m) d)"
  shows "keeps (on_disk D) (wal_append repo t p)"
proof -
  have "keeps (on_disk D) (sys m (open_append_call (walk (walPath repo)) mode))" for m mode
    using assms(2) by (intro keeps_sys)
      (auto simp: open_append_call_def walk_walPath split: option.splits node.splits if_splits)
  moreover have "keeps (on_disk D) (writeAll (walk (walPath repo)) e)" for e
    using assms(2) by (intro keeps_writeAll)
      (auto simp: append_bytes_def walk_walPath split: option.splits node.splits)
  moreover have "keeps (on_disk D) (ensureDirectory (butlast (walPath repo)))"
    using assms(1) by (intro keeps_ensureDirectory) (auto simp: walk_metadata)
  ultimately show ?thesis
    unfolding wal_append_def by (auto intro!: keeps_seq keeps_bind keeps_lift keeps_get keeps_fsyncFd)
qed

lemma keeps_wal_append_kept [keeps_intro]:
  "walk repo @ [''metadata'', ''wal.log''] \<notin> K \<Longrightarrow> keeps (on_disk (kept K d0)) (wal_append repo t p)"
  by (rule keeps_wal_append) (auto intro: kept_mkdir kept_update)

lemma keeps_wal_append_text_kept [keeps_intro]:
  "walk repo @ [''metadata'', ''wal.log''] \<notin> K \<Longrightarrow> keeps (on_disk (kept K d0)) (wal_append_text repo t p)"
  unfolding wal_append_text_def by (rule keeps_wal_append_kept)

section \<open>Properties\<close>

text \<open>C26: the log reads back exactly what was encoded. \<open>readAll\<close> accepts a log file exactly when its
  bytes are the encodings of some records one after the other, and those records are what it
  returns.\<close>

theorem readAll_exact:
  assumes "node_at d (walk (walPath repo)) = Some (File c m)"
  shows "readAll d repo = Inr rs \<longleftrightarrow>
    (\<exists>es. rmap (\<lambda>r. encodeRecord (wr_type r) (wr_payload r)) rs = Inr es \<and> c = concat es)"
proof -
  have enc: "rmap (\<lambda>r. encodeRecord (wr_type r) (wr_payload r)) rs = Inr es \<longleftrightarrow>
      list_all small_record rs \<and> es = map encoding rs" for es
    by (induction rs arbitrary: es)
      (auto simp: res_simps small_record_def encoding_def)
  show ?thesis
    using assms by (auto simp: readAll_log_bytes log_bytes_def readAll_loop_iff enc)
qed

definition wal_sample :: fs where
  "wal_sample =
     [([''r''], Directory), ([''r'', ''metadata''], Directory),
      ([''r'', ''metadata'', ''wal.log''], File (encoding \<lparr>wr_type = CommitBackup, wr_payload = [49]\<rparr>) 0x1a4)]"

lemma walk_wal_r: "walk (walPath [''r'']) = [''r'', ''metadata'', ''wal.log'']"
  by (subst walk_walPath) (simp add: walk_def walk_step_def dot_def dotdot_def)

theorem readAll_exact_witness: "readAll wal_sample [''r''] = Inr [\<lparr>wr_type = CommitBackup, wr_payload = [49]\<rparr>]"
proof -
  have "node_at wal_sample (walk (walPath [''r'']))
      = Some (File (encoding \<lparr>wr_type = CommitBackup, wr_payload = [49]\<rparr>) 0x1a4)"
    by (simp add: walk_wal_r wal_sample_def node_at_def)
  from readAll_exact [OF this] show ?thesis
    by (simp add: res_simps encoding_def kWalMaxPayloadSize_def)
qed

text \<open>C27: a torn append is noticed. When the last record of a log is cut short anywhere, \<open>readAll\<close>
  throws, and says whether the header or the payload is cut.\<close>

theorem readAll_torn:
  fixes rs :: "wal_record list"
  assumes "rmap (\<lambda>r. encodeRecord (wr_type r) (wr_payload r)) rs = Inr es"
    and "encodeRecord t p = Inr e" and "0 < k" and "k < length e"
    and "node_at d (walk (walPath repo)) = Some (File (concat es @ take k e) m)"
  shows "readAll d repo = Inl (DpcError (if k < kWalHeaderSize then ''wal truncated in record header''
           else ''wal truncated in record payload''))"
proof -
  have "list_all small_record rs \<and> es = map encoding rs"
    using assms(1) by (induction rs arbitrary: es) (auto simp: res_simps small_record_def encoding_def)
  then show ?thesis
    using assms readAll_loop_torn [of rs "\<lparr>wr_type = t, wr_payload = p\<rparr>" k]
    by (simp add: readAll_log_bytes log_bytes_def res_simps small_record_def encoding_def)
qed

theorem readAll_torn_witness:
  "readAll [([''r'', ''metadata'', ''wal.log''], File (take 7 (wal_header Compact [] @ [])) 0x1a4)] [''r'']
     = Inl (DpcError ''wal truncated in record header'')"
  using readAll_torn [of "[]" "[]" Compact "[]" "wal_header Compact []" 7 _ "[''r'']" "0x1a4"]
  by (simp add: walk_wal_r node_at_def res_simps kWalHeaderSize_def kWalMaxPayloadSize_def)

text \<open>C28: a damaged payload is noticed. A record in which any one byte of the payload has another
  value is refused with \<open>wal crc mismatch\<close>.\<close>

theorem decodeRecord_damaged:
  assumes "encodeRecord t p = Inr e" and "i < length p" and "b \<noteq> p ! i"
  shows "decodeRecord (e[kWalHeaderSize + i := b]) = Inl (DpcError ''wal crc mismatch'')"
proof -
  have e: "e[kWalHeaderSize + i := b] = wal_header t p @ p[i := b]" and len: "length p \<le> kWalMaxPayloadSize"
    using assms(1) by (simp_all add: res_simps list_update_append)
  show ?thesis
    using crc32_update [OF assms(2,3)] len
    by (simp add: e decodeRecord_def wal_header_fields payload_size_unat Let_def)
qed

theorem decodeRecord_damaged_witness:
  "decodeRecord ((wal_header Compact [1, 2] @ [1, 2])[kWalHeaderSize + 1 := 3]) = Inl (DpcError ''wal crc mismatch'')"
  by (rule decodeRecord_damaged [where p = "[1, 2]"]) (simp_all add: res_simps kWalMaxPayloadSize_def)

text \<open>An append writes at the end only. Whatever the environment does to its calls, the log
  after \<open>append\<close> is the log before it and, when it returned, the whole encoding of the record,
  otherwise some beginning of it (nothing, when the record could not be encoded).\<close>

lemma wal_append_at_end:
  "case wal_append repo t p w of
     (Inr _, w') \<Rightarrow> (\<exists>e. encodeRecord t p = Inr e \<and> log_bytes (disk w') repo = log_bytes (disk w) repo @ e)
   | (Inl _, w') \<Rightarrow> (\<exists>k. log_bytes (disk w') repo
        = log_bytes (disk w) repo @ take k (case encodeRecord t p of Inr e \<Rightarrow> e | Inl _ \<Rightarrow> []))"
proof (cases "wal_append repo t p w")
  case (Pair r w')
  note log = wal_append_log [of repo "log_bytes (disk w) repo" t p]
  show ?thesis
  proof (cases r)
    case (Inl x)
    then show ?thesis
      using tripleD_Inl [OF log _ Pair [unfolded Inl]] Pair by (simp add: log_end_def appended_def)
  next
    case (Inr u)
    then show ?thesis
      using tripleD_Inr [OF log _ Pair [unfolded Inr]] Pair by (auto simp: log_bytes_def)
  qed
qed

end
