(* ===== verification/DPC_Packet.thy ===== *)
theory DPC_Packet
  imports DPC_Wal
begin

text \<open>
  The packets of the network protocol: src/network/PacketCodec.cpp. A frame is a 64-byte header
  (magic, version, type, session hash, chunk index, payload size, header CRC, chunk SHA-256) and
  the payload. The lemmas say that the decoder accepts exactly the frames the encoder makes, that
  any one damaged header byte is noticed, and that a packet crosses a connection whole whatever
  the sizes of the partial reads and writes.
\<close>

section \<open>Frames\<close>

definition kMagic :: u32 where "kMagic = 0x44504350"

definition kVersion :: u16 where "kVersion = 1"

definition kHeaderSize :: nat where "kHeaderSize = 64"

definition kMaxPayloadSize :: nat where "kMaxPayloadSize = 8 * 1024 * 1024"

datatype packet_type =
    Hello
  | QuerySession
  | SessionStatus
  | PutChunk
  | PutChunkAck
  | CommitSession
  | CommitAck
  | ErrorPacket

fun packet_type_code :: "packet_type \<Rightarrow> u16" where
  "packet_type_code Hello = 1"
| "packet_type_code QuerySession = 2"
| "packet_type_code SessionStatus = 3"
| "packet_type_code PutChunk = 4"
| "packet_type_code PutChunkAck = 5"
| "packet_type_code CommitSession = 6"
| "packet_type_code CommitAck = 7"
| "packet_type_code ErrorPacket = 8"

definition packet_type_of :: "u16 \<Rightarrow> packet_type option" where
  "packet_type_of n =
     (if n = 1 then Some Hello else if n = 2 then Some QuerySession
      else if n = 3 then Some SessionStatus else if n = 4 then Some PutChunk
      else if n = 5 then Some PutChunkAck else if n = 6 then Some CommitSession
      else if n = 7 then Some CommitAck else if n = 8 then Some ErrorPacket else None)"

definition isValidPacketType :: "u16 \<Rightarrow> bool" where
  "isValidPacketType n \<longleftrightarrow> packet_type_of n \<noteq> None"

text \<open>\<open>pk_sha\<close> is the code's array of 32 bytes: \<open>wf_packet\<close> says it has that size.\<close>

record packet =
  pk_type :: packet_type
  pk_session :: u64
  pk_index :: u64
  pk_sha :: bytes
  pk_payload :: bytes

definition wf_packet :: "packet \<Rightarrow> bool" where
  "wf_packet p \<longleftrightarrow> length (pk_sha p) = 32"

definition zeroHeaderCrc :: "bytes \<Rightarrow> bytes" where
  "zeroHeaderCrc header = foldl (\<lambda>h i. h[i := 0]) header [28 ..< 32]"

definition encode :: "packet \<Rightarrow> bytes res" where
  "encode p =
     (if \<not> isValidPacketType (packet_type_code (pk_type p)) then Inl (DpcError ''packet type mismatch'')
      else if length (pk_payload p) > kMaxPayloadSize then Inl (DpcError ''packet payload too large'')
      else
       (let header = be_put32 [] kMagic;
            header = be_put16 header kVersion;
            header = be_put16 header (packet_type_code (pk_type p));
            header = be_put64 header (pk_session p);
            header = be_put64 header (pk_index p);
            header = be_put32 header (word_of_nat (length (pk_payload p)));
            header = be_put32 header 0;
            header = header @ pk_sha p;
            crc = crc32 header;
            header = header[28 := ucast (drop_bit 24 crc AND 0xff)];
            header = header[29 := ucast (drop_bit 16 crc AND 0xff)];
            header = header[30 := ucast (drop_bit 8 crc AND 0xff)];
            header = header[31 := ucast (crc AND 0xff)]
        in Inr (header @ pk_payload p)))"

definition decode :: "bytes \<Rightarrow> packet res" where
  "decode frame =
     (if length frame < kHeaderSize then Inl (DpcError ''packet frame too small'')
      else
       (let header = take kHeaderSize frame;
            magic = be_get32 header 0; version = be_get16 header 4; type = be_get16 header 6;
            session_hash = be_get64 header 8; chunk_index = be_get64 header 16;
            payload_size = be_get32 header 24; expected_crc = be_get32 header 28 in
        if magic \<noteq> kMagic then Inl (DpcError ''packet magic mismatch'')
        else if version \<noteq> kVersion then Inl (DpcError ''packet version mismatch'')
        else (case packet_type_of type of
            None \<Rightarrow> Inl (DpcError ''packet type mismatch'')
          | Some t \<Rightarrow>
              if unat payload_size > kMaxPayloadSize then Inl (DpcError ''packet payload too large'')
              else if length frame \<noteq> kHeaderSize + unat payload_size
                then Inl (DpcError ''packet frame size mismatch'')
              else if crc32 (zeroHeaderCrc header) \<noteq> expected_crc
                then Inl (DpcError ''packet header crc mismatch'')
              else Inr \<lparr>pk_type = t, pk_session = session_hash, pk_index = chunk_index,
                        pk_sha = take 32 (drop 32 frame), pk_payload = drop kHeaderSize frame\<rparr>)))"

definition sessionHash :: "string \<Rightarrow> u64" where
  "sessionHash session_id =
     foldl (\<lambda>hash c. (hash XOR ucast (byte_of_char c)) * 1099511628211) 1469598103934665603 session_id"

definition shaArrayFromHex :: "string \<Rightarrow> bytes res" where
  "shaArrayFromHex hex =
     rbind (hexToBytes hex) (\<lambda>bytes.
       if length bytes \<noteq> 32 then Inl (DpcError ''sha hex must be 32 bytes'') else Inr bytes)"

definition shaHexFromArray :: "bytes \<Rightarrow> string" where
  "shaHexFromArray bytes = bytesToHex bytes"

section \<open>Packets on a connection\<close>

text \<open>
  \<open>read_run es stream count\<close> is the loop of \<open>readExact\<close>: the bytes it stored, how it ended, the
  events and the bytes of the connection left. A read that finds nothing more is the peer's end
  of the connection.
\<close>

definition read_size :: "event \<Rightarrow> bytes \<Rightarrow> nat \<Rightarrow> nat" where
  "read_size e stream count =
     min (min count (length stream)) (case e of Short k \<Rightarrow> k | _ \<Rightarrow> count)"

fun read_run :: "event list \<Rightarrow> bytes \<Rightarrow> nat \<Rightarrow> bytes \<times> unit res \<times> event list \<times> bytes" where
  "read_run [] stream count =
     (if count = 0 then ([], Inr (), [], stream)
      else if length stream < count then (stream, Inl (DpcError ''socket closed''), [], [])
      else (take count stream, Inr (), [], drop count stream))"
| "read_run (e # es) stream count =
     (if count = 0 then ([], Inr (), e # es, stream)
      else case e of
        Eintr \<Rightarrow> read_run es stream count
      | Fail m \<Rightarrow> ([], Inl (DpcError (errnoMessage ''socket read failed'' m)), es, stream)
      | Kill \<Rightarrow> ([], Inl Killed, es, stream)
      | _ \<Rightarrow> (let n = read_size e stream count in
          if n = 0 then ([], Inl (DpcError ''socket closed''), es, stream)
          else (let (got, r, es', stream') = read_run es (drop n stream) (count - n)
                in (take n stream @ got, r, es', stream'))))"

definition readExact :: "nat \<Rightarrow> bytes act" where
  "readExact count w =
     (let (got, r, es, stream) = read_run (script w) (sock_in w) count in
      (rbind r (\<lambda>_. Inr got), w\<lparr>script := es, sock_in := stream\<rparr>))"

definition readPacket :: "packet act" where
  "readPacket =
     io_bind (readExact kHeaderSize) (\<lambda>header.
       let payload_size = be_get32 header 24 in
       if unat payload_size > kMaxPayloadSize then io_throw (DpcError ''packet payload too large'')
       else io_bind (if unat payload_size > 0 then readExact (unat payload_size) else io_return [])
         (\<lambda>payload. io_lift (decode (header @ payload))))"

definition sock_writeAll :: "bytes \<Rightarrow> unit act" where
  "sock_writeAll data w =
     (let (written, r, es) = write_run (script w) data in
      (r, w\<lparr>script := es, sock_out := sock_out w @ written\<rparr>))"

definition writePacket :: "packet \<Rightarrow> unit act" where
  "writePacket p = io_bind (io_lift (encode p)) sock_writeAll"

section \<open>The layout of a frame\<close>

lemma packet_type_of_code [simp]: "packet_type_of (packet_type_code t) = Some t"
  by (cases t) (simp_all add: packet_type_of_def)

lemma packet_type_of_Some: "packet_type_of n = Some t \<longleftrightarrow> n = packet_type_code t"
  by (cases t) (auto simp: packet_type_of_def split: if_splits)

definition head :: "packet \<Rightarrow> bytes" where
  "head p = be_put32 [] kMagic @ be_put16 [] kVersion @ be_put16 [] (packet_type_code (pk_type p))
     @ be_put64 [] (pk_session p) @ be_put64 [] (pk_index p)
     @ be_put32 [] (word_of_nat (length (pk_payload p)))"

definition head_crc :: "packet \<Rightarrow> u32" where
  "head_crc p = crc32 (head p @ [0, 0, 0, 0] @ pk_sha p)"

lemma length_head [simp]: "length (head p) = 28"
  by (simp add: head_def be32.put_width be16.put_width be64.put_width)

lemma put32_zero: "be_put32 [] 0 = [0, 0, 0, 0]"
  by (simp add: be_put32_def)

lemma set_crc_bytes:
  "length f = 28 \<Longrightarrow>
     (f @ [a, b, c, d] @ s)[28 := w, 29 := x, 30 := y, 31 := z] = f @ [w, x, y, z] @ s"
  by (simp add: list_update_append)

lemma zeroHeaderCrc_eq: "length f = 28 \<Longrightarrow> length c = 4 \<Longrightarrow> zeroHeaderCrc (f @ c @ s) = f @ [0, 0, 0, 0] @ s"
proof -
  assume "length f = 28" and "length c = 4"
  then obtain w x y z where "c = [w, x, y, z]" by (auto simp: numeral_eq_Suc length_Suc_conv)
  moreover have "[28 ..< 32] = [28, 29, 30, 31 :: nat]" by (simp add: upt_rec)
  ultimately show ?thesis using set_crc_bytes [OF \<open>length f = 28\<close>] by (simp add: zeroHeaderCrc_def)
qed

lemma encode_eq:
  "encode p =
     (if length (pk_payload p) > kMaxPayloadSize then Inl (DpcError ''packet payload too large'')
      else Inr (head p @ be_put32 [] (head_crc p) @ pk_sha p @ pk_payload p))"
proof -
  have front: "be_put32 (be_put64 (be_put64 (be_put16 (be_put16 (be_put32 [] kMagic) kVersion)
      (packet_type_code (pk_type p))) (pk_session p)) (pk_index p)) (word_of_nat (length (pk_payload p)))
      = head p"
    unfolding head_def
    by (subst be32.put_appends, subst be64.put_appends, subst (2) be64.put_appends,
        subst be16.put_appends, subst (2) be16.put_appends) simp
  have crc: "be_put32 [] c = [ucast (drop_bit 24 c AND 0xff), ucast (drop_bit 16 c AND 0xff),
      ucast (drop_bit 8 c AND 0xff), ucast (c AND 0xff)]" for c
    by (simp add: be_put32_def)
  have hc: "crc32 (head p @ 0 # 0 # 0 # 0 # pk_sha p) = head_crc p"
    by (simp add: head_crc_def)
  show ?thesis
    using set_crc_bytes [OF length_head, of p 0 0 0 0 "pk_sha p"]
    by (simp add: encode_def Let_def front be32.put_appends [of "head p" 0] put32_zero hc
        crc [of "head_crc p"] isValidPacketType_def)
qed

lemma encode_Inr [res_simps]:
  "encode p = Inr e \<longleftrightarrow> length (pk_payload p) \<le> kMaxPayloadSize
     \<and> e = head p @ be_put32 [] (head_crc p) @ pk_sha p @ pk_payload p"
  by (auto simp: encode_eq)

lemma head_fields:
  "be_get32 (head p @ q) 0 = kMagic"
  "be_get16 (head p @ q) 4 = kVersion"
  "be_get16 (head p @ q) 6 = packet_type_code (pk_type p)"
  "be_get64 (head p @ q) 8 = pk_session p"
  "be_get64 (head p @ q) 16 = pk_index p"
  "be_get32 (head p @ q) 24 = word_of_nat (length (pk_payload p))"
  "be_get32 (head p @ be_put32 [] c @ q) 28 = c"
proof -
  let ?m = "be_put32 [] kMagic" and ?v = "be_put16 [] kVersion"
  let ?t = "be_put16 [] (packet_type_code (pk_type p))" and ?s = "be_put64 [] (pk_session p)"
  let ?i = "be_put64 [] (pk_index p)"
  note len = be32.put_width be16.put_width be64.put_width
  show "be_get32 (head p @ q) 0 = kMagic"
    using be32.get_at [of "[]" 0] by (simp add: head_def)
  show "be_get16 (head p @ q) 4 = kVersion"
    using be16.get_at [of ?m 4] by (simp add: head_def len)
  show "be_get16 (head p @ q) 6 = packet_type_code (pk_type p)"
    using be16.get_at [of "?m @ ?v" 6] by (simp add: head_def len)
  show "be_get64 (head p @ q) 8 = pk_session p"
    using be64.get_at [of "?m @ ?v @ ?t" 8] by (simp add: head_def len)
  show "be_get64 (head p @ q) 16 = pk_index p"
    using be64.get_at [of "?m @ ?v @ ?t @ ?s" 16] by (simp add: head_def len)
  show "be_get32 (head p @ q) 24 = word_of_nat (length (pk_payload p))"
    using be32.get_at [of "?m @ ?v @ ?t @ ?s @ ?i" 24] by (simp add: head_def len)
  show "be_get32 (head p @ be_put32 [] c @ q) 28 = c"
    using be32.get_at [of "head p" 28] by simp
qed

lemma packet_size_unat: "length p \<le> kMaxPayloadSize \<Longrightarrow> unat (word_of_nat (length p) :: u32) = length p"
  by (simp add: kMaxPayloadSize_def unat_of_nat)

definition frame :: "packet \<Rightarrow> bytes" where
  "frame p = head p @ be_put32 [] (head_crc p) @ pk_sha p"

lemma length_frame: "wf_packet p \<Longrightarrow> length (frame p) = kHeaderSize"
  by (simp add: frame_def wf_packet_def be32.put_width kHeaderSize_def)

lemma decode_frame:
  assumes "wf_packet p" and "length (pk_payload p) \<le> kMaxPayloadSize"
  shows "decode (frame p @ pk_payload p) = Inr p"
proof -
  have "take 32 (drop 32 (frame p @ pk_payload p)) = pk_sha p"
    using assms(1) by (simp add: frame_def wf_packet_def be32.put_width)
  moreover have "zeroHeaderCrc (frame p) = head p @ [0, 0, 0, 0] @ pk_sha p"
    unfolding frame_def by (rule zeroHeaderCrc_eq) (simp_all add: be32.put_width)
  ultimately show ?thesis
    using assms head_fields [of p] length_frame [OF assms(1)]
    by (simp add: decode_def Let_def packet_size_unat head_crc_def frame_def)
qed

lemma decode_Inr:
  "decode e = Inr p \<longleftrightarrow> \<not> length e < kHeaderSize
     \<and> be_get32 (take kHeaderSize e) 0 = kMagic \<and> be_get16 (take kHeaderSize e) 4 = kVersion
     \<and> (\<exists>t. packet_type_of (be_get16 (take kHeaderSize e) 6) = Some t
       \<and> \<not> unat (be_get32 (take kHeaderSize e) 24) > kMaxPayloadSize
       \<and> length e = kHeaderSize + unat (be_get32 (take kHeaderSize e) 24)
       \<and> crc32 (zeroHeaderCrc (take kHeaderSize e)) = be_get32 (take kHeaderSize e) 28
       \<and> p = \<lparr>pk_type = t, pk_session = be_get64 (take kHeaderSize e) 8,
              pk_index = be_get64 (take kHeaderSize e) 16,
              pk_sha = take 32 (drop 32 e), pk_payload = drop kHeaderSize e\<rparr>)"
  unfolding decode_def Let_def res_simps by (auto simp only: sum.inject not_not)

lemma decode_crc:
  "decode e = Inr p \<Longrightarrow> 64 \<le> length e \<and> crc32 (zeroHeaderCrc (take 64 e)) = be_get32 (take 64 e) 28"
  unfolding decode_Inr kHeaderSize_def by auto

lemma decode_canonical:
  assumes "decode e = Inr p"
  shows "wf_packet p \<and> length (pk_payload p) \<le> kMaxPayloadSize \<and> e = frame p @ pk_payload p"
proof -
  let ?h = "take 64 e"
  have len: "64 \<le> length e" and magic: "be_get32 ?h 0 = kMagic" and version: "be_get16 ?h 4 = kVersion"
    and type: "be_get16 ?h 6 = packet_type_code (pk_type p)"
    and sess: "be_get64 ?h 8 = pk_session p" and idx: "be_get64 ?h 16 = pk_index p"
    and sz: "length e = 64 + unat (be_get32 ?h 24)" "unat (be_get32 ?h 24) \<le> kMaxPayloadSize"
    and sha: "pk_sha p = take 32 (drop 32 e)" and payload: "pk_payload p = drop 64 e"
    and crc: "crc32 (zeroHeaderCrc ?h) = be_get32 ?h 28"
    using assms unfolding decode_Inr kHeaderSize_def by (auto simp: packet_type_of_Some)
  have l: "length ?h = 64" using len by simp
  have "word_of_nat (length (pk_payload p)) = be_get32 ?h 24"
    using sz(1) payload by simp
  then have "head p = take 4 (drop 0 ?h) @ take 2 (drop 4 ?h) @ take 2 (drop 6 ?h)
      @ take 8 (drop 8 ?h) @ take 8 (drop 16 ?h) @ take 4 (drop 24 ?h)"
    using l be32.put_get [of 0 ?h] be16.put_get [of 4 ?h] be16.put_get [of 6 ?h] be64.put_get [of 8 ?h]
      be64.put_get [of 16 ?h] be32.put_get [of 24 ?h]
    by (simp only: head_def magic version type sess idx)
  also have "\<dots> = take 28 ?h"
    by (simp only: take_add [of 4 2 ?h, symmetric] take_add [of 6 2 ?h, symmetric] drop_0
        take_add [of 8 8 ?h, symmetric] take_add [of 16 8 ?h, symmetric] take_add [of 24 4 ?h, symmetric]
        append_assoc [symmetric] numeral_plus_numeral add_num_simps)
  finally have hd: "head p = take 28 ?h" .
  have c4: "be_put32 [] (be_get32 ?h 28) = take 4 (drop 28 ?h)" using l by (simp add: be32.put_get)
  have sha': "pk_sha p = drop 32 ?h" using sha by (simp add: drop_take)
  have split: "?h = head p @ take 4 (drop 28 ?h) @ pk_sha p"
    unfolding hd sha' using append_take_drop_id [of 4 "drop 28 ?h"] append_take_drop_id [of 28 ?h]
    by (simp only: drop_drop numeral_plus_numeral add_num_simps)
  have "zeroHeaderCrc ?h = head p @ [0, 0, 0, 0] @ pk_sha p"
    by (subst split, rule zeroHeaderCrc_eq) (use l in simp_all)
  then have "head_crc p = be_get32 ?h 28" using crc by (simp add: head_crc_def)
  then have "frame p = ?h" using split c4 by (simp add: frame_def)
  moreover have "length (pk_sha p) = 32" using sha len by simp
  ultimately show ?thesis using payload sz(1,2) len by (simp add: wf_packet_def)
qed

lemma decode_iff:
  "decode e = Inr p \<longleftrightarrow> wf_packet p \<and> length (pk_payload p) \<le> kMaxPayloadSize \<and> e = frame p @ pk_payload p"
  using decode_canonical [of e p] decode_frame [of p] by blast

lemma decode_encode_lib: "decode e = Inr p \<longleftrightarrow> wf_packet p \<and> encode p = Inr e"
  by (auto simp: decode_iff res_simps frame_def)

section \<open>Crossing a connection\<close>

lemma read_size_le: "read_size e stream n \<le> n" "read_size e stream n \<le> length stream"
  by (simp_all add: read_size_def)

lemma take_in_parts: "k \<le> n \<Longrightarrow> take k s @ take (n - k) (drop k s) = take n s"
  by (metis le_add_diff_inverse take_add)

lemma read_run_ok:
  "read_run es stream n = (got, Inr u, es', rest) \<Longrightarrow>
     n \<le> length stream \<and> got = take n stream \<and> rest = drop n stream"
proof (induction es arbitrary: stream n got)
  case (Cons e es)
  let ?k = "read_size e stream n"
  have part: "n \<le> length stream \<and> got = take n stream \<and> rest = drop n stream"
    if "read_run es (drop ?k stream) (n - ?k) = (g, Inr u, es', rest)" "got = take ?k stream @ g" for g
    using Cons.IH [OF that(1)] that(2) read_size_le [of e stream n] by (auto simp: take_in_parts)
  show ?case
    using Cons.prems Cons.IH part
    by (cases e) (auto simp: Let_def split: if_splits prod.splits)
qed (auto split: if_splits)

text \<open>A read returns when the bytes are there and the calls only come back late or with few bytes.\<close>

fun gentle :: "event \<Rightarrow> bool" where
  "gentle Done = True"
| "gentle Eintr = True"
| "gentle (Short k) = (0 < k)"
| "gentle (Fail m) = False"
| "gentle Kill = False"

lemma read_run_returns:
  "list_all gentle es \<Longrightarrow> n \<le> length stream \<Longrightarrow>
     \<exists>es'. read_run es stream n = (take n stream, Inr (), es', drop n stream) \<and> list_all gentle es'"
proof (induction es arbitrary: stream n)
  case (Cons e es)
  let ?k = "read_size e stream n"
  have "n - ?k \<le> length (drop ?k stream)" using Cons.prems(2) by simp
  then obtain es' where es': "list_all gentle es'"
      "read_run es (drop ?k stream) (n - ?k) = (take (n - ?k) (drop ?k stream), Inr (), es', drop n stream)"
    using Cons.IH [of "n - ?k" "drop ?k stream"] Cons.prems(1) read_size_le(1) [of e stream n] by auto
  moreover have "n \<noteq> 0 \<Longrightarrow> e = Done \<or> e = Short j \<Longrightarrow> ?k \<noteq> 0" for j
    using Cons.prems by (auto simp: read_size_def)
  ultimately show ?case
    using Cons.IH [of n stream] Cons.prems read_size_le(1) [of e stream n]
    by (cases e) (auto simp: take_in_parts)
qed simp

lemma write_run_returns:
  "list_all gentle es \<Longrightarrow> \<exists>es'. write_run es data = (data, Inr (), es') \<and> list_all gentle es'"
proof (induction es data rule: write_run.induct)
  case (7 n es v va)
  then obtain es' where "write_run es (drop n (v # va)) = (drop n (v # va), Inr (), es')" "list_all gentle es'"
    by auto
  moreover have "take n (v # va) @ drop n (v # va) = v # va" by (rule append_take_drop_id)
  ultimately show ?case using 7(2) by simp
qed auto

lemma readExact_ok:
  "readExact n w = (Inr got, w') \<Longrightarrow> n \<le> length (sock_in w) \<and> got = take n (sock_in w)
     \<and> sock_in w' = drop n (sock_in w) \<and> disk w' = disk w"
  by (auto simp: readExact_def res_simps split: prod.splits dest!: read_run_ok)

lemma readExact_returns:
  assumes "list_all gentle (script w)" and "n \<le> length (sock_in w)"
  shows "\<exists>w'. readExact n w = (Inr (take n (sock_in w)), w') \<and> sock_in w' = drop n (sock_in w)
    \<and> list_all gentle (script w') \<and> disk w' = disk w"
  using read_run_returns [OF assms] by (auto simp: readExact_def)

lemma frame_payload_size:
  "wf_packet p \<Longrightarrow> length (pk_payload p) \<le> kMaxPayloadSize \<Longrightarrow>
     unat (be_get32 (frame p) 24) = length (pk_payload p)"
  using head_fields(6) [of p "be_put32 [] (head_crc p) @ pk_sha p"] packet_size_unat [of "pk_payload p"]
  by (simp add: frame_def)

lemma keeps_sock [keeps_intro]: "keeps (on_disk D) (readExact n)" "keeps (on_disk D) (sock_writeAll data)"
  by (auto simp: keeps_def readExact_def sock_writeAll_def split: prod.splits)

lemma keeps_packet [keeps_intro]: "keeps (on_disk D) readPacket" "keeps (on_disk D) (writePacket p)"
  by (auto simp: readPacket_def writePacket_def Let_def intro!: keeps_intro)

section \<open>Properties\<close>

text \<open>C29: the decoder accepts exactly the encoder's frames. \<open>decode\<close> returns a packet exactly on the
  frame that \<open>encode\<close> makes of it: every packet survives the round trip, and no packet has two
  frames.\<close>

theorem decode_encode:
  "decode e = Inr p \<longleftrightarrow> wf_packet p \<and> encode p = Inr e"
  by (rule decode_encode_lib)

text \<open>C30: any one damaged header byte is noticed. A frame in which one of the 64 header bytes has
  another value is not decoded to any packet.\<close>

theorem decode_damaged_header:
  assumes "wf_packet p" and "encode p = Inr e" and "i < kHeaderSize" and "b \<noteq> e ! i"
  shows "\<exists>m. decode (e[i := b]) = Inl m"
proof (cases "decode (e[i := b])")
  case (Inr q)
  let ?h = "frame p" and ?h' = "take 64 (e[i := b])"
  have e: "e = frame p @ pk_payload p" and i: "i < 64" and l: "length ?h = 64"
    using assms length_frame [OF assms(1)] by (auto simp: res_simps frame_def kHeaderSize_def)
  have h': "?h' = ?h[i := b]" using e i l by (simp add: list_update_append)
  have "decode e = Inr p" using assms by (simp add: decode_encode_lib)
  then have crc: "crc32 (zeroHeaderCrc ?h) = be_get32 ?h 28"
    using decode_crc [of e p] e l by simp
  have crc': "crc32 (zeroHeaderCrc (?h[i := b])) = be_get32 (?h[i := b]) 28"
    using decode_crc [OF Inr] h' by simp
  have z: "zeroHeaderCrc h = foldl (\<lambda>h i. h[i := 0]) h [28, 29, 30, 31]" for h
    by (simp add: zeroHeaderCrc_def upt_rec)
  have b: "b \<noteq> ?h ! i" using assms(4) e i l by (simp add: nth_append)
  have False
  proof (cases "28 \<le> i \<and> i < 32")
    case True
    then have "i = 28 \<or> i = 29 \<or> i = 30 \<or> i = 31" by auto
    then have "zeroHeaderCrc (?h[i := b]) = zeroHeaderCrc ?h"
      unfolding z by (auto simp: list_update_swap)
    then have "take 4 (drop 28 (?h[i := b])) = take 4 (drop 28 ?h)"
      using crc crc' l be32.put_get [of 28 ?h] be32.put_get [of 28 "?h[i := b]"] by simp
    moreover have "take 4 (drop 28 (?h[i := b])) ! (i - 28) = b"
        "take 4 (drop 28 ?h) ! (i - 28) = ?h ! i"
      using True l by auto
    ultimately show False using b by simp
  next
    case False
    then have ne: "i \<noteq> 28" "i \<noteq> 29" "i \<noteq> 30" "i \<noteq> 31" by auto
    then have "zeroHeaderCrc (?h[i := b]) = (zeroHeaderCrc ?h)[i := b]"
      unfolding z by (simp add: list_update_swap)
    moreover have "zeroHeaderCrc ?h ! i = ?h ! i" "length (zeroHeaderCrc ?h) = 64"
      using ne l by (simp_all add: z)
    ultimately have "crc32 (zeroHeaderCrc (?h[i := b])) \<noteq> crc32 (zeroHeaderCrc ?h)"
      using crc32_update [of i "zeroHeaderCrc ?h" b] i b by simp
    moreover have "take 4 (drop 28 (?h[i := b])) = take 4 (drop 28 ?h)"
      using False by (intro nth_equalityI) (auto simp: l)
    then have "be_get32 (?h[i := b]) 28 = be_get32 ?h 28"
      using l be32.get_window [of 28 ?h] be32.get_window [of 28 "?h[i := b]"] by simp
    ultimately show False using crc crc' by simp
  qed
  then show ?thesis ..
qed blast

definition sample_packet :: packet where
  "sample_packet = \<lparr>pk_type = PutChunk, pk_session = 7, pk_index = 3, pk_sha = replicate 32 0,
     pk_payload = [1, 2, 3]\<rparr>"

lemma sample_packet_ok: "wf_packet sample_packet" "encode sample_packet = Inr (frame sample_packet @ [1, 2, 3])"
  by (simp_all add: sample_packet_def wf_packet_def res_simps frame_def kMaxPayloadSize_def)

theorem decode_damaged_header_witness:
  "\<exists>m. decode ((frame sample_packet @ [1, 2, 3])[0 := 0]) = Inl m"
  by (rule decode_damaged_header [OF sample_packet_ok])
    (simp_all add: kHeaderSize_def frame_def head_def be_put32_def kMagic_def)

lemma readPacket_frame:
  assumes "readPacket w = (Inr p, w')"
  shows "wf_packet p \<and> (\<exists>e. encode p = Inr e \<and> sock_in w = e @ sock_in w') \<and> disk w' = disk w"
proof -
  obtain header w1 payload where
    h: "readExact kHeaderSize w = (Inr header, w1)"
    and small: "\<not> kMaxPayloadSize < unat (be_get32 header 24)"
    and p: "(if 0 < unat (be_get32 header 24) then readExact (unat (be_get32 header 24)) else io_return []) w1
        = (Inr payload, w')"
    and d: "decode (header @ payload) = Inr p"
    using assms by (auto simp: readPacket_def res_simps Let_def split: if_splits)
  have "header = take kHeaderSize (sock_in w)" "sock_in w1 = drop kHeaderSize (sock_in w)"
      "disk w1 = disk w"
    using readExact_ok [OF h] by auto
  moreover have "sock_in w1 = payload @ sock_in w' \<and> disk w' = disk w1"
    using p readExact_ok [of "unat (be_get32 header 24)" w1 payload w'] by (auto split: if_splits)
  ultimately have "sock_in w = (header @ payload) @ sock_in w'" "disk w' = disk w"
    by (metis append.assoc append_take_drop_id, simp)
  then show ?thesis using d by (auto simp: decode_encode_lib)
qed

definition sample_socket :: world where
  "sample_socket = \<lparr>disk = [], script = [Short 1, Eintr, Done, Short 2, Done], steady_clock = [],
     system_clock = 0, pid = 1, umask = 0x12, fault_abort = False, fault_fired = False,
     sock_in = frame sample_packet @ [1, 2, 3, 255], sock_out = []\<rparr>"

lemma readPacket_returns:
  assumes "wf_packet p" and "encode p = Inr e" and "sock_in w = e @ rest" and "list_all gentle (script w)"
  shows "\<exists>w'. readPacket w = (Inr p, w') \<and> sock_in w' = rest \<and> disk w' = disk w \<and> list_all gentle (script w')"
proof -
  have e: "e = frame p @ pk_payload p" and small: "length (pk_payload p) \<le> kMaxPayloadSize"
    using assms(2) by (auto simp: res_simps frame_def)
  have len: "length (frame p) = kHeaderSize" by (rule length_frame [OF assms(1)])
  obtain w1 where w1: "readExact kHeaderSize w = (Inr (frame p), w1)" "sock_in w1 = pk_payload p @ rest"
      "list_all gentle (script w1)" "disk w1 = disk w"
    using readExact_returns [OF assms(4), of kHeaderSize] assms(3) len by (auto simp: e)
  obtain w2 where w2: "(if 0 < length (pk_payload p) then readExact (length (pk_payload p)) else io_return []) w1
      = (Inr (pk_payload p), w2)" "sock_in w2 = rest" "list_all gentle (script w2)" "disk w2 = disk w1"
    using readExact_returns [OF w1(3), of "length (pk_payload p)"] w1(2,3) by (cases "pk_payload p") auto
  have "decode (frame p @ pk_payload p) = Inr p" by (rule decode_frame [OF assms(1) small])
  then show ?thesis
    using w1 w2 small frame_payload_size [OF assms(1) small]
    by (cases "pk_payload p = []") (simp_all add: readPacket_def io_bind_def)
qed

text \<open>C31: a frame on the connection is delivered. When a whole frame is there and the calls only come
  back interrupted or with fewer bytes than asked, \<open>readPacket\<close> returns its packet.\<close>

theorem readPacket_delivers:
  assumes "wf_packet p" and "encode p = Inr e" and "sock_in w = e @ rest" and "list_all gentle (script w)"
  shows "\<exists>w'. readPacket w = (Inr p, w') \<and> sock_in w' = rest"
  using readPacket_returns [OF assms] by blast

theorem readPacket_delivers_witness:
  "\<exists>w'. readPacket sample_socket = (Inr sample_packet, w') \<and> sock_in w' = [255]"
  using readPacket_delivers [OF sample_packet_ok, of sample_socket "[255]"]
  by (simp add: sample_socket_def)

text \<open>Writing a packet puts a beginning of its frame on the connection, all of it when the call
  returns, and a packet that cannot be encoded puts nothing there.\<close>

lemma writePacket_prefix:
  "case writePacket p w of
     (Inr _, w') \<Rightarrow> (\<exists>e. encode p = Inr e \<and> sock_out w' = sock_out w @ e)
   | (Inl _, w') \<Rightarrow> (\<exists>k. sock_out w' = sock_out w @ take k (case encode p of Inr e \<Rightarrow> e | Inl _ \<Rightarrow> []))"
proof (cases "encode p")
  case (Inl x)
  then show ?thesis by (simp add: writePacket_def io_bind_fail)
next
  case (Inr e)
  obtain written r es where run: "write_run (script w) e = (written, r, es)" by (metis prod_cases3)
  obtain rest where "e = written @ rest" using write_run_prefix [OF run] by blast
  then have "\<exists>k. sock_out w @ written = sock_out w @ take k e"
    by (intro exI [of _ "length written"]) simp
  moreover have "r = Inr u \<Longrightarrow> written = e" for u using run write_run_ok by blast
  ultimately show ?thesis
    using Inr run by (cases r) (simp_all add: writePacket_def io_bind_run sock_writeAll_def)
qed

end
