(* ===== verification/DPC_Manifest.thy ===== *)
theory DPC_Manifest
  imports DPC_Packet
begin

text \<open>
  The manifest and its text form: the structures of include/dpc/common/Types.hpp and
  \<open>serialize\<close> and \<open>parse\<close> of src/core/ManifestStore.cpp. The main fact is that the parser reads
  back a serialized manifest exactly when the manifest is well formed, and that everything the
  parser accepts is well formed: its paths stay below their root and its hashes have the form of
  a SHA-256.
\<close>

section \<open>Data\<close>

record chunk_ref =
  chunk_index :: u64
  raw_size :: u64
  compressed_size :: u64
  chunk_sha256 :: string
  object_path :: string

record file_manifest =
  relative_path :: string
  file_size :: u64
  file_mode :: u32
  file_sha256 :: string
  chunks :: "chunk_ref list"

record manifest =
  m_version :: u64
  created_at :: u64
  chunking :: chunking_mode
  source_root :: string
  total_input_bytes :: u64
  total_stored_bytes :: u64
  files :: "file_manifest list"

section \<open>Writing\<close>

definition serialize_chunk :: "chunk_ref \<Rightarrow> string" where
  "serialize_chunk c =
     ''CHUNK '' @ dec_word (chunk_index c) @ '' '' @ dec_word (raw_size c) @ '' ''
       @ dec_word (compressed_size c) @ '' '' @ chunk_sha256 c @ '' ''
       @ hexEncodeString (object_path c) @ [nl]"

definition serialize_file :: "file_manifest \<Rightarrow> string" where
  "serialize_file f =
     ''FILE '' @ hexEncodeString (relative_path f) @ '' '' @ dec_word (file_size f) @ '' ''
       @ dec_word (file_mode f) @ '' '' @ file_sha256 f @ '' '' @ dec (length (chunks f)) @ [nl]
       @ concat (map serialize_chunk (chunks f)) @ ''END_FILE'' @ [nl]"

definition serialize :: "manifest \<Rightarrow> string" where
  "serialize m =
     ''DPC_MANIFEST_V1'' @ [nl]
       @ ''version '' @ dec_word (m_version m) @ [nl]
       @ ''created_at '' @ dec_word (created_at m) @ [nl]
       @ ''chunking_mode '' @ mode_toString (chunking m) @ [nl]
       @ ''source_root_hex '' @ hexEncodeString (source_root m) @ [nl]
       @ ''file_count '' @ dec (length (files m)) @ [nl]
       @ ''total_input_bytes '' @ dec_word (total_input_bytes m) @ [nl]
       @ ''total_stored_bytes '' @ dec_word (total_stored_bytes m) @ [nl]
       @ concat (map serialize_file (files m)) @ ''END'' @ [nl]"

section \<open>Reading\<close>

definition splitLines :: "string \<Rightarrow> string list" where
  "splitLines text =
     map (\<lambda>line. if line \<noteq> [] \<and> last line = CHR 0x0D then butlast line else line) (getlines text)"

definition parseNumber :: "string \<Rightarrow> string \<Rightarrow> 'a::len word res" where
  "parseNumber val field =
     (if val = [] \<or> \<not> list_all isdigit val
      then Inl (DpcError (''invalid manifest number for '' @ field @ '': '' @ val))
      else (case stoull val of
          Inl _ \<Rightarrow> Inl (DpcError (''manifest number out of range for '' @ field @ '': '' @ val))
        | Inr parsed \<Rightarrow>
            if unat parsed \<ge> 2 ^ LENGTH('a)
            then Inl (DpcError (''manifest number out of range for '' @ field @ '': '' @ val))
            else Inr (word_of_nat (unat parsed))))"

definition rejectExtraTokens :: "istream \<Rightarrow> string \<Rightarrow> unit res" where
  "rejectExtraTokens in1 context =
     (let (extra, in2) = extract_string in1 [] in
      if \<not> failed in2 then Inl (DpcError (''unexpected token in '' @ context @ '': '' @ extra)) else Inr ())"

text \<open>The closure \<open>consume\<close>: the lines from the current one on take the place of its index.\<close>

definition consume :: "string \<Rightarrow> string list \<Rightarrow> (string \<times> string list) res" where
  "consume key lines =
     (case lines of
        [] \<Rightarrow> Inl (DpcError (''manifest missing key: '' @ key))
      | line # rest \<Rightarrow>
         (let (actual, in1) = extract_string (istringstream line) [];
              (val, in2) = extract_string in1 [] in
          if actual \<noteq> key \<or> val = [] then Inl (DpcError (''manifest expected key: '' @ key))
          else rbind (rejectExtraTokens in2 (''manifest key '' @ key)) (\<lambda>_. Inr (val, rest))))"

definition parse_chunk_line :: "string \<Rightarrow> string \<Rightarrow> (string \<times> chunk_ref) res" where
  "parse_chunk_line tag0 line =
     (let (tag, in1) = extract_string (istringstream line) tag0;
          (chunk_index_text, in2) = extract_string in1 [];
          (raw_size_text, in3) = extract_string in2 [];
          (compressed_size_text, in4) = extract_string in3 [];
          (sha, in5) = extract_string in4 [];
          (object_hex, in6) = extract_string in5 [] in
      if tag \<noteq> ''CHUNK'' \<or> failed in6 then Inl (DpcError ''invalid CHUNK line in manifest'')
      else
        rbind (parseNumber chunk_index_text ''chunk_index'') (\<lambda>ci.
        rbind (parseNumber raw_size_text ''raw_size'') (\<lambda>rs.
        rbind (parseNumber compressed_size_text ''compressed_size'') (\<lambda>cs.
        rbind (hexDecodeString object_hex) (\<lambda>op.
        rbind (requireSha256Hex sha ''manifest chunk sha256'') (\<lambda>_.
        rbind (safeRelativePath op ''manifest object_path'') (\<lambda>_.
        rbind (rejectExtraTokens in6 ''CHUNK line'') (\<lambda>_.
        Inr (tag, \<lparr>chunk_index = ci, raw_size = rs, compressed_size = cs, chunk_sha256 = sha,
                  object_path = op\<rparr>)))))))))"

fun parse_chunks :: "string list \<Rightarrow> nat \<Rightarrow> string \<Rightarrow> chunk_ref list \<Rightarrow> (chunk_ref list \<times> string list) res" where
  "parse_chunks [] n tag acc =
     (if n = 0 then Inr (acc, []) else Inl (DpcError ''manifest ended inside chunks''))"
| "parse_chunks (line # lines) n tag acc =
     (if n = 0 then Inr (acc, line # lines)
      else rbind (parse_chunk_line tag line) (\<lambda>(tag', c). parse_chunks lines (n - 1) tag' (acc @ [c])))"

text \<open>A FILE line: the file without its chunks, and how many chunk lines follow.\<close>

definition parse_file_line :: "string \<Rightarrow> (file_manifest \<times> u64) res" where
  "parse_file_line line =
     (let (tag, in1) = extract_string (istringstream line) [];
          (rel_hex, in2) = extract_string in1 [];
          (file_size_text, in3) = extract_string in2 [];
          (file_mode_text, in4) = extract_string in3 [];
          (sha, in5) = extract_string in4 [];
          (chunk_count_text, in6) = extract_string in5 [] in
      if tag \<noteq> ''FILE'' \<or> failed in6 then Inl (DpcError ''invalid FILE line in manifest'')
      else
        rbind (parseNumber file_size_text ''file_size'') (\<lambda>fs.
        rbind (parseNumber file_mode_text ''file_mode'') (\<lambda>fm.
        rbind (parseNumber chunk_count_text ''chunk_count'') (\<lambda>cc.
        rbind (hexDecodeString rel_hex) (\<lambda>rel.
        rbind (safeRelativePath rel ''manifest relative_path'') (\<lambda>_.
        rbind (requireSha256Hex sha ''manifest file_sha256'') (\<lambda>_.
        rbind (rejectExtraTokens in6 ''FILE line'') (\<lambda>_.
        Inr (\<lparr>relative_path = rel, file_size = fs, file_mode = fm, file_sha256 = sha, chunks = []\<rparr>, cc)))))))))"

lemma rbind_cong [fundef_cong]:
  "m = m' \<Longrightarrow> (\<And>a. m' = Inr a \<Longrightarrow> f a = g a) \<Longrightarrow> rbind m f = rbind m' g"
  by (cases m') simp_all

lemma parse_chunks_length:
  "parse_chunks lines n tag acc = Inr (cs, rest) \<Longrightarrow> length rest \<le> length lines"
  by (induction lines n tag acc rule: parse_chunks.induct)
    (auto simp: res_simps split: if_splits prod.splits intro: le_SucI)

function parse_files :: "string list \<Rightarrow> file_manifest list \<Rightarrow> (file_manifest list \<times> string list) res" where
  "parse_files [] acc = Inr (acc, [])"
| "parse_files (line # lines) acc =
     (if line = ''END'' then Inr (acc, line # lines)
      else rbind (parse_file_line line) (\<lambda>(file, chunk_count).
           rbind (parse_chunks lines (unat chunk_count) ''FILE'' []) (\<lambda>(cs, rest).
           case rest of
             [] \<Rightarrow> Inl (DpcError ''manifest missing END_FILE'')
           | e # rest' \<Rightarrow>
               if e \<noteq> ''END_FILE'' then Inl (DpcError ''manifest missing END_FILE'')
               else parse_files rest' (acc @ [file\<lparr>chunks := cs\<rparr>]))))"
  by pat_completeness auto
termination
  by (relation "measure (\<lambda>(lines, _). length lines)") (auto dest!: parse_chunks_length)

definition parse :: "string \<Rightarrow> manifest res" where
  "parse text =
     (let lines = splitLines text in
      if lines = [] \<or> hd lines \<noteq> ''DPC_MANIFEST_V1'' then Inl (DpcError ''invalid manifest header'')
      else
        rbind (consume ''version'' (tl lines)) (\<lambda>(t, lines).
        rbind (parseNumber t ''version'') (\<lambda>v.
        rbind (consume ''created_at'' lines) (\<lambda>(t, lines).
        rbind (parseNumber t ''created_at'') (\<lambda>ca.
        rbind (consume ''chunking_mode'' lines) (\<lambda>(mode, lines).
        if mode \<noteq> ''fixed'' \<and> mode \<noteq> ''cdc''
        then Inl (DpcError (''invalid manifest chunking_mode: '' @ mode))
        else
        rbind (consume ''source_root_hex'' lines) (\<lambda>(t, lines).
        rbind (hexDecodeString t) (\<lambda>root.
        rbind (consume ''file_count'' lines) (\<lambda>(t, lines).
        rbind (parseNumber t ''file_count'') (\<lambda>expected_files.
        rbind (consume ''total_input_bytes'' lines) (\<lambda>(t, lines).
        rbind (parseNumber t ''total_input_bytes'') (\<lambda>ti.
        rbind (consume ''total_stored_bytes'' lines) (\<lambda>(t, lines).
        rbind (parseNumber t ''total_stored_bytes'') (\<lambda>ts.
        rbind (parse_files lines []) (\<lambda>(fs, lines).
        if lines = [] \<or> hd lines \<noteq> ''END'' then Inl (DpcError ''manifest missing END'')
        else if length fs \<noteq> unat (expected_files :: u64) then Inl (DpcError ''manifest file_count mismatch'')
        else if tl lines \<noteq> [] then Inl (DpcError ''unexpected data after manifest END'')
        else Inr \<lparr>m_version = v, created_at = ca, chunking = chunkingModeFromString mode,
                  source_root = root, total_input_bytes = ti, total_stored_bytes = ts,
                  files = fs\<rparr>)))))))))))))))"

section \<open>Well-formed manifests\<close>

definition safe_rel :: "string \<Rightarrow> bool" where
  "safe_rel v \<longleftrightarrow> (case safeRelativePath v [] of Inr _ \<Rightarrow> True | Inl _ \<Rightarrow> False)"

definition wf_chunk :: "chunk_ref \<Rightarrow> bool" where
  "wf_chunk c \<longleftrightarrow> safe_rel (object_path c) \<and> isSha256Hex (chunk_sha256 c)"

definition wf_file :: "file_manifest \<Rightarrow> bool" where
  "wf_file f \<longleftrightarrow> safe_rel (relative_path f) \<and> isSha256Hex (file_sha256 f)
     \<and> length (chunks f) < 2 ^ 64 \<and> list_all wf_chunk (chunks f)"

definition wf_manifest :: "manifest \<Rightarrow> bool" where
  "wf_manifest m \<longleftrightarrow> source_root m \<noteq> [] \<and> length (files m) < 2 ^ 64 \<and> list_all wf_file (files m)"

lemma safe_rel_iff: "safe_rel v \<longleftrightarrow> (\<exists>p. safeRelativePath v field = Inr p)"
  by (auto simp: safe_rel_def safeRelativePath_def Let_def split: if_splits)

lemma safe_relI: "safeRelativePath v field = Inr p \<Longrightarrow> safe_rel v"
  using safe_rel_iff by blast

lemma safe_rel_nonempty: "safe_rel v \<Longrightarrow> v \<noteq> []"
  by (auto simp: safe_rel_def safeRelativePath_def split: if_splits)

section \<open>Tokens of a line\<close>

text \<open>What is left of a line of blank-separated tokens after some of them were read.\<close>

definition blanks :: "string list \<Rightarrow> string" where
  "blanks ts = (if ts = [] then [] else sp # unwords ts)"

lemma unwords_Cons: "unwords (t # ts) = t @ blanks ts"
  by (cases ts) (simp_all add: blanks_def)

lemma token_end_blanks [simp]: "token_end (blanks ts)"
  by (simp add: blanks_def)

lemma extract_first:
  "token t \<Longrightarrow> extract_string (istringstream (unwords (t # ts))) old = (t, (blanks ts, False))"
  unfolding unwords_Cons istringstream_def by (rule extract_string_token) simp_all

lemma extract_next: "token t \<Longrightarrow> extract_string (blanks (t # ts), False) old = (t, (blanks ts, False))"
  unfolding blanks_def [of "t # ts"] unwords_Cons
  using extract_string_token(2) [of t "blanks ts" sp old] by simp

lemma extract_none: "extract_string (blanks [], False) old = (old, ([], True))"
  by (simp add: blanks_def skipws_def)

lemma rejectExtraTokens_none: "rejectExtraTokens (blanks [], False) context = Inr ()"
  by (simp add: rejectExtraTokens_def extract_none)

lemma consume_line:
  assumes "token key" and "token val"
  shows "consume key (unwords [key, val] # rest) = Inr (val, rest)"
  using assms by (simp add: consume_def extract_first extract_next rejectExtraTokens_none token_def del: unwords.simps)

lemma parseNumber_dec:
  fixes w :: "'a::len word"
  assumes "LENGTH('a) \<le> 64"
  shows "parseNumber (dec (unat w)) field = Inr w"
proof -
  have lt: "unat w < 2 ^ LENGTH('a)" by (rule unsigned_less)
  also have "\<dots> \<le> (2 :: nat) ^ 64" using assms by (rule power_increasing) simp
  finally have small: "unat w < 2 ^ 64" .
  then have "stoull (dec (unat w)) = Inr (word_of_nat (unat w))" by (rule stoull_dec)
  moreover have "unat (word_of_nat (unat w) :: u64) = unat w"
    by (subst unat_of_nat) (use small in simp)
  moreover have "\<not> 2 ^ LENGTH('a) \<le> unat w" using lt by (simp only: not_le)
  ultimately show ?thesis by (simp add: parseNumber_def dec_digits)
qed

lemma parseNumber_dec_nat: "n < 2 ^ 64 \<Longrightarrow> parseNumber (dec n) field = Inr (word_of_nat n :: u64)"
  using parseNumber_dec [of "word_of_nat n :: u64" field] by (simp add: unat_of_nat)

section \<open>The lines of a manifest\<close>

definition chunk_line :: "chunk_ref \<Rightarrow> string" where
  "chunk_line c = unwords [''CHUNK'', dec_word (chunk_index c), dec_word (raw_size c),
     dec_word (compressed_size c), chunk_sha256 c, hexEncodeString (object_path c)]"

definition file_line :: "file_manifest \<Rightarrow> string" where
  "file_line f = unwords [''FILE'', hexEncodeString (relative_path f), dec_word (file_size f),
     dec_word (file_mode f), file_sha256 f, dec (length (chunks f))]"

definition file_lines :: "file_manifest \<Rightarrow> string list" where
  "file_lines f = file_line f # map chunk_line (chunks f) @ [''END_FILE'']"

definition manifest_lines :: "manifest \<Rightarrow> string list" where
  "manifest_lines m =
     [''DPC_MANIFEST_V1'', unwords [''version'', dec_word (m_version m)],
      unwords [''created_at'', dec_word (created_at m)],
      unwords [''chunking_mode'', mode_toString (chunking m)],
      unwords [''source_root_hex'', hexEncodeString (source_root m)],
      unwords [''file_count'', dec (length (files m))],
      unwords [''total_input_bytes'', dec_word (total_input_bytes m)],
      unwords [''total_stored_bytes'', dec_word (total_stored_bytes m)]]
     @ concat (map file_lines (files m)) @ [''END'']"

abbreviation put_lines :: "string list \<Rightarrow> string" where
  "put_lines ls \<equiv> concat (map (\<lambda>l. l @ [nl]) ls)"

lemma serialize_chunk_line: "serialize_chunk = (\<lambda>c. chunk_line c @ [nl])"
  by (simp add: fun_eq_iff serialize_chunk_def chunk_line_def)

lemma serialize_file_lines: "serialize_file f = put_lines (file_lines f)"
  by (simp add: serialize_file_def file_lines_def file_line_def serialize_chunk_line o_def)

lemma serialize_lines: "serialize m = put_lines (manifest_lines m)"
proof -
  have "concat (map serialize_file fs) = put_lines (concat (map file_lines fs))" for fs
    by (induction fs) (simp_all add: serialize_file_lines)
  then show ?thesis by (simp add: serialize_def manifest_lines_def)
qed

text \<open>A line of tokens has no newline in it and no carriage return at its end.\<close>

lemma unwords_last: "ts \<noteq> [] \<Longrightarrow> list_all token ts \<Longrightarrow> last (unwords ts) = last (last ts) \<and> unwords ts \<noteq> []"
  by (induction ts rule: unwords.induct) (auto simp: token_def)

definition good_line :: "string \<Rightarrow> bool" where
  "good_line l \<longleftrightarrow> nl \<notin> set l \<and> l \<noteq> [] \<and> last l \<noteq> CHR 0x0D"

lemma good_unwords: "ts \<noteq> [] \<Longrightarrow> list_all token ts \<Longrightarrow> good_line (unwords ts)"
proof -
  assume ts: "ts \<noteq> []" "list_all token ts"
  then have "token (last ts)" by (simp add: list_all_iff)
  then have "\<not> isspace (last (last ts))" by (simp add: token_def list_all_iff)
  moreover have "isspace (CHR 0x0D)" by (simp add: isspace_def char_code_def)
  ultimately show ?thesis
    using ts unwords_last [of ts] unwords_no_nl [of ts] by (auto simp: good_line_def)
qed

lemma splitLines_lines: "\<forall>l \<in> set ls. good_line l \<Longrightarrow> splitLines (put_lines ls) = ls"
proof -
  assume good: "\<forall>l \<in> set ls. good_line l"
  then have "getlines (put_lines ls) = ls" by (intro getlines_lines) (simp add: good_line_def)
  then show ?thesis using good by (simp add: splitLines_def good_line_def map_idI)
qed

section \<open>Reading back what was written\<close>

lemma hex_token: "v \<noteq> [] \<Longrightarrow> token (hexEncodeString v)"
  by (rule str_hex.enc_token)

lemma token_literals:
  "token ''CHUNK''" "token ''FILE''" "token ''END_FILE''" "token ''END''" "token ''DPC_MANIFEST_V1''"
  "token ''version''" "token ''created_at''" "token ''chunking_mode''" "token ''source_root_hex''"
  "token ''file_count''" "token ''total_input_bytes''" "token ''total_stored_bytes''" "token ''fixed''"
  "token ''cdc''"
  by (simp_all add: token_def isspace_def char_code_def)

lemma token_mode: "token (mode_toString mode)"
  by (simp add: mode_toString_def token_literals)

lemma chunk_tokens:
  assumes "wf_chunk c"
  shows "token (chunk_sha256 c)" and "token (hexEncodeString (object_path c))"
    and "\<exists>p. safeRelativePath (object_path c) f = Inr p"
    and "requireSha256Hex (chunk_sha256 c) f = Inr ()"
  using assms safe_rel_iff [of "object_path c" f]
  by (auto simp: wf_chunk_def isSha256Hex_token hex_token safe_rel_nonempty requireSha256Hex_def)

lemma parse_chunk_line_back:
  assumes "wf_chunk c"
  shows "parse_chunk_line tag (chunk_line c) = Inr (''CHUNK'', c)"
proof -
  obtain p where "safeRelativePath (object_path c) ''manifest object_path'' = Inr p"
    using chunk_tokens(3) [OF assms] by blast
  then show ?thesis
    using chunk_tokens(1,2,4) [OF assms] token_literals(1)
    by (simp add: parse_chunk_line_def chunk_line_def extract_first extract_next rejectExtraTokens_none
        parseNumber_dec str_hex.decode_enc del: unwords.simps)
qed

lemma parse_file_line_back:
  assumes "wf_file f"
  shows "parse_file_line (file_line f) = Inr (f\<lparr>chunks := []\<rparr>, word_of_nat (length (chunks f)))"
proof -
  have "token (file_sha256 f)" "token (hexEncodeString (relative_path f))"
      "\<exists>p. safeRelativePath (relative_path f) ''manifest relative_path'' = Inr p"
      "requireSha256Hex (file_sha256 f) g = Inr ()" "length (chunks f) < 2 ^ 64" for g
    using assms safe_rel_iff [of "relative_path f"]
    by (auto simp: wf_file_def isSha256Hex_token hex_token safe_rel_nonempty requireSha256Hex_def)
  then show ?thesis
    using token_literals(2)
    by (auto simp: parse_file_line_def file_line_def extract_first extract_next rejectExtraTokens_none
        parseNumber_dec parseNumber_dec_nat str_hex.decode_enc simp del: unwords.simps)
qed

lemma parse_chunks_back:
  "list_all wf_chunk cs \<Longrightarrow>
     parse_chunks (map chunk_line cs @ e # rest) (length cs) tag acc = Inr (acc @ cs, e # rest)"
  by (induction cs arbitrary: tag acc) (simp_all add: parse_chunk_line_back)

lemma file_line_not_END: "file_line f \<noteq> ''END''"
  by (simp add: file_line_def)

lemma parse_files_back:
  "list_all wf_file fs \<Longrightarrow>
     parse_files (concat (map file_lines fs) @ [''END'']) acc = Inr (acc @ fs, [''END''])"
proof (induction fs arbitrary: acc)
  case (Cons f fs)
  then have f: "wf_file f" and cs: "list_all wf_chunk (chunks f)"
    and n: "unat (word_of_nat (length (chunks f)) :: u64) = length (chunks f)"
    by (auto simp: wf_file_def unat_of_nat)
  show ?case
    using Cons parse_chunks_back [OF cs]
    by (simp add: file_lines_def file_line_not_END parse_file_line_back [OF f] n)
qed simp

lemma good_file_lines: "wf_file f \<Longrightarrow> \<forall>l \<in> set (file_lines f). good_line l"
proof -
  assume f: "wf_file f"
  have "good_line (file_line f)"
    unfolding file_line_def
    by (rule good_unwords)
      (use f in \<open>simp_all add: wf_file_def token_literals isSha256Hex_token hex_token safe_rel_nonempty\<close>)
  moreover have "good_line (chunk_line c)" if "c \<in> set (chunks f)" for c
  proof -
    have "wf_chunk c" using f that by (auto simp: wf_file_def list_all_iff)
    then show ?thesis
      unfolding chunk_line_def by (intro good_unwords) (simp_all add: chunk_tokens token_literals)
  qed
  moreover have "good_line ''END_FILE''" using good_unwords [of "[''END_FILE'']"] by (simp add: token_literals)
  ultimately show ?thesis by (auto simp: file_lines_def)
qed

lemma good_manifest_lines: "wf_manifest m \<Longrightarrow> \<forall>l \<in> set (manifest_lines m). good_line l"
proof -
  assume m: "wf_manifest m"
  have two: "good_line (unwords [k, v])" if "token k" "token v" for k v
    by (rule good_unwords) (use that in simp_all)
  have one: "good_line ''DPC_MANIFEST_V1''" "good_line ''END''"
    using good_unwords [of "[''DPC_MANIFEST_V1'']"] good_unwords [of "[''END'']"] by (simp_all add: token_literals)
  show ?thesis
    using m one good_file_lines
    by (auto simp: manifest_lines_def wf_manifest_def list_all_iff simp del: unwords.simps
        intro!: two token_literals token_mode hex_token)
qed

lemma parse_serialize:
  assumes "wf_manifest m"
  shows "parse (serialize m) = Inr m"
proof -
  have lines: "splitLines (serialize m) = manifest_lines m"
    unfolding serialize_lines by (rule splitLines_lines [OF good_manifest_lines [OF assms]])
  have n: "length (files m) < 2 ^ 64" "list_all wf_file (files m)" "source_root m \<noteq> []"
    using assms by (simp_all add: wf_manifest_def)
  then have "unat (word_of_nat (length (files m)) :: u64) = length (files m)" by (simp add: unat_of_nat)
  moreover have "mode_toString (chunking m) \<noteq> ''fixed'' \<Longrightarrow> mode_toString (chunking m) = ''cdc''"
      "chunkingModeFromString (mode_toString (chunking m)) = chunking m"
    by (cases "chunking m"; simp add: mode_toString_def chunkingModeFromString_def)+
  ultimately show ?thesis
    using n parse_files_back [OF n(2), of "[]"]
    by (auto simp: parse_def lines manifest_lines_def consume_line token_literals token_mode hex_token
        parseNumber_dec parseNumber_dec_nat str_hex.decode_enc simp del: unwords.simps)
qed

section \<open>What the parser accepts\<close>

lemma parse_chunk_line_wf: "parse_chunk_line tag line = Inr (tag', c) \<Longrightarrow> wf_chunk c"
  by (auto simp: parse_chunk_line_def res_simps wf_chunk_def split: prod.splits if_splits dest: safe_relI)

lemma parse_file_line_wf:
  "parse_file_line line = Inr (f, n) \<Longrightarrow> safe_rel (relative_path f) \<and> isSha256Hex (file_sha256 f)"
  by (auto simp: parse_file_line_def res_simps split: prod.splits if_splits dest: safe_relI)

lemma parse_chunks_wf:
  "parse_chunks lines n tag acc = Inr (cs, rest) \<Longrightarrow> list_all wf_chunk acc \<Longrightarrow>
     list_all wf_chunk cs \<and> length cs = length acc + n"
  by (induction lines n tag acc rule: parse_chunks.induct)
    (auto simp: res_simps split: if_splits prod.splits dest: parse_chunk_line_wf)

lemma parse_files_wf:
  "parse_files lines acc = Inr (fs, rest) \<Longrightarrow> list_all wf_file acc \<Longrightarrow> list_all wf_file fs"
proof (induction lines acc rule: parse_files.induct)
  case (2 line lines acc)
  show ?case
  proof (cases "line = ''END''")
    case False
    then obtain f n cs r where f: "parse_file_line line = Inr (f, n)"
      and cs: "parse_chunks lines (unat n) ''FILE'' [] = Inr (cs, ''END_FILE'' # r)"
      and rest: "parse_files r (acc @ [f\<lparr>chunks := cs\<rparr>]) = Inr (fs, rest)"
      using "2.prems"(1) by (auto simp: res_simps split: if_splits prod.splits)
    have "unat n < 2 ^ 64" using unsigned_less [of n, where ?'a = nat] by simp
    then have "wf_file (f\<lparr>chunks := cs\<rparr>)"
      using parse_file_line_wf [OF f] parse_chunks_wf [OF cs] by (simp add: wf_file_def)
    then show ?thesis
      using "2.IH" [OF False f refl cs refl refl] rest "2.prems"(2) by simp
  qed (use "2.prems" in auto)
qed simp

lemma consume_nonempty: "consume key lines = Inr (v, rest) \<Longrightarrow> v \<noteq> []"
  by (auto simp: consume_def res_simps case_prod_beta Let_def split: if_splits)

lemma parse_wf:
  assumes "parse text = Inr m"
  shows "wf_manifest m"
proof -
  obtain t1 l1 t2 l2 r n where
    root: "consume ''source_root_hex'' l1 = Inr (t1, l2)" "hexDecodeString t1 = Inr (source_root m)"
    and fs: "parse_files t2 [] = Inr (files m, r)"
    and n: "length (files m) = unat (n :: u64)"
    using assms by (auto simp: parse_def Let_def res_simps split: prod.splits if_splits)
  have "source_root m \<noteq> []"
    using consume_nonempty [OF root(1)] root(2) str_hex.decode_length [of t1] by auto
  moreover have "length (files m) < 2 ^ 64"
    using n unsigned_less [of n, where ?'a = nat] by simp
  ultimately show ?thesis using parse_files_wf [OF fs] by (simp add: wf_manifest_def)
qed

section \<open>Properties\<close>

text \<open>C23: a manifest is read back as it was written. \<open>parse\<close> of the serialized text gives the manifest
  exactly when it is well formed: it has a source root, its file and object paths are non-empty
  relative paths without traversal, and its hashes are 64 hex digits. Nothing else is lost or
  refused.\<close>

theorem manifest_round_trip:
  "parse (serialize m) = Inr m \<longleftrightarrow> wf_manifest m"
  using parse_serialize parse_wf by blast

text \<open>C24: every manifest the parser accepts is well formed, whatever the text: a damaged or hostile
  file cannot bring in a path outside its root or a malformed hash.\<close>

theorem parse_accepts_well_formed:
  assumes "parse text = Inr m"
  shows "source_root m \<noteq> []
    \<and> (\<forall>f \<in> set (files m). safe_rel (relative_path f) \<and> isSha256Hex (file_sha256 f)
        \<and> (\<forall>c \<in> set (chunks f). safe_rel (object_path c) \<and> isSha256Hex (chunk_sha256 c)))"
  using parse_wf [OF assms] by (auto simp: wf_manifest_def wf_file_def wf_chunk_def list_all_iff)

definition sample_manifest :: manifest where
  "sample_manifest = \<lparr>m_version = 1, created_at = 5, chunking = Fixed, source_root = ''s'',
     total_input_bytes = 1, total_stored_bytes = 2,
     files = [\<lparr>relative_path = ''a'', file_size = 1, file_mode = 420,
                file_sha256 = replicate 64 (CHR ''a''), chunks = []\<rparr>]\<rparr>"

lemma sample_manifest_wf: "wf_manifest sample_manifest"
proof -
  have "safe_path [''a'']" by (rule safe_path_plain) (simp_all add: plain_name_def dot_def dotdot_def)
  from safeRelativePath_join [OF this] have "safe_rel ''a''"
    by (simp add: safe_relI)
  then show ?thesis
    by (simp add: sample_manifest_def wf_manifest_def wf_file_def isSha256Hex_def list_all_iff isxdigit_def char_code_def)
qed

theorem parse_accepts_well_formed_witness:
  "parse (serialize sample_manifest) = Inr sample_manifest \<and> source_root sample_manifest \<noteq> []"
proof -
  have "parse (serialize sample_manifest) = Inr sample_manifest"
    by (rule parse_serialize [OF sample_manifest_wf])
  then show ?thesis using parse_accepts_well_formed [of "serialize sample_manifest"] by simp
qed

end
