(* ===== verification/DPC_Store.thy ===== *)
theory DPC_Store
  imports DPC_Manifest
begin

text \<open>
  Manifests and commit markers on the disk: the rest of src/core/ManifestStore.cpp and
  src/metadata/CommitMarker.cpp. A version is committed when its marker is there; the lemmas say
  which markers the listing sees, that the next version is a new one, and where on the disk the
  files of a version are.
\<close>

section \<open>Names and paths\<close>

definition zeroPadVersion :: "u64 \<Rightarrow> string" where
  "zeroPadVersion version =
     (let digits = dec_word version in replicate (6 - length digits) (CHR ''0'') @ digits)"

definition versionFileName :: "u64 \<Rightarrow> string \<Rightarrow> string" where
  "versionFileName version suffix = ''version-'' @ zeroPadVersion version @ suffix"

definition manifestPath :: "path \<Rightarrow> u64 \<Rightarrow> path" where
  "manifestPath repo version = repo @ [''manifests'', versionFileName version ''.manifest'']"

definition tmpManifestPath :: "path \<Rightarrow> u64 \<Rightarrow> path" where
  "tmpManifestPath repo version = repo @ [''tmp'', versionFileName version ''.manifest.tmp'']"

definition commitPath :: "path \<Rightarrow> u64 \<Rightarrow> path" where
  "commitPath repo version = repo @ [''manifests'', versionFileName version ''.commit'']"

section \<open>Reading the store\<close>

text \<open>The loop over the directory; \<open>k\<close> is the place of an entry.\<close>

fun list_loop :: "fs \<Rightarrow> path list \<Rightarrow> u64 list \<Rightarrow> u64 list res" where
  "list_loop d [] versions = Inr versions"
| "list_loop d (k # ks) versions =
     (if \<not> (case node_at d k of Some (File _ _) \<Rightarrow> True | _ \<Rightarrow> False) then list_loop d ks versions
      else
       (let name = last k in
        if take 8 name \<noteq> ''version-'' \<or> length name \<noteq> length ''version-000001.commit''
        then list_loop d ks versions
        else if drop (length name - 7) name \<noteq> ''.commit'' then list_loop d ks versions
        else rbind (parseNumber (take 6 (drop 8 name)) ''version'') (\<lambda>v.
               list_loop d ks (versions @ [v]))))"

definition listCommittedVersions :: "fs \<Rightarrow> path \<Rightarrow> u64 list res" where
  "listCommittedVersions d repo =
     (let dir = repo @ [''manifests''] in
      if \<not> exists_path d dir then Inr []
      else if \<not> is_dir d dir then Inl (StdException ''directory iterator cannot open directory'')
      else rbind (list_loop d (directory_entries d dir) []) (\<lambda>versions. Inr (sort versions)))"

definition nextVersion :: "fs \<Rightarrow> path \<Rightarrow> u64 res" where
  "nextVersion d repo =
     rbind (listCommittedVersions d repo) (\<lambda>versions.
       if versions = [] then Inr 1 else Inr (last versions + 1))"

definition isCommitted :: "fs \<Rightarrow> path \<Rightarrow> u64 \<Rightarrow> bool" where
  "isCommitted d repo version = exists_path d (commitPath repo version)"

definition load :: "fs \<Rightarrow> path \<Rightarrow> u64 \<Rightarrow> manifest res" where
  "load d repo version =
     (if \<not> isCommitted d repo version
      then Inl (DpcError (''version is not committed: '' @ dec_word version))
      else rbind (readTextFile d (manifestPath repo version)) parse)"

section \<open>Writing the store\<close>

definition writeTmp :: "path \<Rightarrow> u64 \<Rightarrow> manifest \<Rightarrow> unit act" where
  "writeTmp repo version m = writeTextAtomic (tmpManifestPath repo version) (serialize m) 0x1a4"

definition renameTmpToManifest :: "path \<Rightarrow> u64 \<Rightarrow> unit act" where
  "renameTmpToManifest repo version =
     (let tmp = tmpManifestPath repo version; final = manifestPath repo version in
      io_seq (ensureDirectory (butlast final)) (
      io_seq (sys ''rename manifest failed'' (rename_call (walk tmp) (walk final))) (
      fsyncDirectory (butlast final))))"

definition writeAtomic :: "path \<Rightarrow> manifest \<Rightarrow> unit act" where
  "writeAtomic repo m = writeTextAtomic (manifestPath repo (m_version m)) (serialize m) 0x1a4"

definition marker_create :: "path \<Rightarrow> u64 \<Rightarrow> unit act" where
  "marker_create repo version = writeTextAtomic (commitPath repo version) (''committed'' @ [nl]) 0x1a4"

definition marker_exists :: "fs \<Rightarrow> path \<Rightarrow> u64 \<Rightarrow> bool" where
  "marker_exists d repo version = exists_path d (commitPath repo version)"

definition marker_listCommittedVersions :: "fs \<Rightarrow> path \<Rightarrow> u64 list res" where
  "marker_listCommittedVersions d repo = listCommittedVersions d repo"

section \<open>Version names\<close>

lemma zeroPad_digits: "list_all isdigit (zeroPadVersion v)" "zeroPadVersion v \<noteq> []"
proof -
  have "isdigit (CHR ''0'')" by (simp add: isdigit_def char_code_def)
  then show "list_all isdigit (zeroPadVersion v)"
    by (auto simp: zeroPadVersion_def Let_def list_all_iff dest: dec_isdigit)
  show "zeroPadVersion v \<noteq> []" by (simp add: zeroPadVersion_def Let_def)
qed

lemma dec_val_zeroPad: "dec_val (zeroPadVersion v) = unat v"
  by (simp add: zeroPadVersion_def Let_def dec_val_zeros)

lemma zeroPad_inj: "zeroPadVersion v = zeroPadVersion u \<longleftrightarrow> v = u"
  by (metis dec_val_zeroPad unsigned_word_eqI)

lemma versionFileName_inj: "versionFileName v s = versionFileName u s \<longleftrightarrow> v = u"
  by (simp add: versionFileName_def zeroPad_inj)

lemma length_zeroPad: "unat v < 10 ^ 6 \<Longrightarrow> length (zeroPadVersion v) = 6"
  using length_dec_le [of "unat v" 6] by (simp add: zeroPadVersion_def Let_def)

lemma length_zeroPad_long: "10 ^ 6 \<le> unat v \<Longrightarrow> 6 < length (zeroPadVersion v)"
  using length_dec_ge [of 6 "unat v"] by (simp add: zeroPadVersion_def Let_def)

lemma zeroPad_of_digits:
  assumes "list_all isdigit s" and "length s = 6" and "unat v = dec_val s"
  shows "zeroPadVersion v = s"
proof -
  have "s \<noteq> []" using assms(2) by auto
  then show ?thesis using digits_as_padded_dec [of s] assms by (simp add: zeroPadVersion_def Let_def)
qed

lemma versionFileName_plain:
  assumes "slash \<notin> set suffix"
  shows "plain_name (versionFileName v suffix)"
proof -
  have "slash \<notin> set (zeroPadVersion v)"
    using zeroPad_digits(1) [of v] by (auto simp: list_all_iff isdigit_def char_code_def)
  then show ?thesis using assms by (simp add: plain_name_def versionFileName_def dot_def dotdot_def)
qed

lemma stoull_digits:
  assumes "list_all isdigit s" and "s \<noteq> []" and "dec_val s < 2 ^ 64"
  shows "stoull s = Inr (word_of_nat (dec_val s))"
proof -
  obtain c cs where s: "s = c # cs" and c: "isdigit c" using assms(1,2) by (cases s) auto
  then have "skipws s = s" by (simp add: skipws_def isdigit_not_space)
  moreover have "sign_of s = (False, s)" using s c by (simp add: sign_of_digit)
  moreover have tw: "takeWhile isdigit s = s" using assms(1) by (simp add: list_all_iff)
  ultimately show ?thesis using assms unfolding stoull_def by (simp only: tw Let_def prod.case) simp
qed

lemma parse_version_digits:
  assumes "length s = 6"
  shows "parseNumber s f = Inr (v :: u64) \<longleftrightarrow> s = zeroPadVersion v \<and> unat v < 10 ^ 6"
proof
  assume p: "parseNumber s f = Inr v"
  then have dig: "list_all isdigit s" "s \<noteq> []" by (auto simp: parseNumber_def split: if_splits)
  have lt: "dec_val s < 10 ^ 6" using dec_val_lt [OF dig(1)] assms by simp
  then have "stoull s = Inr (word_of_nat (dec_val s))" by (intro stoull_digits dig) simp
  moreover have "unat (word_of_nat (dec_val s) :: u64) = dec_val s" using lt by (simp add: unat_of_nat)
  ultimately have "v = word_of_nat (dec_val s)" "unat v = dec_val s"
    using p dig by (auto simp: parseNumber_def split: if_splits)
  then show "s = zeroPadVersion v \<and> unat v < 10 ^ 6"
    using zeroPad_of_digits [OF dig(1) assms] lt by simp
next
  assume s: "s = zeroPadVersion v \<and> unat v < 10 ^ 6"
  then have "stoull s = Inr (word_of_nat (unat v))"
    using stoull_digits [of s] zeroPad_digits [of v] dec_val_zeroPad [of v] by simp
  moreover have "\<not> 18446744073709551616 \<le> unat v" using s by simp
  ultimately show "parseNumber s f = Inr v"
    using s zeroPad_digits [of v] by (simp add: parseNumber_def)
qed

section \<open>The listing\<close>

definition is_marker :: "fs \<Rightarrow> path \<Rightarrow> u64 \<Rightarrow> bool" where
  "is_marker d k v \<longleftrightarrow> (case node_at d k of Some (File _ _) \<Rightarrow> True | _ \<Rightarrow> False)
     \<and> last k = versionFileName v ''.commit'' \<and> unat v < 10 ^ 6"

definition marker_form :: "string \<Rightarrow> bool" where
  "marker_form name \<longleftrightarrow> take 8 name = ''version-'' \<and> length name = length ''version-000001.commit''
     \<and> drop (length name - 7) name = ''.commit''"

lemma marker_form_iff:
  "marker_form name \<longleftrightarrow> take 8 name = ''version-'' \<and> length name = 21 \<and> drop 14 name = ''.commit''"
proof -
  have l: "length ''version-000001.commit'' = 21" by simp
  show ?thesis unfolding marker_form_def l by auto
qed

lemma marker_name:
  assumes "marker_form name"
  shows "name = ''version-'' @ take 6 (drop 8 name) @ ''.commit''"
proof -
  have l: "length name = 21" and pre: "take 8 name = ''version-''"
    and post: "drop 14 name = ''.commit''"
    using assms by (simp_all add: marker_form_iff)
  have "name = take 8 name @ take 6 (drop 8 name) @ drop 6 (drop 8 name)"
    by (metis append_take_drop_id)
  moreover have "drop 6 (drop 8 name) = ''.commit''" using post l by simp
  ultimately show ?thesis using pre by metis
qed

lemma marker_name_back:
  assumes "unat v < 10 ^ 6"
  shows "take 8 (versionFileName v ''.commit'') = ''version-''"
    and "length (versionFileName v ''.commit'') = 21"
    and "drop 14 (versionFileName v ''.commit'') = ''.commit''"
    and "take 6 (drop 8 (versionFileName v ''.commit'')) = zeroPadVersion v"
  using length_zeroPad [OF assms] by (simp_all add: versionFileName_def)

lemma list_loop_step:
  "list_loop d (k # ks) acc =
     (if (case node_at d k of Some (File _ _) \<Rightarrow> True | _ \<Rightarrow> False) \<and> marker_form (last k)
      then rbind (parseNumber (take 6 (drop 8 (last k))) ''version'') (\<lambda>v. list_loop d ks (acc @ [v]))
      else list_loop d ks acc)"
  unfolding list_loop.simps marker_form_def Let_def by argo

lemma list_loop_spec:
  "list_loop d ks acc = Inr vs \<Longrightarrow> \<exists>us. vs = acc @ us \<and> (\<forall>v. v \<in> set us \<longleftrightarrow> (\<exists>k \<in> set ks. is_marker d k v))"
proof (induction ks arbitrary: acc)
  case (Cons k ks)
  let ?reg = "case node_at d k of Some (File _ _) \<Rightarrow> True | _ \<Rightarrow> False"
  let ?name = "last k"
  show ?case
  proof (cases "?reg \<and> marker_form ?name")
    case True
    obtain v where v: "parseNumber (take 6 (drop 8 ?name)) ''version'' = Inr v"
      and rest: "list_loop d ks (acc @ [v]) = Inr vs"
      using Cons.prems True by (auto simp: list_loop_step res_simps simp del: list_loop.simps)
    obtain us where us: "vs = (acc @ [v]) @ us" "\<forall>u. u \<in> set us \<longleftrightarrow> (\<exists>k \<in> set ks. is_marker d k u)"
      using Cons.IH [OF rest] by blast
    have nm: "?name = ''version-'' @ take 6 (drop 8 ?name) @ ''.commit''"
      using marker_name True by blast
    have "length (take 6 (drop 8 ?name)) = 6" using True by (simp add: marker_form_iff)
    then have "take 6 (drop 8 ?name) = zeroPadVersion v" "unat v < 10 ^ 6"
      using v parse_version_digits by blast+
    then have m: "is_marker d k v" using nm True by (simp add: is_marker_def versionFileName_def)
    have "u = v" if "is_marker d k u" for u
      using that m by (simp add: is_marker_def versionFileName_inj)
    then have "is_marker d k u \<longleftrightarrow> u = v" for u using m by blast
    then show ?thesis using us by (intro exI [of _ "v # us"]) simp
  next
    case False
    have no: "\<not> is_marker d k v" for v
      using False marker_name_back [of v] by (auto simp: is_marker_def marker_form_iff)
    have "list_loop d ks acc = Inr vs"
      using Cons.prems False by (auto simp: list_loop_step simp del: list_loop.simps)
    then show ?thesis using Cons.IH no by auto
  qed
qed simp

text \<open>The directories of a repository, as places.\<close>

lemma plain_literals [simp]:
  "plain_name ''manifests''" "plain_name ''objects''" "plain_name ''metadata''" "plain_name ''sessions''"
  "plain_name ''tmp''" "plain_name ''checkpoint.dat''" "plain_name ''wal.log''"
  by (simp_all add: plain_name_def dot_def dotdot_def)

lemma plain_version_names [simp]:
  "plain_name (versionFileName v ''.manifest'')" "plain_name (versionFileName v ''.commit'')"
  "plain_name (versionFileName v ''.manifest.tmp'')"
  by (auto intro: versionFileName_plain)

lemma walk_version_paths:
  "walk (manifestPath repo v) = walk repo @ [''manifests'', versionFileName v ''.manifest'']"
  "walk (commitPath repo v) = walk repo @ [''manifests'', versionFileName v ''.commit'']"
  "walk (tmpManifestPath repo v) = walk repo @ [''tmp'', versionFileName v ''.manifest.tmp'']"
  by (simp_all add: manifestPath_def commitPath_def tmpManifestPath_def walk_plain)

lemma marker_place:
  assumes "unat v < 10 ^ 6"
  shows "(\<exists>k \<in> set (directory_entries d (repo @ [''manifests''])). is_marker d k v) \<longleftrightarrow>
    is_regular d (commitPath repo v)"
proof -
  have dir: "walk (repo @ [''manifests'']) = walk repo @ [''manifests'']" by (simp add: walk_plain)
  have "k = walk (commitPath repo v)"
    if "k \<in> set (directory_entries d (repo @ [''manifests'']))" "is_marker d k v" for k
  proof -
    have "k \<noteq> []" "butlast k = walk repo @ [''manifests'']" "last k = versionFileName v ''.commit''"
      using that by (auto simp: directory_entries_iff is_marker_def dir)
    then have "k = (walk repo @ [''manifests'']) @ [versionFileName v ''.commit'']"
      by (metis append_butlast_last_id)
    then show ?thesis by (simp add: walk_version_paths)
  qed
  moreover have "walk (commitPath repo v) \<in> set (directory_entries d (repo @ [''manifests'']))"
    if "is_regular d (commitPath repo v)"
    using that by (auto simp: directory_entries_iff is_regular_def dir walk_version_paths butlast_append
        split: option.splits node.splits dest!: node_at_key)
  moreover have "is_marker d (walk (commitPath repo v)) v \<longleftrightarrow> is_regular d (commitPath repo v)"
    using assms by (simp add: is_marker_def is_regular_def walk_version_paths)
  ultimately show ?thesis by metis
qed

lemma listCommittedVersions_mem:
  assumes "listCommittedVersions d repo = Inr vs"
  shows "v \<in> set vs \<longleftrightarrow> unat v < 10 ^ 6 \<and> is_dir d (repo @ [''manifests'']) \<and> is_regular d (commitPath repo v)"
proof (cases "is_dir d (repo @ [''manifests''])")
  case True
  then have "exists_path d (repo @ [''manifests''])" by (simp add: is_dir_def exists_path_def)
  then obtain us where us: "list_loop d (directory_entries d (repo @ [''manifests''])) [] = Inr us" "vs = sort us"
    using assms True by (auto simp: listCommittedVersions_def Let_def res_simps)
  then have "v \<in> set vs \<longleftrightarrow> (\<exists>k \<in> set (directory_entries d (repo @ [''manifests''])). is_marker d k v)"
    using list_loop_spec [OF us(1)] by auto
  then show ?thesis using True marker_place [of v d repo] by (auto simp: is_marker_def)
next
  case False
  then have "vs = []" using assms by (auto simp: listCommittedVersions_def Let_def split: if_splits)
  then show ?thesis using False by simp
qed

lemma listCommittedVersions_sorted: "listCommittedVersions d repo = Inr vs \<Longrightarrow> sorted vs"
  by (auto simp: listCommittedVersions_def Let_def res_simps split: if_splits)

lemma sorted_last: "sorted vs \<Longrightarrow> v \<in> set vs \<Longrightarrow> v \<le> last vs"
  by (induction vs) auto

lemma nextVersion_above:
  assumes "nextVersion d repo = Inr n" and "listCommittedVersions d repo = Inr vs"
  shows "0 < n \<and> unat n \<le> 10 ^ 6 \<and> (\<forall>v \<in> set vs. v < n)"
proof (cases "vs = []")
  case True
  then show ?thesis using assms by (auto simp: nextVersion_def)
next
  case False
  have n: "n = last vs + 1" using assms False by (simp add: nextVersion_def)
  have "last vs \<in> set vs" using False by simp
  then have lt: "unat (last vs) < 10 ^ 6" using listCommittedVersions_mem [OF assms(2)] by blast
  have un: "unat n = unat (last vs) + 1"
    unfolding n using lt by (simp add: unat_word_ariths)
  have "v \<le> last vs" if "v \<in> set vs" for v
    using that listCommittedVersions_sorted [OF assms(2)] by (intro sorted_last)
  then have "v < n" if "v \<in> set vs" for v
    using that un by (fastforce simp: word_less_nat_alt word_le_nat_alt)
  then show ?thesis using un lt by (simp add: word_less_nat_alt)
qed

section \<open>Properties\<close>

text \<open>C32: the listing is the markers. When \<open>listCommittedVersions\<close> returns, a version below one
  million is in its answer exactly when the version's commit marker is a regular file of the
  manifests directory; no other version is, and the answer is in ascending order. Temporary
  files, manifests and other names of the directory do not count.\<close>

theorem listing_exact:
  assumes "listCommittedVersions d repo = Inr vs"
  shows "sorted vs \<and> set vs = {v. unat v < 10 ^ 6 \<and> is_dir d (repo @ [''manifests'']) \<and> is_regular d (commitPath repo v)}"
  using listCommittedVersions_sorted [OF assms] listCommittedVersions_mem [OF assms] by blast

definition sample_store :: fs where
  "sample_store =
     [([''r''], Directory), ([''r'', ''manifests''], Directory),
      ([''r'', ''manifests'', ''version-1000000.commit''], File [] 0x1a4),
      ([''r'', ''manifests'', ''version-999999.commit''], File [] 0x1a4),
      ([''r'', ''manifests'', ''version-000001.commit''], File [] 0x1a4),
      ([''r'', ''manifests'', ''version-000001.commit.tmp.7.1''], File [] 0x1a4)]"

lemma sample_numbers:
  "parseNumber ''000001'' f = Inr (1 :: u64)" "parseNumber ''999999'' f = Inr (999999 :: u64)"
  by (simp_all add: parseNumber_def stoull_def skipws_def sign_of_def isspace_def isdigit_def char_code_def
      dec_val_def digit_val_def)

lemma walk_r: "walk ([''r''] @ cs) = foldl walk_step [''r''] cs" "walk [''r''] = [''r'']"
  by (simp_all add: walk_def walk_step_def dot_def dotdot_def)

lemma sample_dir:
  "walk ([''r''] @ [''manifests'']) = [''r'', ''manifests'']"
  "is_dir sample_store ([''r''] @ [''manifests''])"
  "directory_entries sample_store ([''r''] @ [''manifests'']) =
     [[''r'', ''manifests'', ''version-1000000.commit''], [''r'', ''manifests'', ''version-999999.commit''],
      [''r'', ''manifests'', ''version-000001.commit''],
      [''r'', ''manifests'', ''version-000001.commit.tmp.7.1'']]"
proof -
  show w: "walk ([''r''] @ [''manifests'']) = [''r'', ''manifests'']"
    by (simp add: walk_def walk_step_def dot_def dotdot_def)
  show "is_dir sample_store ([''r''] @ [''manifests''])"
    unfolding is_dir_def w by (simp add: sample_store_def node_at_def)
  show "directory_entries sample_store ([''r''] @ [''manifests'']) =
     [[''r'', ''manifests'', ''version-1000000.commit''], [''r'', ''manifests'', ''version-999999.commit''],
      [''r'', ''manifests'', ''version-000001.commit''],
      [''r'', ''manifests'', ''version-000001.commit.tmp.7.1'']]"
    unfolding directory_entries_def w by (simp add: sample_store_def)
qed

lemma sample_listing: "listCommittedVersions sample_store [''r''] = Inr [1, 999999]"
proof -
  have "list_loop sample_store (directory_entries sample_store ([''r''] @ [''manifests''])) [] = Inr [999999, 1]"
    unfolding sample_dir
    by (simp add: sample_store_def node_at_def sample_numbers)
  moreover have "\<not> (999999 :: u64) \<le> 1" by (simp add: word_le_nat_alt)
  ultimately show ?thesis
    using sample_dir(2) by (simp add: listCommittedVersions_def Let_def exists_path_def is_dir_def)
qed

lemma sample_next: "nextVersion sample_store [''r''] = Inr 1000000"
  by (simp add: nextVersion_def sample_listing)

lemma sample_decimals: "dec (Suc 0) = ''1''" "dec 1000000 = ''1000000''"
  by (simp_all add: dec.simps digit_char_def char_of_eq_iff)

lemma sample_names:
  "versionFileName 1 ''.commit'' = ''version-000001.commit''"
  "versionFileName 1000000 ''.commit'' = ''version-1000000.commit''"
  by (simp_all add: versionFileName_def zeroPadVersion_def sample_decimals Let_def) (simp add: numeral_eq_Suc)

lemma sample_marker: "is_regular sample_store (commitPath [''r''] 1)"
  unfolding is_regular_def walk_version_paths walk_r sample_names by (simp add: sample_store_def node_at_def)

theorem listing_exact_witness:
  "listCommittedVersions sample_store [''r''] = Inr [1, 999999] \<and> is_regular sample_store (commitPath [''r''] 1)"
  using sample_listing sample_marker listing_exact [OF sample_listing] by blast

text \<open>A new backup never takes the number of a listed one. \<open>nextVersion\<close> is greater than every
  committed version the listing shows, is never 0, and its own marker is not there unless it has
  left the six digits.\<close>

lemma nextVersion_fresh:
  assumes "nextVersion d repo = Inr n"
  shows "0 < n \<and> (\<forall>v. unat v < 10 ^ 6 \<longrightarrow> is_dir d (repo @ [''manifests'']) \<longrightarrow> is_regular d (commitPath repo v) \<longrightarrow> v < n)"
proof -
  obtain vs where vs: "listCommittedVersions d repo = Inr vs"
    using assms by (auto simp: nextVersion_def res_simps)
  show ?thesis using nextVersion_above [OF assms vs] listCommittedVersions_mem [OF vs] by blast
qed

text \<open>The version numbers stop at one million. A version of seven digits is committed by the test
  \<open>isCommitted\<close> but its marker is never listed, so that in the repository of the example, where
  versions 999999 and 1000000 are both committed, the next version is 1000000 again.\<close>

lemma seven_digit_version_unlisted:
  "(\<forall>d repo vs v. listCommittedVersions d repo = Inr vs \<longrightarrow> 10 ^ 6 \<le> unat v \<longrightarrow> v \<notin> set vs)
   \<and> isCommitted sample_store [''r''] 1000000 \<and> nextVersion sample_store [''r''] = Inr 1000000"
proof (intro conjI)
  show "\<forall>d repo vs v. listCommittedVersions d repo = Inr vs \<longrightarrow> 10 ^ 6 \<le> unat v \<longrightarrow> v \<notin> set vs"
    using listCommittedVersions_mem by fastforce
  show "isCommitted sample_store [''r''] 1000000"
    unfolding isCommitted_def exists_path_def walk_version_paths walk_r sample_names
    by (simp add: sample_store_def node_at_def)
  show "nextVersion sample_store [''r''] = Inr 1000000" by (rule sample_next)
qed

end
