(* ===== verification/DPC_Objects.thy ===== *)
theory DPC_Objects
  imports DPC_Store
begin

text \<open>
  The content-addressed objects: src/core/ObjectStore.cpp. An object is the compressed form of a
  chunk under a path made of the chunk's SHA-256; reading it back checks the hash. The contract
  a backup and a restore rely on (what was put is what is read, whatever is put or appended
  later) is the locale \<open>object_store\<close>, met here by the code's \<open>putRaw\<close> and \<open>readRaw\<close>. The set
  \<open>durable\<close> of places, which a backup in progress must leave alone, is defined here too.
\<close>

section \<open>Operations\<close>

record put_result =
  pr_sha :: string
  pr_path :: string
  pr_raw_size :: u64
  pr_compressed_size :: u64
  pr_inserted :: bool

record store_stats =
  object_count :: u64
  stored_bytes :: u64

definition ensureLayout :: "path \<Rightarrow> unit act" where
  "ensureLayout repo =
     io_seq (ensureDirectory (repo @ [''objects''])) (
     io_seq (ensureDirectory (repo @ [''manifests''])) (
     io_seq (ensureDirectory (repo @ [''metadata'', ''sessions''])) (
     ensureDirectory (repo @ [''tmp'']))))"

definition objectPathForHash :: "string \<Rightarrow> string res" where
  "objectPathForHash sha =
     rbind (requireSha256Hex sha ''sha256'') (\<lambda>_.
       Inr (''objects/'' @ take 2 sha @ ''/'' @ sha @ ''.zst''))"

definition absoluteObjectPath :: "path \<Rightarrow> string \<Rightarrow> path res" where
  "absoluteObjectPath repo opath =
     rbind (safeRelativePath opath ''object_path'') (\<lambda>safe.
       if safe = [] \<or> hd safe \<noteq> ''objects''
       then Inl (DpcError ''object_path must stay under objects/'') else Inr (repo @ safe))"

definition readRaw :: "third_party \<Rightarrow> fs \<Rightarrow> path \<Rightarrow> string \<Rightarrow> string \<Rightarrow> bytes res" where
  "readRaw T d repo sha opath =
     rbind (objectPathForHash sha) (\<lambda>expected_path.
     if opath \<noteq> expected_path
     then Inl (DpcError (''object path does not match chunk hash: '' @ opath))
     else rbind (absoluteObjectPath repo opath) (\<lambda>abs.
     if \<not> exists_path d abs then Inl (DpcError (''object missing: '' @ opath))
     else rbind (readFile d abs) (\<lambda>compressed.
     rbind (decompress T compressed 0) (\<lambda>raw.
     rbind (sha256Hex T raw) (\<lambda>actual.
     if actual \<noteq> sha then Inl (DpcError (''object checksum mismatch: '' @ opath))
     else Inr raw)))))"

definition putCompressed :: "third_party \<Rightarrow> path \<Rightarrow> string \<Rightarrow> bytes \<Rightarrow> u64 \<Rightarrow> put_result act" where
  "putCompressed T repo sha compressed raw_sz =
     io_seq (ensureLayout repo) (
     io_seq (io_lift (requireSha256Hex sha ''sha256'')) (
     io_bind (io_lift (objectPathForHash sha)) (\<lambda>rel.
     io_bind (io_lift (absoluteObjectPath repo rel)) (\<lambda>abs.
     let result = \<lparr>pr_sha = sha, pr_path = rel, pr_raw_size = raw_sz,
                   pr_compressed_size = word_of_nat (length compressed), pr_inserted = False\<rparr> in
     io_bind (io_get (\<lambda>w. exists_path (disk w) abs)) (\<lambda>there.
     if there then
       io_bind (io_query (\<lambda>w. readRaw T (disk w) repo sha rel)) (\<lambda>raw.
       if word_of_nat (length raw) \<noteq> raw_sz
       then io_throw (DpcError (''existing object raw size mismatch: '' @ sha))
       else io_bind (io_query (\<lambda>w. fileSize (disk w) abs)) (\<lambda>stored.
         io_return (result\<lparr>pr_inserted := False, pr_compressed_size := stored\<rparr>)))
     else
       io_seq (writeFileAtomic abs compressed 0x1a4)
         (io_return (result\<lparr>pr_inserted := True\<rparr>)))))))"

definition putRaw :: "third_party \<Rightarrow> path \<Rightarrow> bytes \<Rightarrow> put_result act" where
  "putRaw T repo raw =
     io_bind (io_lift (sha256Hex T raw)) (\<lambda>sha.
     io_bind (io_lift (compress T raw 3)) (\<lambda>compressed.
     putCompressed T repo sha compressed (word_of_nat (length raw))))"

fun stats_loop :: "fs \<Rightarrow> path list \<Rightarrow> store_stats \<Rightarrow> store_stats res" where
  "stats_loop d [] out = Inr out"
| "stats_loop d (k # ks) out =
     (case node_at d k of
        Some (File c _) \<Rightarrow>
          stats_loop d ks (out\<lparr>object_count := object_count out + 1,
                               stored_bytes := stored_bytes out + word_of_nat (length c)\<rparr>)
      | _ \<Rightarrow> stats_loop d ks out)"

definition object_stats :: "fs \<Rightarrow> path \<Rightarrow> store_stats res" where
  "object_stats d repo =
     (let root = repo @ [''objects'']; out = \<lparr>object_count = 0, stored_bytes = 0\<rparr> in
      if \<not> exists_path d root then Inr out
      else if \<not> is_dir d root then Inl (StdException ''recursive directory iterator cannot open directory'')
      else stats_loop d (recursive_entries d root) out)"

section \<open>Where an object is\<close>

definition object_names :: "string \<Rightarrow> string list" where
  "object_names sha = [''objects'', take 2 sha, sha @ ''.zst'']"

lemma object_names_plain:
  assumes "isSha256Hex sha"
  shows "list_all plain_name (object_names sha)" and "list_all (\<lambda>c. CHR 0x00 \<notin> set c) (object_names sha)"
proof -
  have len: "length sha = 64" and hex: "list_all isxdigit sha" using assms by (simp_all add: isSha256Hex_def)
  have x: "isxdigit c" if "c \<in> set sha" for c using hex that by (simp add: list_all_iff)
  have no: "\<not> isxdigit slash" "\<not> isxdigit (CHR ''.'')" "\<not> isxdigit (CHR 0x00)"
    by (simp_all add: isxdigit_def isdigit_def char_code_def)
  have chars: "slash \<notin> set sha" "CHR ''.'' \<notin> set sha" "CHR 0x00 \<notin> set sha" using x no by blast+
  have sub: "set (take 2 sha) \<subseteq> set sha" by (rule set_take_subset)
  have ne: "take 2 sha \<noteq> []" using len by auto
  have "plain_name (take 2 sha)"
    using ne sub chars by (intro plain_name_token) auto
  moreover have "plain_name (sha @ ''.zst'')"
    using chars by (simp add: plain_name_def dot_def dotdot_def append_eq_Cons_conv)
  ultimately show "list_all plain_name (object_names sha)" by (simp add: object_names_def)
  show "list_all (\<lambda>c. CHR 0x00 \<notin> set c) (object_names sha)"
    using chars sub by (auto simp: object_names_def)
qed

lemma objectPathForHash_join:
  "objectPathForHash sha = Inr p \<longleftrightarrow> isSha256Hex sha \<and> p = join_path (object_names sha)"
proof -
  have "take 2 sha \<noteq> [slash]" if "isSha256Hex sha"
    using object_names_plain(1) [OF that] by (auto simp: object_names_def plain_name_def)
  then show ?thesis by (auto simp: objectPathForHash_def res_simps object_names_def)
qed

lemma absoluteObjectPath_object:
  assumes "isSha256Hex sha"
  shows "absoluteObjectPath repo (join_path (object_names sha)) = Inr (repo @ object_names sha)"
proof -
  have "safe_path (object_names sha)"
    using object_names_plain [OF assms] by (intro safe_path_plain) (simp_all add: object_names_def)
  then show ?thesis
    by (simp add: absoluteObjectPath_def safeRelativePath_join) (simp add: object_names_def)
qed

definition object_place :: "path \<Rightarrow> string \<Rightarrow> path" where
  "object_place repo sha = walk repo @ object_names sha"

lemma walk_object: "isSha256Hex sha \<Longrightarrow> walk (repo @ object_names sha) = object_place repo sha"
  using object_names_plain(1) by (simp add: walk_plain object_place_def)

text \<open>Reading an object is reading the file at its place and checking the hash.\<close>

lemma readRaw_Inr:
  "readRaw T d repo sha p = Inr raw \<longleftrightarrow>
     isSha256Hex sha \<and> p = join_path (object_names sha)
     \<and> (\<exists>c m. node_at d (object_place repo sha) = Some (File c m) \<and> decompress T c 0 = Inr raw)
     \<and> sha256Hex T raw = Inr sha"
proof (cases "isSha256Hex sha \<and> p = join_path (object_names sha)")
  case True
  then show ?thesis
    by (auto simp: readRaw_def res_simps objectPathForHash_join absoluteObjectPath_object
        exists_path_def walk_object)
qed (auto simp: readRaw_def res_simps objectPathForHash_join)

section \<open>What a backup must leave alone\<close>

text \<open>
  The manifests and markers of the versions in \<open>V\<close>, and every object. All their names end in the
  letter t, no temporary name does.
\<close>

definition durable :: "path \<Rightarrow> u64 set \<Rightarrow> path set" where
  "durable repo V =
     {walk repo @ [''manifests'', versionFileName v s] | v s. v \<in> V \<and> s \<in> {''.manifest'', ''.commit''}}
     \<union> {object_place repo sha | sha. isSha256Hex sha}"

lemma durable_last: "k \<in> durable repo V \<Longrightarrow> k \<noteq> [] \<and> last k \<noteq> [] \<and> last (last k) = CHR ''t''"
  by (auto simp: durable_def object_place_def object_names_def versionFileName_def)

lemma durable_cases:
  assumes "k \<in> durable repo V"
  obtains v where "v \<in> V" and "k = walk repo @ [''manifests'', versionFileName v ''.manifest'']"
  | v where "v \<in> V" and "k = walk repo @ [''manifests'', versionFileName v ''.commit'']"
  | sha where "isSha256Hex sha" and "k = object_place repo sha"
  using assms by (auto simp: durable_def)

lemma object_durable: "isSha256Hex sha \<Longrightarrow> object_place repo sha \<in> durable repo V"
  by (auto simp: durable_def)

lemma version_durable:
  "v \<in> V \<Longrightarrow> walk (manifestPath repo v) \<in> durable repo V" "v \<in> V \<Longrightarrow> walk (commitPath repo v) \<in> durable repo V"
  by (auto simp: durable_def walk_version_paths)

lemma temp_name_last: "temp_name f p n \<noteq> [] \<and> last (temp_name f p n) \<noteq> CHR ''t''"
proof -
  have "last (dec n) \<in> set (dec n)" by simp
  then have "isdigit (last (dec n))" by (rule dec_isdigit)
  then show ?thesis by (auto simp: temp_name_def isdigit_def char_code_def)
qed

lemma temp_not_durable:
  assumes "list_all plain_name cs" and "cs \<noteq> []" and "temp_of (p @ cs) t"
  shows "t \<notin> durable repo V"
proof
  assume t: "t \<in> durable repo V"
  obtain process tick where "t = walk p @ butlast cs @ [temp_name (last cs) process tick]"
    using temp_of_plain [OF assms] by blast
  then show False using durable_last [OF t] temp_name_last [of "last cs" process tick] by simp
qed

lemma not_durable_dir:
  "c \<noteq> ''manifests'' \<Longrightarrow> c \<noteq> ''objects'' \<Longrightarrow> walk repo @ c # cs \<notin> durable repo V"
  by (auto simp: durable_def object_place_def object_names_def)

lemma new_version_not_durable:
  "v \<notin> V \<Longrightarrow> s \<in> {''.manifest'', ''.commit''} \<Longrightarrow> walk repo @ [''manifests'', versionFileName v s] \<notin> durable repo V"
proof
  assume v: "v \<notin> V" "s \<in> {''.manifest'', ''.commit''}"
    and d: "walk repo @ [''manifests'', versionFileName v s] \<in> durable repo V"
  have ne: "x @ ''.manifest'' \<noteq> y @ ''.commit''" for x y
  proof
    assume "x @ ''.manifest'' = y @ ''.commit''"
    from arg_cong [OF this, of rev] show False by simp
  qed
  from d v show False
    using ne [of "''version-'' @ zeroPadVersion v"] ne [of _ "''version-'' @ zeroPadVersion v"]
    by (auto simp: durable_def object_place_def object_names_def versionFileName_inj)
      (auto simp: versionFileName_def)
qed

lemma keeps_ensureLayout [keeps_intro]: "keeps (on_disk (kept K d0)) (ensureLayout repo)"
  unfolding ensureLayout_def by (intro keeps_seq keeps_ensureDirectory_kept)

lemma keeps_writeFileAtomic_durable:
  assumes "list_all plain_name cs" and "cs \<noteq> []" and "walk p @ cs \<notin> durable repo V"
  shows "keeps (on_disk (kept (durable repo V) d0)) (writeFileAtomic (p @ cs) data mode)"
  using assms temp_not_durable [OF assms(1,2)] by (intro keeps_writeFileAtomic_kept) (simp_all add: walk_plain)

section \<open>Putting an object\<close>

text \<open>
  \<open>stored T d repo r data\<close>: the answer \<open>r\<close> of a put names an object of the disk that reads back,
  and reads back as \<open>data\<close> when this put inserted it.
\<close>

definition stored_ok :: "third_party \<Rightarrow> fs \<Rightarrow> path \<Rightarrow> string \<Rightarrow> bytes \<Rightarrow> u64 \<Rightarrow> put_result \<Rightarrow> bool" where
  "stored_ok T d repo sha compressed n r \<longleftrightarrow>
     isSha256Hex sha \<and> pr_sha r = sha \<and> pr_path r = join_path (object_names sha) \<and> pr_raw_size r = n
     \<and> (if pr_inserted r
        then (\<exists>m. node_at d (object_place repo sha) = Some (File compressed m))
          \<and> pr_compressed_size r = word_of_nat (length compressed)
        else (\<exists>raw. readRaw T d repo sha (pr_path r) = Inr raw \<and> word_of_nat (length raw) = n))"

lemma object_temp_not_durable:
  "isSha256Hex sha \<Longrightarrow> temp_of (repo @ object_names sha) t \<Longrightarrow> t \<notin> durable repo V"
  using temp_not_durable [OF object_names_plain(1)] by (simp add: object_names_def)

lemma new_object_write:
  assumes "isSha256Hex sha" and "\<And>c m. node_at d0 (object_place repo sha) \<noteq> Some (File c m)"
  shows "triple (on_disk (kept (durable repo V) d0)) (writeFileAtomic (repo @ object_names sha) data mode)
    (\<lambda>_ w. kept (durable repo V) d0 (disk w) \<and> (\<exists>m. node_at (disk w) (object_place repo sha) = Some (File data m)))
    (on_disk (kept (durable repo V) d0))"
  using writeFileAtomic_survives [OF survives_kept [of "repo @ object_names sha"]]
    object_temp_not_durable [OF assms(1)] assms
  by (simp add: walk_object)

lemma putCompressed_bad_hash:
  assumes "\<not> isSha256Hex sha"
  shows "triple (on_disk (kept (durable repo V) d0)) (putCompressed T repo sha compressed n) Q
    (on_disk (kept (durable repo V) d0))"
proof -
  let ?K = "on_disk (kept (durable repo V) d0)"
  from assms have "putCompressed T repo sha compressed n =
      io_seq (ensureLayout repo) (io_throw (DpcError ''sha256 must be a 64-character SHA-256 hex string''))"
    by (simp add: putCompressed_def requireSha256Hex_def io_lift_steps)
  moreover have "triple ?K (ensureLayout repo) (\<lambda>_. ?K) ?K"
    using keeps_ensureLayout by (simp add: keeps_triple)
  moreover have "triple ?K (io_throw e) Q ?K" for e
    by (intro tripleI) simp_all
  ultimately show ?thesis by (simp only:) (rule triple_seq)
qed

text \<open>The branch that writes: the object is not there, so it is none of those that are kept.\<close>

lemma putCompressed_new:
  assumes sha: "isSha256Hex sha"
    and out: "\<And>d m. node_at d (object_place repo sha) = Some (File compressed m) \<Longrightarrow> stored_ok T d repo sha compressed n out"
  shows "triple (\<lambda>w. kept (durable repo V) d0 (disk w) \<and> \<not> exists_path (disk w) (repo @ object_names sha))
     (io_seq (writeFileAtomic (repo @ object_names sha) compressed 0x1a4) (io_return out))
     (\<lambda>r w. kept (durable repo V) d0 (disk w) \<and> stored_ok T (disk w) repo sha compressed n r)
     (on_disk (kept (durable repo V) d0))"
    (is "triple (\<lambda>w. ?K w \<and> \<not> exists_path (disk w) ?abs) ?write ?Q ?E")
proof (cases "\<exists>c m. node_at d0 (object_place repo sha) = Some (File c m)")
  case there: True
  have "\<not> (?K w \<and> \<not> exists_path (disk w) ?abs)" for w
    using there keptD [OF _ object_durable [OF sha]] by (auto simp: exists_path_def walk_object sha)
  then show ?thesis by (intro tripleI) blast+
next
  case False
  have fin: "triple (\<lambda>w. kept (durable repo V) d0 (disk w)
      \<and> (\<exists>m. node_at (disk w) (object_place repo sha) = Some (File compressed m))) (io_return out) ?Q ?E"
    using out by (intro tripleI) auto
  have "triple ?E ?write ?Q ?E"
    by (rule triple_seq [OF new_object_write [OF sha] fin]) (use False in blast)
  then show ?thesis by (rule triple_conseq) auto
qed

lemma putCompressed_triple:
  "triple (on_disk (kept (durable repo V) d0)) (putCompressed T repo sha compressed n)
     (\<lambda>r w. kept (durable repo V) d0 (disk w) \<and> stored_ok T (disk w) repo sha compressed n r)
     (on_disk (kept (durable repo V) d0))"
proof (cases "isSha256Hex sha")
  case False
  then show ?thesis by (rule putCompressed_bad_hash)
next
  case True
  let ?K = "on_disk (kept (durable repo V) d0)" and ?rel = "join_path (object_names sha)"
  let ?abs = "repo @ object_names sha"
  obtain out where out_def: "out = \<lparr>pr_sha = sha, pr_path = ?rel, pr_raw_size = n,
      pr_compressed_size = word_of_nat (length compressed), pr_inserted = False\<rparr>" by blast
  let ?Q = "\<lambda>r w. kept (durable repo V) d0 (disk w) \<and> stored_ok T (disk w) repo sha compressed n r"
  have body: "putCompressed T repo sha compressed n = io_seq (ensureLayout repo)
      (io_bind (io_get (\<lambda>w. exists_path (disk w) ?abs)) (\<lambda>there.
       if there then
         io_bind (io_query (\<lambda>w. readRaw T (disk w) repo sha ?rel)) (\<lambda>raw.
         if word_of_nat (length raw) \<noteq> n
         then io_throw (DpcError (''existing object raw size mismatch: '' @ sha))
         else io_bind (io_query (\<lambda>w. fileSize (disk w) ?abs)) (\<lambda>sz.
           io_return (out\<lparr>pr_inserted := False, pr_compressed_size := sz\<rparr>)))
       else io_seq (writeFileAtomic ?abs compressed 0x1a4) (io_return (out\<lparr>pr_inserted := True\<rparr>))))"
    using True objectPathForHash_join [of sha ?rel] absoluteObjectPath_object [OF True, of repo]
    by (simp add: putCompressed_def requireSha256Hex_def io_lift_steps Let_def out_def cong: if_cong)
  have old: "triple ?K (io_bind (io_query (\<lambda>w. readRaw T (disk w) repo sha ?rel)) (\<lambda>raw.
         if word_of_nat (length raw) \<noteq> n
         then io_throw (DpcError (''existing object raw size mismatch: '' @ sha))
         else io_bind (io_query (\<lambda>w. fileSize (disk w) ?abs)) (\<lambda>sz.
           io_return (out\<lparr>pr_inserted := False, pr_compressed_size := sz\<rparr>)))) ?Q ?K"
    by (intro tripleI)
      (auto simp: res_simps io_bind_def stored_ok_def out_def True split: if_splits sum.splits)
  have new: "triple (\<lambda>w. ?K w \<and> \<not> exists_path (disk w) ?abs)
      (io_seq (writeFileAtomic ?abs compressed 0x1a4) (io_return (out\<lparr>pr_inserted := True\<rparr>))) ?Q ?K"
    by (rule putCompressed_new [OF True]) (auto simp: stored_ok_def out_def True)
  have get: "triple ?K (io_get (\<lambda>w. exists_path (disk w) ?abs))
      (\<lambda>there w. ?K w \<and> (there \<longleftrightarrow> exists_path (disk w) ?abs)) ?K"
    by (intro tripleI) auto
  have lay: "triple ?K (ensureLayout repo) (\<lambda>_. ?K) ?K"
    using keeps_ensureLayout by (simp add: keeps_triple)
  have branch: "triple (\<lambda>w. ?K w \<and> (there \<longleftrightarrow> exists_path (disk w) ?abs)) (if there then m1 else m2) ?Q ?K"
    if "triple ?K m1 ?Q ?K" "triple (\<lambda>w. ?K w \<and> \<not> exists_path (disk w) ?abs) m2 ?Q ?K" for there m1 m2
    using that by (cases there) (auto intro: triple_conseq)
  show ?thesis
    unfolding body by (rule triple_seq [OF lay triple_bind [OF get branch [OF old new]]])
qed

lemma putRaw_triple:
  "triple (on_disk (kept (durable repo V) d0)) (putRaw T repo raw)
     (\<lambda>r w. kept (durable repo V) d0 (disk w) \<and>
        (\<exists>sha c. sha256Hex T raw = Inr sha \<and> compress T raw 3 = Inr c
          \<and> stored_ok T (disk w) repo sha c (word_of_nat (length raw)) r))
     (on_disk (kept (durable repo V) d0))"
proof (cases "sha256Hex T raw")
  case (Inr sha)
  show ?thesis
  proof (cases "compress T raw 3")
    case (Inr c)
    have "putRaw T repo raw = putCompressed T repo sha c (word_of_nat (length raw))"
      using Inr \<open>sha256Hex T raw = Inr sha\<close> by (simp add: putRaw_def io_lift_steps)
    then show ?thesis
      using putCompressed_triple [of repo V d0 T sha c "word_of_nat (length raw)"] Inr \<open>sha256Hex T raw = Inr sha\<close>
      by (auto intro: triple_conseq)
  qed (use Inr in \<open>auto intro!: tripleI simp: putRaw_def io_lift_steps\<close>)
qed (auto intro!: tripleI simp: putRaw_def io_lift_steps)

lemma keeps_putRaw [keeps_intro]: "keeps (on_disk (kept (durable repo V) d0)) (putRaw T repo raw)"
  unfolding keeps_triple using putRaw_triple by (rule triple_conseq) auto

lemma keeps_putCompressed [keeps_intro]:
  "keeps (on_disk (kept (durable repo V) d0)) (putCompressed T repo sha c n)"
  unfolding keeps_triple using putCompressed_triple by (rule triple_conseq) auto

section \<open>The contract of the store\<close>

text \<open>
  What a backup and a restore rely on. \<open>put\<close> of good data that returns leaves an object which is
  read as data with the same hash; a calm step (a put, or anything else that leaves the objects
  alone) does not change what is read. So everything put so far stays readable.
\<close>

locale object_store =
  fixes put :: "bytes \<Rightarrow> ('w, 'r) io" and get :: "'w \<Rightarrow> 'r \<Rightarrow> bytes res"
    and calm :: "'w \<Rightarrow> 'w \<Rightarrow> bool" and good :: "bytes \<Rightarrow> bool" and same :: "bytes \<Rightarrow> bytes \<Rightarrow> bool"
  assumes put_get: "put raw w = (Inr r, w') \<Longrightarrow> good raw \<Longrightarrow> \<exists>x. get w' r = Inr x \<and> same x raw"
    and put_calm: "calm w (snd (put raw w))"
    and calm_get: "calm w w' \<Longrightarrow> get w r = Inr x \<Longrightarrow> get w' r = Inr x"
begin

definition holds :: "'w \<Rightarrow> 'r list \<Rightarrow> bytes list \<Rightarrow> bool" where
  "holds w rs raws \<longleftrightarrow> list_all2 (\<lambda>r raw. \<exists>x. get w r = Inr x \<and> same x raw) rs raws"

lemma holds_Nil: "holds w [] []"
  by (simp add: holds_def)

lemma holds_calm: "calm w w' \<Longrightarrow> holds w rs raws \<Longrightarrow> holds w' rs raws"
  unfolding holds_def by (erule list_all2_mono) (blast dest: calm_get)

lemma holds_put:
  assumes "holds w rs raws" and "put raw w = (Inr r, w')" and "good raw"
  shows "holds w' (rs @ [r]) (raws @ [raw])"
proof -
  have "holds w' rs raws" using put_calm [of w raw] assms(1,2) by (auto intro: holds_calm)
  then show ?thesis using put_get [OF assms(2,3)] by (simp add: holds_def list_all2_appendI)
qed

lemma holds_append: "holds w rs raws \<Longrightarrow> holds w rs' raws' \<Longrightarrow> holds w (rs @ rs') (raws @ raws')"
  unfolding holds_def by (rule list_all2_appendI)

lemma holds_get:
  assumes "holds w rs raws"
  shows "\<exists>xs. rmap (get w) rs = Inr xs \<and> list_all2 same xs raws"
  using assms unfolding holds_def
  by (induction rs raws rule: list_all2_induct) auto

end

definition fits :: "third_party \<Rightarrow> bytes \<Rightarrow> bool" where
  "fits T raw \<longleftrightarrow> zstd_ok T \<and> length raw < 2 ^ 62"

definition same_hash :: "third_party \<Rightarrow> bytes \<Rightarrow> bytes \<Rightarrow> bool" where
  "same_hash T x raw \<longleftrightarrow> sha256Hex T x = sha256Hex T raw
     \<and> (word_of_nat (length x) :: u64) = word_of_nat (length raw)"

definition object_get :: "third_party \<Rightarrow> path \<Rightarrow> world \<Rightarrow> put_result \<Rightarrow> bytes res" where
  "object_get T repo w r = readRaw T (disk w) repo (pr_sha r) (pr_path r)"

definition objects_kept :: "path \<Rightarrow> world \<Rightarrow> world \<Rightarrow> bool" where
  "objects_kept repo w w' \<longleftrightarrow> kept {object_place repo sha | sha. isSha256Hex sha} (disk w) (disk w')"

lemma kept_durable_objects:
  "kept (durable repo V) d d' \<Longrightarrow> kept {object_place repo sha | sha. isSha256Hex sha} d d'"
  by (erule kept_mono) (auto simp: durable_def)

lemma readRaw_kept:
  "kept {object_place repo sha | sha. isSha256Hex sha} d d' \<Longrightarrow> readRaw T d repo sha p = Inr x \<Longrightarrow>
     readRaw T d' repo sha p = Inr x"
  unfolding readRaw_Inr by (blast dest: keptD)

interpretation objects: object_store "putRaw T repo" "object_get T repo" "objects_kept repo" "fits T" "same_hash T"
  for T repo
proof
  fix raw r and w w' :: world and x
  show "objects_kept repo w (snd (putRaw T repo raw w))"
    using keepsD [OF keeps_putRaw [of repo UNIV "disk w" T raw], of w]
    by (auto simp: objects_kept_def intro: kept_durable_objects)
  show "objects_kept repo w w' \<Longrightarrow> object_get T repo w r = Inr x \<Longrightarrow> object_get T repo w' r = Inr x"
    unfolding objects_kept_def object_get_def by (rule readRaw_kept)
  assume run: "putRaw T repo raw w = (Inr r, w')" and fits: "fits T raw"
  obtain sha c where sha: "sha256Hex T raw = Inr sha" and c: "compress T raw 3 = Inr c"
    and ok: "stored_ok T (disk w') repo sha c (word_of_nat (length raw)) r"
    using tripleD_Inr [OF putRaw_triple [of repo UNIV "disk w" T raw] _ run] by auto
  show "\<exists>x. object_get T repo w' r = Inr x \<and> same_hash T x raw"
  proof (cases "pr_inserted r")
    case True
    have "decompress T c 0 = Inr raw"
      using fits decompress_compress(1) [OF _ _ c] by (simp add: fits_def)
    then have "object_get T repo w' r = Inr raw"
      using ok True sha by (auto simp: object_get_def stored_ok_def readRaw_Inr)
    then show ?thesis by (simp add: same_hash_def)
  next
    case False
    then obtain x where "readRaw T (disk w') repo sha (pr_path r) = Inr x" "pr_sha r = sha"
        "(word_of_nat (length x) :: u64) = word_of_nat (length raw)"
      using ok by (auto simp: stored_ok_def)
    then show ?thesis using sha by (auto simp: object_get_def same_hash_def readRaw_Inr)
  qed
qed

section \<open>An instance of the libraries\<close>

text \<open>
  For examples: a codec that stores the data as it is, and a digest of the first 32 bytes.
\<close>

definition toy :: third_party where
  "toy = \<lparr>sha256 = (\<lambda>d. take 32 (d @ replicate 32 0)), zstd_bound = (\<lambda>n. n),
     zstd_compress = (\<lambda>cap d level. Inr d),
     zstd_decompress = (\<lambda>cap c. if length c \<le> cap then Inr c else Inl ''too small''),
     zstd_frame_size = (\<lambda>c. word_of_nat (length c))\<rparr>"

lemma toy_ok: "zstd_ok toy" "sha_ok toy"
  by (simp_all add: toy_def zstd_ok_def sha_ok_def min_def)

definition quiet_world :: "fs \<Rightarrow> world" where
  "quiet_world d = \<lparr>disk = d, script = [], steady_clock = [], system_clock = 5, pid = 7, umask = 0x12,
     fault_abort = False, fault_fired = False, sock_in = [], sock_out = []\<rparr>"

lemma disk_quiet [simp]: "disk (quiet_world d) = d"
  by (simp add: quiet_world_def)

section \<open>Properties\<close>

text \<open>C25: what was put is what is read. When \<open>putRaw\<close> returned, with zstd keeping its promises, the
  object it names is read back as data with the SHA-256 and the size of what was put; and so it is
  after a later put, whether that one returned, threw or was cut off.\<close>

theorem put_then_read:
  assumes "zstd_ok T" and "length raw < 2 ^ 62"
  shows "case putRaw T repo raw w of
      (Inl _, _) \<Rightarrow> True
    | (Inr r, w1) \<Rightarrow> \<exists>x. readRaw T (disk (snd (putRaw T repo other w1))) repo (pr_sha r) (pr_path r) = Inr x
        \<and> sha256Hex T x = sha256Hex T raw \<and> (word_of_nat (length x) :: u64) = word_of_nat (length raw)"
proof (cases "putRaw T repo raw w")
  case (Pair out w1)
  show ?thesis
  proof (cases out)
    case (Inr r)
    have "fits T raw" using assms by (simp add: fits_def)
    then obtain x where "object_get T repo w1 r = Inr x" "same_hash T x raw"
      using objects.put_get Pair Inr by blast
    then have "object_get T repo (snd (putRaw T repo other w1)) r = Inr x" "same_hash T x raw"
      using objects.calm_get objects.put_calm by blast+
    then show ?thesis using Pair Inr by (auto simp: object_get_def same_hash_def)
  qed (use Pair in simp)
qed

theorem put_then_read_witness:
  "case putRaw toy [''r''] [1, 2] (quiet_world [([''r''], Directory)]) of
      (Inl _, _) \<Rightarrow> True
    | (Inr r, w1) \<Rightarrow> \<exists>x. readRaw toy (disk (snd (putRaw toy [''r''] [3] w1))) [''r''] (pr_sha r) (pr_path r) = Inr x
        \<and> sha256Hex toy x = sha256Hex toy [1, 2] \<and> (word_of_nat (length x) :: u64) = word_of_nat (length [1, 2 :: byte])"
  by (rule put_then_read [OF toy_ok(1)]) simp

text \<open>Nothing that is stored is ever rewritten. Whatever the environment does to the calls of
  \<open>putCompressed\<close>, every object that was there before is there afterwards with the same bytes, and
  so are the manifests and markers of all versions.\<close>

lemma put_keeps_store:
  "kept (durable repo UNIV) (disk w) (disk (snd (putCompressed T repo sha compressed n w)))"
  using keepsD [OF keeps_putCompressed [of repo UNIV "disk w" T sha compressed n], of w] by simp

text \<open>What is read has the hash it was asked for. When \<open>readRaw\<close> returns data, the hash has the
  form of a SHA-256, the path is the one made from it, and the data's SHA-256 is that hash,
  whatever is on the disk.\<close>

lemma readRaw_checked:
  assumes "readRaw T d repo sha p = Inr raw"
  shows "sha256Hex T raw = Inr sha \<and> objectPathForHash sha = Inr p \<and> isSha256Hex sha"
  using assms by (simp add: readRaw_Inr objectPathForHash_join)

end
