(* ===== verification/DPC_Meta.thy ===== *)
theory DPC_Meta
  imports DPC_Objects
begin

text \<open>
  The rest of src/metadata: the fault injector, the checkpoint file, recovery and compaction.
  The checkpoint is read back as it was written; recovery and compaction leave every committed
  version and every object alone, whatever happens to their calls, and do what they are for when
  they return.
\<close>

section \<open>Fault injection (FaultInjector.cpp)\<close>

datatype fault_stage =
    NoFault
  | AfterBegin
  | AfterObjectWrite
  | AfterManifestWrite
  | AfterManifestRename
  | AfterCommitMarker

fun fault_toString :: "fault_stage \<Rightarrow> string" where
  "fault_toString NoFault = ''none''"
| "fault_toString AfterBegin = ''after-begin''"
| "fault_toString AfterObjectWrite = ''after-object-write''"
| "fault_toString AfterManifestWrite = ''after-manifest-write''"
| "fault_toString AfterManifestRename = ''after-manifest-rename''"
| "fault_toString AfterCommitMarker = ''after-commit-marker''"

definition fault_parse :: "string \<Rightarrow> fault_stage res" where
  "fault_parse val =
     (if val = ''none'' \<or> val = [] then Inr NoFault
      else if val = ''after-begin'' then Inr AfterBegin
      else if val = ''after-object-write'' then Inr AfterObjectWrite
      else if val = ''after-manifest-write'' then Inr AfterManifestWrite
      else if val = ''after-manifest-rename'' then Inr AfterManifestRename
      else if val = ''after-commit-marker'' then Inr AfterCommitMarker
      else Inl (DpcError (''unknown fault stage: '' @ val)))"

text \<open>
  \<open>fault_fired\<close> is the injector's own flag; \<open>fault_abort\<close> says that DPC_FAULT_ABORT is 1 in the
  environment, and then the process ends instead of throwing.
\<close>

definition trigger :: "fault_stage \<Rightarrow> fault_stage \<Rightarrow> unit act" where
  "trigger configured stage w =
     (if configured = NoFault \<or> configured \<noteq> stage \<or> fault_fired w then (Inr (), w)
      else let w1 = w\<lparr>fault_fired := True\<rparr> in
        if fault_abort w1 then (Inl Killed, w1)
        else (Inl (FaultInjectedCrash (''injected crash at '' @ fault_toString stage)), w1))"

lemma fault_parse_toString: "fault_parse (fault_toString s) = Inr s"
  by (cases s) (simp_all add: fault_parse_def)

lemma keeps_trigger [keeps_intro]: "keeps (on_disk D) (trigger c s)"
  by (simp add: keeps_def trigger_def Let_def)

section \<open>The checkpoint (Checkpoint.cpp)\<close>

record checkpoint_data =
  latest_committed_version :: u64
  committed_versions :: "u64 list"

definition checkpointPath :: "path \<Rightarrow> path" where
  "checkpointPath repo = repo @ [''metadata'', ''checkpoint.dat'']"

definition checkpoint_text :: "checkpoint_data \<Rightarrow> string" where
  "checkpoint_text data =
     ''DPC_CHECKPOINT_V1'' @ [nl] @ ''latest_committed_version '' @ dec_word (latest_committed_version data) @ [nl]
       @ ''committed_versions'' @ concat (map (\<lambda>v. '' '' @ dec_word v) (committed_versions data)) @ [nl]"

definition checkpoint_write :: "path \<Rightarrow> checkpoint_data \<Rightarrow> unit act" where
  "checkpoint_write repo data = writeTextAtomic (checkpointPath repo) (checkpoint_text data) 0x1a4"

lemma sign_of_length: "sign_of t = (neg, u) \<Longrightarrow> length u \<le> length t"
  by (cases t) (auto simp: sign_of_def split: if_splits)

lemma extract_word_shorter:
  fixes old :: "'a::len word"
  assumes "extract_word st old = (v, st')" and "\<not> failed st'"
  shows "length (fst st') < length (fst st)"
proof -
  have nf: "\<not> failed st" using assms by (auto simp: extract_word_def)
  let ?t = "skipws (fst st)"
  obtain neg u where s: "sign_of ?t = (neg, u)" by fastforce
  have "?t \<noteq> []" using assms nf by (auto simp: extract_word_def)
  have ds: "takeWhile isdigit u \<noteq> []" and st': "fst st' = dropWhile isdigit u"
    using assms nf s by (auto simp: extract_word_def Let_def split: if_splits)
  have "length u \<le> length ?t" by (rule sign_of_length [OF s])
  also have "\<dots> \<le> length (fst st)" by (simp add: skipws_def length_dropWhile_le)
  finally have "length u \<le> length (fst st)" .
  moreover have "length (takeWhile isdigit u) + length (dropWhile isdigit u) = length u"
    by (metis length_append takeWhile_dropWhile_id)
  ultimately show ?thesis using ds st' by (cases "takeWhile isdigit u") auto
qed

function read_versions :: "istream \<Rightarrow> u64 \<Rightarrow> u64 list \<Rightarrow> u64 list" where
  "read_versions st version versions =
     (let (version', st') = extract_word st version in
      if failed st' then versions else read_versions st' version' (versions @ [version']))"
  by pat_completeness auto
termination
  by (relation "measure (\<lambda>(st, _). length (fst st))") (auto dest: extract_word_shorter [OF sym])

declare read_versions.simps [simp del]

definition checkpoint_parse :: "string \<Rightarrow> checkpoint_data res" where
  "checkpoint_parse text =
     (let (header, in1) = extract_string (istringstream text) [] in
      if header \<noteq> ''DPC_CHECKPOINT_V1'' then Inl (DpcError ''invalid checkpoint header'')
      else let (key, in2) = extract_string in1 []; (latest, in3) = extract_word in2 0 in
      if key \<noteq> ''latest_committed_version'' then Inl (DpcError ''invalid checkpoint latest key'')
      else let (key2, in4) = extract_string in3 key in
      if key2 \<noteq> ''committed_versions'' then Inl (DpcError ''invalid checkpoint versions key'')
      else Inr \<lparr>latest_committed_version = latest, committed_versions = read_versions in4 0 []\<rparr>)"

definition checkpoint_load :: "fs \<Rightarrow> path \<Rightarrow> checkpoint_data res" where
  "checkpoint_load d repo =
     (if \<not> exists_path d (checkpointPath repo)
      then Inr \<lparr>latest_committed_version = 0, committed_versions = []\<rparr>
      else rbind (readTextFile d (checkpointPath repo)) checkpoint_parse)"

lemma read_versions_back:
  "read_versions (concat (map (\<lambda>v. '' '' @ dec_word v) vs) @ [nl], False) v0 acc = acc @ vs"
proof (induction vs arbitrary: v0 acc)
  case Nil
  have "extract_word ([nl], False) v0 = (v0, ([], True))" by (simp add: extract_word_def skipws_def)
  then show ?case by (simp add: read_versions.simps)
next
  case (Cons v vs)
  let ?rest = "concat (map (\<lambda>v. '' '' @ dec_word v) vs) @ [nl]"
  have "token_end ?rest" by (cases vs) simp_all
  from extract_word_dec_word(2) [OF this, of sp v v0]
  show ?case using Cons.IH by (simp add: read_versions.simps [of "(_ # _, _)"])
qed

lemma checkpoint_tokens:
  "token ''DPC_CHECKPOINT_V1''" "token ''latest_committed_version''" "token ''committed_versions''"
  by (simp_all add: token_def isspace_def char_code_def)

lemma checkpoint_parse_text: "checkpoint_parse (checkpoint_text data) = Inr data"
proof -
  let ?vs = "concat (map (\<lambda>v. '' '' @ dec_word v) (committed_versions data)) @ [nl]"
  let ?l3 = "''committed_versions'' @ ?vs"
  let ?l2 = "dec_word (latest_committed_version data) @ nl # ?l3"
  have end3: "token_end ?vs" by (cases "committed_versions data") simp_all
  have 1: "extract_string (''DPC_CHECKPOINT_V1'' @ nl # ''latest_committed_version'' @ sp # ?l2, False) []
      = (''DPC_CHECKPOINT_V1'', (nl # ''latest_committed_version'' @ sp # ?l2, False))"
    by (rule extract_string_token(1) [OF checkpoint_tokens(1)]) simp
  have 2: "extract_string (nl # ''latest_committed_version'' @ sp # ?l2, False) []
      = (''latest_committed_version'', (sp # ?l2, False))"
    by (rule extract_string_token(2) [OF checkpoint_tokens(2)]) simp_all
  have 3: "extract_word (sp # ?l2, False) (0 :: u64) = (latest_committed_version data, (nl # ?l3, False))"
    by (rule extract_word_dec_word(2)) simp_all
  have 4: "extract_string (nl # ?l3, False) old = (''committed_versions'', (?vs, False))" for old
    by (rule extract_string_token(2) [OF checkpoint_tokens(3) end3]) simp
  have body: "checkpoint_text data = ''DPC_CHECKPOINT_V1'' @ nl # ''latest_committed_version'' @ sp # ?l2"
    by (simp add: checkpoint_text_def)
  show ?thesis
    unfolding checkpoint_parse_def body istringstream_def 1 Let_def prod.case 2 3 4 read_versions_back
    by simp
qed

lemma walk_checkpointPath: "walk (checkpointPath repo) = walk repo @ [''metadata'', ''checkpoint.dat'']"
  by (simp add: checkpointPath_def walk_plain)

lemma keeps_checkpoint_write [keeps_intro]:
  "keeps (on_disk (kept (durable repo V) d0)) (checkpoint_write repo data)"
  unfolding checkpoint_write_def writeTextAtomic_def checkpointPath_def
  by (rule keeps_writeFileAtomic_durable) (simp_all add: not_durable_dir)

text \<open>A predicate of the disk that a checkpoint write keeps, and what the write leaves.\<close>

lemma checkpoint_write_ok:
  assumes "survives_write D (checkpointPath repo) (bytes_of_string (checkpoint_text data))" and "D (disk w)"
    and "checkpoint_write repo data w = (Inr u, w')"
  shows "D (disk w') \<and> checkpoint_load (disk w') repo = Inr data"
proof -
  obtain m where "D (disk w')" and
      "node_at (disk w') (walk (checkpointPath repo)) = Some (File (bytes_of_string (checkpoint_text data)) m)"
    using writeFileAtomic_ok [OF assms(1,2)] assms(3)
    unfolding checkpoint_write_def writeTextAtomic_def by blast
  then show ?thesis
    by (simp add: checkpoint_load_def exists_path_def readTextFile_def readFile_def checkpoint_parse_text)
qed

section \<open>Recovery (RecoveryManager.cpp)\<close>

record recovery_report =
  rr_message :: string
  rr_committed_versions :: nat
  rr_removed_tmp_files :: nat

text \<open>The loop over the directory tmp: \<open>std::filesystem::remove\<close> throws when it cannot remove.\<close>

fun remove_tmp :: "path list \<Rightarrow> nat \<Rightarrow> nat act" where
  "remove_tmp [] removed = io_return removed"
| "remove_tmp (k # ks) removed =
     io_bind (io_get (\<lambda>w. node_at (disk w) k)) (\<lambda>n. case n of
       Some (File _ _) \<Rightarrow>
         io_bind (sys_try (unlink_call k)) (\<lambda>r. case r of
             None \<Rightarrow> remove_tmp ks (removed + 1)
           | Some m \<Rightarrow> io_throw (StdException (''cannot remove: '' @ m)))
     | _ \<Rightarrow> remove_tmp ks removed)"

definition latest_of :: "u64 list \<Rightarrow> u64" where
  "latest_of versions = (if versions = [] then 0 else last versions)"

definition recover :: "path \<Rightarrow> recovery_report act" where
  "recover repo =
     io_seq (ensureDirectory (repo @ [''objects''])) (
     io_seq (ensureDirectory (repo @ [''manifests''])) (
     io_seq (ensureDirectory (repo @ [''metadata'', ''sessions''])) (
     io_seq (ensureDirectory (repo @ [''tmp''])) (
     io_seq (io_query (\<lambda>w. readAll (disk w) repo)) (
     let tmp = repo @ [''tmp''] in
     io_bind (io_get (\<lambda>w. exists_path (disk w) tmp)) (\<lambda>there.
     io_bind (if there
              then io_bind (io_get (\<lambda>w. directory_entries (disk w) tmp)) (\<lambda>entries.
                   io_bind (remove_tmp entries 0) (\<lambda>removed.
                   io_seq (fsyncDirectory tmp) (io_return removed)))
              else io_return 0) (\<lambda>removed_tmp.
     io_bind (io_query (\<lambda>w. listCommittedVersions (disk w) repo)) (\<lambda>versions.
     io_seq (checkpoint_write repo
              \<lparr>latest_committed_version = latest_of versions, committed_versions = versions\<rparr>) (
     io_return
       \<lparr>rr_message = ''recovery complete: committed_versions='' @ dec (length versions)
                     @ '' removed_tmp_files='' @ dec removed_tmp,
        rr_committed_versions = length versions, rr_removed_tmp_files = removed_tmp\<rparr>)))))))))"

section \<open>Compaction (MetadataCompactor.cpp)\<close>

definition compact_payload :: "u64 list \<Rightarrow> string" where
  "compact_payload versions =
     ''latest='' @ dec_word (latest_of versions) @ [nl] @ ''versions''
       @ concat (map (\<lambda>v. '' '' @ dec_word v) versions) @ [nl]"

definition compact :: "path \<Rightarrow> unit act" where
  "compact repo =
     io_bind (io_query (\<lambda>w. listCommittedVersions (disk w) repo)) (\<lambda>versions.
     io_seq (checkpoint_write repo
              \<lparr>latest_committed_version = latest_of versions, committed_versions = versions\<rparr>) (
     replaceWith repo
       [\<lparr>wr_type = CheckpointRecord, wr_payload = bytes_of_string (compact_payload versions)\<rparr>,
        \<lparr>wr_type = Compact, wr_payload = bytes_of_string ''compact''\<rparr>]))"

section \<open>What they leave alone\<close>

lemma keeps_remove_tmp:
  assumes "\<And>k. k \<in> set ks \<Longrightarrow> k \<notin> K"
  shows "keeps (on_disk (kept K d0)) (remove_tmp ks n)"
  using assms
proof (induction ks arbitrary: n)
  case (Cons k ks)
  have "keeps (on_disk (kept K d0)) (sys_try (unlink_call k))"
    using Cons.prems by (intro keeps_sys_try)
      (auto simp: unlink_call_def intro!: kept_delete split: option.splits node.splits)
  then show ?case
    using Cons by (auto intro!: keeps_bind keeps_get keeps_throw split: option.splits node.splits)
qed (simp add: keeps_return)

lemma tmp_entries_not_durable: "k \<in> set (directory_entries d (repo @ [''tmp''])) \<Longrightarrow> k \<notin> durable repo V"
proof -
  assume "k \<in> set (directory_entries d (repo @ [''tmp'']))"
  then have "k \<noteq> []" "butlast k = walk repo @ [''tmp'']"
    by (auto simp: directory_entries_iff walk_plain)
  then have "k = walk repo @ ''tmp'' # [last k]" by (metis append.assoc append_Cons append_Nil append_butlast_last_id)
  then show ?thesis using not_durable_dir [of "''tmp''" repo "[last k]" V] by simp
qed

lemma keeps_recover: "keeps (on_disk (kept (durable repo V) d0)) (recover repo)"
proof -
  have rm: "keeps (on_disk (kept (durable repo V) d0))
      (io_bind (io_get (\<lambda>w. directory_entries (disk w) (repo @ [''tmp'']))) (\<lambda>entries.
         io_bind (remove_tmp entries 0) (\<lambda>removed. io_seq (fsyncDirectory (repo @ [''tmp''])) (io_return removed))))"
    by (intro keeps_get_bind keeps_bind keeps_seq keeps_return keeps_fsyncDirectory keeps_remove_tmp)
      (rule tmp_entries_not_durable)
  show ?thesis
    unfolding recover_def Let_def
    by (intro keeps_seq keeps_bind keeps_if rm keeps_intro)
qed

lemma keeps_replaceWith: "keeps (on_disk (kept (durable repo V) d0)) (replaceWith repo rs)"
  unfolding replaceWith_def walPath_def
  by (intro keeps_bind keeps_lift keeps_writeFileAtomic_durable) (simp_all add: not_durable_dir)

lemma keeps_compact: "keeps (on_disk (kept (durable repo V) d0)) (compact repo)"
  unfolding compact_def by (intro keeps_bind keeps_seq keeps_query keeps_checkpoint_write keeps_replaceWith)

section \<open>What recovery does\<close>

lemma is_regular_iff: "is_regular d p \<longleftrightarrow> (\<exists>c m. node_at d (walk p) = Some (File c m))"
  by (auto simp: is_regular_def split: option.splits node.splits)

text \<open>No regular file is directly below tmp.\<close>

definition tmp_empty :: "path \<Rightarrow> fs \<Rightarrow> bool" where
  "tmp_empty repo d \<longleftrightarrow> (\<forall>n c m. node_at d (walk repo @ [''tmp'', n]) \<noteq> Some (File c m))"

lemma remove_tmp_ok:
  "remove_tmp ks n w = (Inr r, w') \<Longrightarrow>
     (\<forall>k \<in> set ks. \<forall>c m. node_at (disk w') k \<noteq> Some (File c m))
     \<and> (\<forall>k. k \<notin> set ks \<longrightarrow> node_at (disk w') k = node_at (disk w) k)
     \<and> (\<forall>k c m. node_at (disk w') k = Some (File c m) \<longrightarrow> node_at (disk w) k = Some (File c m))"
proof (induction ks arbitrary: n w)
  case (Cons k ks)
  show ?case
  proof (cases "\<exists>c m. node_at (disk w) k = Some (File c m)")
    case True
    then obtain c m w1 where k: "node_at (disk w) k = Some (File c m)"
      and u: "sys_try (unlink_call k) w = (Inr None, w1)" and rest: "remove_tmp ks (n + 1) w1 = (Inr r, w')"
      using Cons.prems by (auto simp: res_simps split: option.splits)
    have "disk w1 = AList.delete k (disk w)"
      using sys_try_Inr_None [OF u] k by (auto simp: unlink_call_def)
    moreover have "k \<noteq> []" "k \<noteq> [[slash]]" using node_at_File_root [OF k] by auto
    ultimately have gone: "node_at (disk w1) k = None"
        and other: "k' \<noteq> k \<Longrightarrow> node_at (disk w1) k' = node_at (disk w) k'" for k'
      by (simp_all add: node_at_delete_same)
    have A: "\<forall>k \<in> set ks. \<forall>c m. node_at (disk w') k \<noteq> Some (File c m)"
      and B: "\<forall>k. k \<notin> set ks \<longrightarrow> node_at (disk w') k = node_at (disk w1) k"
      and C: "\<forall>k c m. node_at (disk w') k = Some (File c m) \<longrightarrow> node_at (disk w1) k = Some (File c m)"
      using Cons.IH [OF rest] by blast+
    have old: "node_at (disk w) k' = Some (File c m) \<and> k' \<noteq> k"
      if "node_at (disk w') k' = Some (File c m)" for k' c m
    proof -
      have "node_at (disk w1) k' = Some (File c m)" using C that by blast
      then show ?thesis using gone other [of k'] by (cases "k' = k") auto
    qed
    show ?thesis
    proof (intro conjI ballI allI impI)
      fix k' c m
      assume "k' \<in> set (k # ks)"
      then show "node_at (disk w') k' \<noteq> Some (File c m)" using A old [of k' c m] by auto
    next
      fix k'
      assume "k' \<notin> set (k # ks)"
      then show "node_at (disk w') k' = node_at (disk w) k'" using B other [of k'] by simp
    next
      fix k' c m
      assume "node_at (disk w') k' = Some (File c m)"
      then show "node_at (disk w) k' = Some (File c m)" using old by blast
    qed
  next
    case False
    then have "remove_tmp ks n w = (Inr r, w')"
      using Cons.prems by (auto simp: io_bind_def split: option.splits node.splits)
    from Cons.IH [OF this] False show ?thesis unfolding list.set by blast
  qed
qed simp

text \<open>Everything of the repository but the directory metadata.\<close>

definition outside_metadata :: "path \<Rightarrow> path set" where
  "outside_metadata repo = {walk repo @ c # cs | c cs. c \<noteq> ''metadata''}"

lemma checkpoint_untouched:
  "survives_write (untouched (outside_metadata repo) d0) (checkpointPath repo) data"
proof (rule survives_untouched)
  show "walk (checkpointPath repo) \<notin> outside_metadata repo"
    by (simp add: walk_checkpointPath outside_metadata_def)
  fix t
  assume "temp_of (checkpointPath repo) t"
  then show "t \<notin> outside_metadata repo"
    using temp_of_plain [of "[''metadata'', ''checkpoint.dat'']" repo t]
    by (auto simp: checkpointPath_def outside_metadata_def)
qed

lemma checkpoint_manifests_dir:
  "survives_write (\<lambda>d. node_at d (walk repo @ [''manifests'']) = n) (checkpointPath repo) data"
proof (rule survives_node)
  fix i
  have "butlast (checkpointPath repo) = repo @ [''metadata'']" by (simp add: checkpointPath_def butlast_append)
  then have w: "walk (butlast (checkpointPath repo)) = walk repo @ [''metadata'']" by (simp add: walk_plain)
  show "walk repo @ [''manifests''] \<noteq> take i (walk (butlast (checkpointPath repo)))"
  proof
    assume eq: "walk repo @ [''manifests''] = take i (walk (butlast (checkpointPath repo)))"
    have "(walk repo @ [''manifests'']) @ drop i (walk repo @ [''metadata'']) = walk repo @ [''metadata'']"
      unfolding eq w by (rule append_take_drop_id)
    then show False by simp
  qed
  show "\<not> temp_of (checkpointPath repo) (walk repo @ [''manifests''])"
    using temp_of_plain [of "[''metadata'', ''checkpoint.dat'']" repo "walk repo @ [''manifests'']"]
    by (auto simp: checkpointPath_def)
  show "walk repo @ [''manifests''] \<noteq> walk (checkpointPath repo)" by (simp add: walk_checkpointPath)
qed

lemma untouched_tmp: "untouched (outside_metadata repo) d0 d \<Longrightarrow> tmp_empty repo d = tmp_empty repo d0"
  by (auto simp: untouched_def tmp_empty_def outside_metadata_def)

lemma untouched_marker:
  assumes "untouched (outside_metadata repo) d0 d"
  shows "is_regular d (commitPath repo v) = is_regular d0 (commitPath repo v)"
proof -
  have k: "walk (commitPath repo v) \<in> outside_metadata repo"
    by (simp add: outside_metadata_def walk_version_paths)
  show ?thesis
    unfolding is_regular_iff
  proof (intro ex_cong1)
    fix c m
    show "(node_at d (walk (commitPath repo v)) = Some (File c m))
        = (node_at d0 (walk (commitPath repo v)) = Some (File c m))"
      using assms [unfolded untouched_def, rule_format, OF k, of c m] .
  qed
qed

lemma recover_ok:
  assumes "recover repo w = (Inr report, w')"
  shows "tmp_empty repo (disk w') \<and>
    (\<exists>vs. checkpoint_load (disk w') repo = Inr \<lparr>latest_committed_version = latest_of vs, committed_versions = vs\<rparr>
      \<and> sorted vs \<and> set vs = {v. unat v < 10 ^ 6
           \<and> is_dir (disk w') (repo @ [''manifests'']) \<and> is_regular (disk w') (commitPath repo v)}
      \<and> rr_committed_versions report = length vs)"
proof -
  obtain w0 w1 w2 there removed_tmp vs u where
    made: "ensureDirectory (repo @ [''tmp'']) w0 = (Inr (), w1)"
    and vs: "listCommittedVersions (disk w2) repo = Inr vs"
    and there: "exists_path (disk w1) (repo @ [''tmp'']) = there"
    and rm: "(if there
              then io_bind (io_get (\<lambda>w. directory_entries (disk w) (repo @ [''tmp'']))) (\<lambda>entries.
                   io_bind (remove_tmp entries 0) (\<lambda>removed.
                   io_seq (fsyncDirectory (repo @ [''tmp''])) (io_return removed)))
              else io_return 0) w1 = (Inr removed_tmp, w2)"
    and cp: "checkpoint_write repo \<lparr>latest_committed_version = latest_of vs, committed_versions = vs\<rparr> w2
        = (Inr u, w')"
    and report: "rr_committed_versions report = length vs"
    using assms unfolding recover_def Let_def by (auto simp: res_simps)
  have dir: "walk (repo @ [''tmp'']) = walk repo @ [''tmp'']" by (simp add: walk_plain)
  have "tmp_empty repo (disk w2)"
  proof (cases there)
    case True
    then obtain w3 r where rt: "remove_tmp (directory_entries (disk w1) (repo @ [''tmp''])) 0 w1 = (Inr r, w3)"
      and "fsyncDirectory (repo @ [''tmp'']) w3 = (Inr (), w2)"
      using rm by (auto simp: res_simps)
    then have same: "disk w2 = disk w3"
      by (auto simp: fsyncDirectory_def res_simps open_dir_call_def dest!: sys_Inr fsyncFd_disk split: if_splits)
    have "node_at (disk w3) (walk repo @ [''tmp'', n]) \<noteq> Some (File c m)" for n c m
    proof
      assume f: "node_at (disk w3) (walk repo @ [''tmp'', n]) = Some (File c m)"
      then have "node_at (disk w1) (walk repo @ [''tmp'', n]) = Some (File c m)"
        using remove_tmp_ok [OF rt] by blast
      then have "walk repo @ [''tmp'', n] \<in> set (directory_entries (disk w1) (repo @ [''tmp'']))"
        by (auto simp: directory_entries_iff dir butlast_append dest: node_at_key)
      then show False using remove_tmp_ok [OF rt] f by blast
    qed
    then show ?thesis by (simp add: tmp_empty_def same)
  next
    case False
    then show ?thesis using there ensureDirectory_ok [OF made] by (simp add: exists_path_def)
  qed
  moreover have "untouched (outside_metadata repo) (disk w2) (disk w')
      \<and> node_at (disk w') (walk repo @ [''manifests'']) = node_at (disk w2) (walk repo @ [''manifests''])"
    and load: "checkpoint_load (disk w') repo =
      Inr \<lparr>latest_committed_version = latest_of vs, committed_versions = vs\<rparr>"
    using checkpoint_write_ok [OF survives_conj [OF checkpoint_untouched [of repo "disk w2"]
        checkpoint_manifests_dir [where n = "node_at (disk w2) (walk repo @ [''manifests''])"]] _ cp] by auto
  ultimately have "tmp_empty repo (disk w')" and
      "is_dir (disk w') (repo @ [''manifests'']) = is_dir (disk w2) (repo @ [''manifests''])" and
      "is_regular (disk w') (commitPath repo v) = is_regular (disk w2) (commitPath repo v)" for v
    using untouched_tmp untouched_marker by (blast, simp add: is_dir_def walk_plain, blast)
  then show ?thesis
    using load report listCommittedVersions_mem [OF vs] listCommittedVersions_sorted [OF vs] by auto
qed

section \<open>What compaction does\<close>

lemma compact_ok:
  assumes "compact repo w = (Inr u, w')"
  shows "\<exists>vs. listCommittedVersions (disk w) repo = Inr vs
    \<and> readAll (disk w') repo = Inr [\<lparr>wr_type = CheckpointRecord, wr_payload = bytes_of_string (compact_payload vs)\<rparr>,
        \<lparr>wr_type = Compact, wr_payload = bytes_of_string ''compact''\<rparr>]"
proof -
  obtain vs w1 where vs: "listCommittedVersions (disk w) repo = Inr vs"
    and rep: "replaceWith repo
       [\<lparr>wr_type = CheckpointRecord, wr_payload = bytes_of_string (compact_payload vs)\<rparr>,
        \<lparr>wr_type = Compact, wr_payload = bytes_of_string ''compact''\<rparr>] w1 = (Inr u, w')"
    using assms by (auto simp: compact_def res_simps)
  let ?rs = "[\<lparr>wr_type = CheckpointRecord, wr_payload = bytes_of_string (compact_payload vs)\<rparr>,
        \<lparr>wr_type = Compact, wr_payload = bytes_of_string ''compact''\<rparr>] :: wal_record list"
  obtain es where es: "rmap (\<lambda>r. encodeRecord (wr_type r) (wr_payload r)) ?rs = Inr es"
    and run: "writeFileAtomic (walPath repo) (concat es) 0x1a4 w1 = (Inr u, w')"
    using rep unfolding replaceWith_def by (auto simp only: res_simps io_lift_def)
  have small: "list_all small_record ?rs" and eq: "es = map encoding ?rs"
    using es by (auto simp: res_simps small_record_def encoding_def)
  have "survives_write (\<lambda>_. True) (walPath repo) (concat es)" by (simp add: survives_write_def)
  from writeFileAtomic_ok [OF this _ run]
  obtain m where "node_at (disk w') (walk (walPath repo)) = Some (File (concat es) m)" by blast
  then have "readAll (disk w') repo = Inr ?rs"
    using small eq by (simp add: readAll_log_bytes log_bytes_def readAll_loop_iff)
  then show ?thesis using vs by blast
qed

section \<open>Properties\<close>

text \<open>A stage of the fault injector is parsed back from its name, and a parsed stage has the text it
  was parsed from, the empty text standing for no fault.\<close>

lemma fault_round_trip:
  "fault_parse val = Inr s \<longleftrightarrow> val = fault_toString s \<or> val = [] \<and> s = NoFault"
proof
  assume "fault_parse val = Inr s"
  then show "val = fault_toString s \<or> val = [] \<and> s = NoFault"
    by (auto simp: fault_parse_def split: if_splits)
next
  assume "val = fault_toString s \<or> val = [] \<and> s = NoFault"
  then consider "val = fault_toString s" | "val = []" "s = NoFault" by blast
  then show "fault_parse val = Inr s"
  proof cases
    case 1
    then show ?thesis by (simp only: fault_parse_toString)
  qed (simp add: fault_parse_def)
qed

text \<open>The checkpoint that was written is the checkpoint that is loaded, every version in it and their
  order included.\<close>

lemma checkpoint_round_trip:
  "case checkpoint_write repo data w of
      (Inl _, _) \<Rightarrow> True
    | (Inr _, w') \<Rightarrow> checkpoint_load (disk w') repo = Inr data"
proof (cases "checkpoint_write repo data w")
  case (Pair out w')
  have "survives_write (\<lambda>_. True) (checkpointPath repo) (bytes_of_string (checkpoint_text data))"
    by (simp add: survives_write_def)
  from checkpoint_write_ok [OF this] show ?thesis using Pair by (cases out) auto
qed

text \<open>C22: recovery loses nothing. Whatever the environment does to its calls and wherever it is cut off,
  every object, manifest and marker that was on the disk is there afterwards with the same bytes;
  and when it returns, tmp holds no file and the checkpoint lists, in order, exactly the versions
  whose markers are in the repository.\<close>

theorem recover_keeps_and_cleans:
  "kept (durable repo UNIV) (disk w) (disk (snd (recover repo w)))
   \<and> (case recover repo w of
        (Inl _, _) \<Rightarrow> True
      | (Inr report, w') \<Rightarrow> tmp_empty repo (disk w') \<and>
          (\<exists>vs. checkpoint_load (disk w') repo
                 = Inr \<lparr>latest_committed_version = latest_of vs, committed_versions = vs\<rparr>
             \<and> sorted vs \<and> set vs = {v. unat v < 10 ^ 6
                 \<and> is_dir (disk w') (repo @ [''manifests'']) \<and> is_regular (disk w') (commitPath repo v)}
             \<and> rr_committed_versions report = length vs))"
proof
  show "kept (durable repo UNIV) (disk w) (disk (snd (recover repo w)))"
    using keepsD [OF keeps_recover [of repo UNIV "disk w"], of w] by simp
  show "case recover repo w of
        (Inl _, _) \<Rightarrow> True
      | (Inr report, w') \<Rightarrow> tmp_empty repo (disk w') \<and>
          (\<exists>vs. checkpoint_load (disk w') repo
                 = Inr \<lparr>latest_committed_version = latest_of vs, committed_versions = vs\<rparr>
             \<and> sorted vs \<and> set vs = {v. unat v < 10 ^ 6
                 \<and> is_dir (disk w') (repo @ [''manifests'']) \<and> is_regular (disk w') (commitPath repo v)}
             \<and> rr_committed_versions report = length vs)"
    using recover_ok [of repo w] by (auto split: prod.splits sum.splits)
qed

text \<open>Compaction leaves the store alone however it ends, and when it returns the log is exactly a
  checkpoint record with the listed versions and a compaction record.\<close>

lemma compact_log:
  "kept (durable repo UNIV) (disk w) (disk (snd (compact repo w)))
   \<and> (case compact repo w of
        (Inl _, _) \<Rightarrow> True
      | (Inr _, w') \<Rightarrow> \<exists>vs. listCommittedVersions (disk w) repo = Inr vs
          \<and> readAll (disk w') repo =
              Inr [\<lparr>wr_type = CheckpointRecord, wr_payload = bytes_of_string (compact_payload vs)\<rparr>,
                   \<lparr>wr_type = Compact, wr_payload = bytes_of_string ''compact''\<rparr>])"
proof
  show "kept (durable repo UNIV) (disk w) (disk (snd (compact repo w)))"
    using keepsD [OF keeps_compact [of repo UNIV "disk w"], of w] by simp
  show "case compact repo w of
        (Inl _, _) \<Rightarrow> True
      | (Inr _, w') \<Rightarrow> \<exists>vs. listCommittedVersions (disk w) repo = Inr vs
          \<and> readAll (disk w') repo =
              Inr [\<lparr>wr_type = CheckpointRecord, wr_payload = bytes_of_string (compact_payload vs)\<rparr>,
                   \<lparr>wr_type = Compact, wr_payload = bytes_of_string ''compact''\<rparr>]"
    using compact_ok [of repo w] by (auto split: prod.splits sum.splits)
qed

end
