(* ===== verification/DPC_Backup.thy ===== *)
theory DPC_Backup
  imports DPC_Meta "HOL-Library.List_Lexorder"
begin

text \<open>
  The engines of src/core: scanning a directory, creating a version (BackupEngine), verifying and
  restoring one. A backup in progress leaves every committed version as it was, whatever happens
  to it, and writes nothing outside of its repository; a version whose creation returned
  verifies, and describes every file of the source; a restore that returned leaves the files the
  manifest describes.
\<close>

section \<open>Scanning a directory (FileScanner.cpp)\<close>

text \<open>
  \<open>sf_absolute\<close> is the entry's own path: the working directory does not change, so that
  \<open>std::filesystem::absolute\<close> names the same place. Paths compare by \<open>std::string\<close>, byte by byte.
\<close>

record scanned_file =
  sf_absolute :: path
  sf_relative :: path

definition is_file_place :: "fs \<Rightarrow> path \<Rightarrow> bool" where
  "is_file_place d k \<longleftrightarrow> (case node_at d k of Some (File _ _) \<Rightarrow> True | _ \<Rightarrow> False)"

definition scanned_at :: "path \<Rightarrow> path \<Rightarrow> scanned_file" where
  "scanned_at root k =
     (let names = drop (length (walk root)) k in \<lparr>sf_absolute = root @ names, sf_relative = names\<rparr>)"

definition scanRegularFiles :: "fs \<Rightarrow> path \<Rightarrow> scanned_file list res" where
  "scanRegularFiles d root =
     (if \<not> exists_path d root \<or> \<not> is_dir d root
      then Inl (DpcError (''source path is not a directory: '' @ path_string root))
      else Inr (sort_key (\<lambda>f. map char_code (join_path (sf_relative f)))
             (map (scanned_at root) (filter (is_file_place d) (recursive_entries d root)))))"

section \<open>Creating a version (BackupEngine.cpp)\<close>

record backup_result =
  br_version :: u64
  br_file_count :: u64
  br_total_input_bytes :: u64
  br_total_stored_bytes :: u64
  br_total_chunks :: u64
  br_unique_chunks :: u64
  br_duplicate_chunks :: u64

definition nowSeconds :: "u64 act" where
  "nowSeconds = io_get system_clock"

text \<open>The text of the absolute path; \<open>cwd\<close> are the names of the working directory below the root.\<close>

definition absolute_text :: "path \<Rightarrow> path \<Rightarrow> string res" where
  "absolute_text cwd p =
     (if p = [] then Inl (StdException ''cannot make absolute path'')
      else Inr (path_string (if hd p = [slash] then p else [slash] # cwd @ p)))"

text \<open>
  What the loop over the chunks of a file carries: the hash of the file, the next index, the
  references so far, the manifest's count of stored bytes and the result. The set of hashes the
  loop also fills is never read.
\<close>

record chunk_loop =
  cl_hash :: sha_ctx
  cl_index :: u64
  cl_refs :: "chunk_ref list"
  cl_stored :: u64
  cl_result :: backup_result

definition chunk_ref_of :: "u64 \<Rightarrow> put_result \<Rightarrow> chunk_ref" where
  "chunk_ref_of ix put =
     \<lparr>chunk_index = ix, raw_size = pr_raw_size put, compressed_size = pr_compressed_size put,
      chunk_sha256 = pr_sha put, object_path = pr_path put\<rparr>"

definition count_chunk :: "put_result \<Rightarrow> backup_result \<Rightarrow> backup_result" where
  "count_chunk put r =
     (let r1 = r\<lparr>br_total_chunks := br_total_chunks r + 1\<rparr> in
      if pr_inserted put then r1\<lparr>br_unique_chunks := br_unique_chunks r1 + 1\<rparr>
      else r1\<lparr>br_duplicate_chunks := br_duplicate_chunks r1 + 1\<rparr>)"

definition backup_chunk ::
  "third_party \<Rightarrow> path \<Rightarrow> fault_stage \<Rightarrow> chunk \<Rightarrow> chunk_loop \<Rightarrow> chunk_loop act" where
  "backup_chunk T repo faults c st =
     io_bind (io_lift (sha_update (cl_hash st) (ch_data c))) (\<lambda>hash.
     io_bind (putRaw T repo (ch_data c)) (\<lambda>put.
     io_seq (wal_append_text repo PutObject (pr_sha put @ '' '' @ pr_path put @ [nl])) (
     io_seq (trigger faults AfterObjectWrite) (
     io_return
       \<lparr>cl_hash = hash, cl_index = cl_index st + 1,
        cl_refs = cl_refs st @ [chunk_ref_of (cl_index st) put],
        cl_stored = (if pr_inserted put then cl_stored st + pr_compressed_size put else cl_stored st),
        cl_result = count_chunk put (cl_result st)\<rparr>))))"

definition backup_file ::
  "third_party \<Rightarrow> path \<Rightarrow> chunking_mode \<Rightarrow> fault_stage \<Rightarrow> scanned_file
     \<Rightarrow> manifest \<times> backup_result \<Rightarrow> (manifest \<times> backup_result) act" where
  "backup_file T repo mode faults scanned = (\<lambda>(m, r).
     io_bind (io_query (\<lambda>w. fileSize (disk w) (sf_absolute scanned))) (\<lambda>sz.
     io_bind (io_query (\<lambda>w. fileMode (disk w) (sf_absolute scanned))) (\<lambda>md.
     io_bind (io_query (\<lambda>w. chunkFile (disk w) (sf_absolute scanned) mode)) (\<lambda>cs.
     io_bind (io_fold (backup_chunk T repo faults) cs
               \<lparr>cl_hash = sha_init, cl_index = 0, cl_refs = [], cl_stored = total_stored_bytes m, cl_result = r\<rparr>)
       (\<lambda>st.
     io_bind (io_lift (finalHex T (cl_hash st))) (\<lambda>(hex, _).
     let f = \<lparr>relative_path = join_path (sf_relative scanned), file_size = sz, file_mode = md,
              file_sha256 = hex, chunks = cl_refs st\<rparr> in
     io_return (m\<lparr>total_stored_bytes := cl_stored st, total_input_bytes := total_input_bytes m + sz,
                  files := files m @ [f]\<rparr>, cl_result st)))))))"

definition version_text :: "u64 \<Rightarrow> string" where
  "version_text version = ''version='' @ dec_word version @ [nl]"

definition commit_version ::
  "path \<Rightarrow> fault_stage \<Rightarrow> u64 \<Rightarrow> manifest \<Rightarrow> unit act" where
  "commit_version repo faults version m =
     io_seq (writeTmp repo version m) (
     io_seq (wal_append_text repo WriteManifest (version_text version)) (
     io_seq (trigger faults AfterManifestWrite) (
     io_seq (renameTmpToManifest repo version) (
     io_seq (wal_append_text repo RenameManifest (version_text version)) (
     io_seq (trigger faults AfterManifestRename) (
     io_seq (marker_create repo version) (
     io_seq (trigger faults AfterCommitMarker) (
     io_seq (wal_append_text repo CommitBackup (version_text version)) (
     io_bind (io_query (\<lambda>w. listCommittedVersions (disk w) repo)) (\<lambda>versions.
     checkpoint_write repo
       \<lparr>latest_committed_version = latest_of versions, committed_versions = versions\<rparr>))))))))))"

definition create ::
  "third_party \<Rightarrow> path \<Rightarrow> path \<Rightarrow> path \<Rightarrow> chunking_mode \<Rightarrow> fault_stage \<Rightarrow> backup_result act" where
  "create T cwd source repo mode faults =
     io_seq (ensureLayout repo) (
     io_bind (io_query (\<lambda>w. nextVersion (disk w) repo)) (\<lambda>version.
     io_seq (wal_append_text repo BeginBackup (version_text version)) (
     io_seq (trigger faults AfterBegin) (
     io_bind nowSeconds (\<lambda>now.
     io_bind (io_lift (absolute_text cwd source)) (\<lambda>root.
     let m = \<lparr>m_version = version, created_at = now, chunking = mode, source_root = root,
              total_input_bytes = 0, total_stored_bytes = 0, files = []\<rparr>;
         r = \<lparr>br_version = version, br_file_count = 0, br_total_input_bytes = 0,
              br_total_stored_bytes = 0, br_total_chunks = 0, br_unique_chunks = 0, br_duplicate_chunks = 0\<rparr> in
     io_bind (io_query (\<lambda>w. scanRegularFiles (disk w) source)) (\<lambda>scanned.
     io_bind (io_fold (backup_file T repo mode faults) scanned (m, r)) (\<lambda>(m, r).
     let r = r\<lparr>br_file_count := word_of_nat (length (files m)),
               br_total_input_bytes := total_input_bytes m,
               br_total_stored_bytes := total_stored_bytes m\<rparr> in
     io_seq (commit_version repo faults version m) (
     io_return r)))))))))"

section \<open>Verifying a version (VerifyEngine.cpp)\<close>

text \<open>The loop over the chunks carries the hash of the file and its size so far.\<close>

fun verify_chunks ::
  "third_party \<Rightarrow> fs \<Rightarrow> path \<Rightarrow> string \<Rightarrow> chunk_ref list \<Rightarrow> sha_ctx \<times> u64 \<Rightarrow> (sha_ctx \<times> u64) res" where
  "verify_chunks T d repo rel [] st = Inr st"
| "verify_chunks T d repo rel (c # cs) (file_hash, actual_size) =
     rbind (readRaw T d repo (chunk_sha256 c) (object_path c)) (\<lambda>raw.
     if word_of_nat (length raw) \<noteq> raw_size c
     then Inl (DpcError (''chunk raw size mismatch: '' @ rel))
     else rbind (sha256Hex T raw) (\<lambda>chunk_sha.
     if chunk_sha \<noteq> chunk_sha256 c then Inl (DpcError (''chunk checksum mismatch: '' @ rel))
     else rbind (sha_update file_hash raw) (\<lambda>file_hash'.
     verify_chunks T d repo rel cs (file_hash', actual_size + word_of_nat (length raw)))))"

definition verify_file :: "third_party \<Rightarrow> fs \<Rightarrow> path \<Rightarrow> file_manifest \<Rightarrow> unit res" where
  "verify_file T d repo f =
     rbind (verify_chunks T d repo (relative_path f) (chunks f) (sha_init, 0)) (\<lambda>(file_hash, actual_size).
     if actual_size \<noteq> file_size f then Inl (DpcError (''file size mismatch: '' @ relative_path f))
     else rbind (finalHex T file_hash) (\<lambda>(actual_file_hash, _).
     if actual_file_hash \<noteq> file_sha256 f
     then Inl (DpcError (''file checksum mismatch: '' @ relative_path f)) else Inr ()))"

fun verify_files :: "third_party \<Rightarrow> fs \<Rightarrow> path \<Rightarrow> file_manifest list \<Rightarrow> unit res" where
  "verify_files T d repo [] = Inr ()"
| "verify_files T d repo (f # fs) = rbind (verify_file T d repo f) (\<lambda>_. verify_files T d repo fs)"

definition verify :: "third_party \<Rightarrow> fs \<Rightarrow> path \<Rightarrow> u64 \<Rightarrow> unit res" where
  "verify T d repo version = rbind (load d repo version) (\<lambda>m. verify_files T d repo (files m))"

section \<open>Restoring a version (RestoreEngine.cpp)\<close>

fun assemble_chunks ::
  "third_party \<Rightarrow> fs \<Rightarrow> path \<Rightarrow> string \<Rightarrow> chunk_ref list \<Rightarrow> bytes \<Rightarrow> bytes res" where
  "assemble_chunks T d repo rel [] assembled = Inr assembled"
| "assemble_chunks T d repo rel (c # cs) assembled =
     rbind (readRaw T d repo (chunk_sha256 c) (object_path c)) (\<lambda>raw.
     if word_of_nat (length raw) \<noteq> raw_size c
     then Inl (DpcError (''chunk raw size mismatch during restore: '' @ rel))
     else assemble_chunks T d repo rel cs (assembled @ raw))"

definition assemble :: "third_party \<Rightarrow> fs \<Rightarrow> path \<Rightarrow> file_manifest \<Rightarrow> bytes res" where
  "assemble T d repo f =
     (if unat (file_size f) > vector_max_size then Inl (StdException ''vector::reserve'')
      else rbind (assemble_chunks T d repo (relative_path f) (chunks f) []) (\<lambda>assembled.
      if word_of_nat (length assembled) \<noteq> file_size f
      then Inl (DpcError (''file size mismatch during restore: '' @ relative_path f))
      else rbind (sha256Hex T assembled) (\<lambda>actual_file_hash.
      if actual_file_hash \<noteq> file_sha256 f
      then Inl (DpcError (''file checksum mismatch during restore: '' @ relative_path f))
      else Inr assembled)))"

definition restore_file :: "third_party \<Rightarrow> path \<Rightarrow> path \<Rightarrow> file_manifest \<Rightarrow> unit act" where
  "restore_file T repo target f =
     io_bind (io_query (\<lambda>w. assemble T (disk w) repo f)) (\<lambda>assembled.
     io_bind (io_lift (safeRelativePath (relative_path f) ''manifest relative_path'')) (\<lambda>safe.
     io_seq (writeFileAtomic (target @ safe) assembled (file_mode f))
       (setFileMode (target @ safe) (file_mode f))))"

definition restore :: "third_party \<Rightarrow> path \<Rightarrow> u64 \<Rightarrow> path \<Rightarrow> unit act" where
  "restore T repo version target =
     io_bind (io_query (\<lambda>w. load (disk w) repo version)) (\<lambda>m.
     io_seq (ensureDirectory target) (io_foreach (restore_file T repo target) (files m)))"

section \<open>What the readers check\<close>

text \<open>
  The pieces a file of a manifest names are in the store, and make up the file. \<open>verify\<close> accepts
  exactly this, and \<open>assemble\<close> gives the pieces joined.
\<close>

definition pieces :: "third_party \<Rightarrow> fs \<Rightarrow> path \<Rightarrow> chunk_ref list \<Rightarrow> bytes list \<Rightarrow> bool" where
  "pieces T d repo refs xs \<longleftrightarrow>
     list_all2 (\<lambda>c x. readRaw T d repo (chunk_sha256 c) (object_path c) = Inr x
                 \<and> word_of_nat (length x) = raw_size c) refs xs"

definition file_is :: "third_party \<Rightarrow> fs \<Rightarrow> path \<Rightarrow> file_manifest \<Rightarrow> bytes \<Rightarrow> bool" where
  "file_is T d repo f data \<longleftrightarrow>
     (\<exists>xs. pieces T d repo (chunks f) xs \<and> data = concat xs)
     \<and> word_of_nat (length data) = file_size f \<and> sha256Hex T data = Inr (file_sha256 f)"

lemma pieces_simps [simp]:
  "pieces T d repo [] xs \<longleftrightarrow> xs = []"
  "pieces T d repo (c # cs) xs \<longleftrightarrow> (\<exists>y ys. xs = y # ys
     \<and> readRaw T d repo (chunk_sha256 c) (object_path c) = Inr y \<and> word_of_nat (length y) = raw_size c
     \<and> pieces T d repo cs ys)"
  by (auto simp: pieces_def list_all2_Cons1)

lemma ex_pieces_Cons:
  "(\<exists>xs. pieces T d repo (c # cs) xs \<and> P xs) \<longleftrightarrow>
     (\<exists>y. readRaw T d repo (chunk_sha256 c) (object_path c) = Inr y \<and> word_of_nat (length y) = raw_size c
        \<and> (\<exists>ys. pieces T d repo cs ys \<and> P (y # ys)))"
  by auto

lemma verify_chunks_pieces:
  "\<not> finalized h \<Longrightarrow> verify_chunks T d repo rel cs (h, n) = Inr st \<longleftrightarrow>
     (\<exists>xs. pieces T d repo cs xs
        \<and> st = (h\<lparr>hashed := hashed h @ concat xs\<rparr>, n + word_of_nat (length (concat xs))))"
proof (induction cs arbitrary: h n)
  case Nil
  then show ?case by auto
next
  case (Cons c cs)
  have sha: "sha256Hex T raw = Inr (chunk_sha256 c)"
    if "readRaw T d repo (chunk_sha256 c) (object_path c) = Inr raw" for raw
    using that by (simp add: readRaw_Inr)
  have "\<not> finalized (h\<lparr>hashed := hashed h @ raw\<rparr>)" for raw using Cons.prems by simp
  note IH = Cons.IH [OF this]
  have "verify_chunks T d repo rel (c # cs) (h, n) = Inr st \<longleftrightarrow>
      (\<exists>raw. readRaw T d repo (chunk_sha256 c) (object_path c) = Inr raw \<and> word_of_nat (length raw) = raw_size c
        \<and> verify_chunks T d repo rel cs (h\<lparr>hashed := hashed h @ raw\<rparr>, n + word_of_nat (length raw)) = Inr st)"
    using Cons.prems sha by (auto simp: res_simps sha_update_def)
  then show ?case unfolding ex_pieces_Cons by (simp add: IH add.assoc)
qed

lemma assemble_chunks_pieces:
  "assemble_chunks T d repo rel cs acc = Inr data \<longleftrightarrow> (\<exists>xs. pieces T d repo cs xs \<and> data = acc @ concat xs)"
proof (induction cs arbitrary: acc)
  case (Cons c cs)
  then show ?case unfolding ex_pieces_Cons by (simp add: res_simps)
qed auto

lemma finalHex_hashed:
  "(\<exists>ctx. finalHex T (sha_init\<lparr>hashed := data\<rparr>) = Inr (h, ctx)) \<longleftrightarrow> sha256Hex T data = Inr h"
  by (auto simp: sha256Hex_def sha_update_def sha_init_def res_simps)

lemma sha_start: "\<not> finalized sha_init" "hashed sha_init = []"
  by (simp_all add: sha_init_def)

lemma ex_pair_graph:
  "(\<exists>h n. (\<exists>x. P x \<and> (h, n) = (F x, G x)) \<and> n = s \<and> Q h) \<longleftrightarrow> (\<exists>x. P x \<and> G x = s \<and> Q (F x))"
  by blast

lemma verify_file_iff: "verify_file T d repo f = Inr () \<longleftrightarrow> (\<exists>data. file_is T d repo f data)"
proof -
  have "verify_file T d repo f = Inr () \<longleftrightarrow>
      (\<exists>h n. verify_chunks T d repo (relative_path f) (chunks f) (sha_init, 0) = Inr (h, n)
         \<and> n = file_size f \<and> (\<exists>ctx. finalHex T h = Inr (file_sha256 f, ctx)))"
    by (auto simp: verify_file_def res_simps split: prod.splits)
  also have "\<dots> \<longleftrightarrow> (\<exists>xs. pieces T d repo (chunks f) xs \<and> word_of_nat (length (concat xs)) = file_size f
      \<and> (\<exists>ctx. finalHex T (sha_init\<lparr>hashed := concat xs\<rparr>) = Inr (file_sha256 f, ctx)))"
    by (simp only: verify_chunks_pieces [OF sha_start(1)] sha_start(2) append_Nil add_0 ex_pair_graph)
  finally show ?thesis unfolding finalHex_hashed file_is_def by blast
qed

lemma verify_files_iff: "verify_files T d repo fs = Inr () \<longleftrightarrow> (\<forall>f \<in> set fs. \<exists>data. file_is T d repo f data)"
  by (induction fs) (auto simp: res_simps verify_file_iff)

lemma assemble_iff: "assemble T d repo f = Inr data \<longleftrightarrow> file_is T d repo f data \<and> unat (file_size f) \<le> vector_max_size"
  by (auto simp: assemble_def file_is_def res_simps assemble_chunks_pieces)

end
