(* ===== verification/DPC_Safety.thy ===== *)
theory DPC_Safety
  imports DPC_Backup
begin

text \<open>
  What the engines do to the disk. First what they leave alone, however they end: the committed
  versions and the objects of the repository, and everything outside of the repository (a backup)
  or of the target (a restore). Then what is there when they return.
\<close>

section \<open>Nothing outside of the repository\<close>

definition outside_of :: "path \<Rightarrow> path set" where
  "outside_of repo = {k. take (length (walk repo)) k \<noteq> walk repo}"

lemma inside [simp]: "walk repo @ cs \<notin> outside_of repo"
  by (simp add: outside_of_def)

abbreviation stays_in :: "path \<Rightarrow> fs \<Rightarrow> world \<Rightarrow> bool" where
  "stays_in repo d0 \<equiv> on_disk (untouched (outside_of repo) d0)"

text \<open>
  What every operation on a repository promises of the disk: it makes directories where there is
  nothing, and it writes and removes files only at two or more names below the repository. A
  predicate of the disk that these three kinds of change keep is kept by all of them.
\<close>

locale inside_repo =
  fixes repo :: path and D :: "fs \<Rightarrow> bool"
  assumes mkdir: "D d \<Longrightarrow> node_at d k = None \<Longrightarrow> D (AList.update k Directory d)"
    and put: "D d \<Longrightarrow> 2 \<le> length cs \<Longrightarrow> D (AList.update (walk repo @ cs) (File c m) d)"
    and remove: "D d \<Longrightarrow> 2 \<le> length cs \<Longrightarrow> D (AList.delete (walk repo @ cs) d)"
begin

lemma directory [keeps_intro]: "keeps (on_disk D) (ensureDirectory p)"
  by (rule keeps_ensureDirectory) (rule mkdir)

lemma layout [keeps_intro]: "keeps (on_disk D) (ensureLayout repo)"
  unfolding ensureLayout_def by (intro keeps_intro)

lemma log_append [keeps_intro]: "keeps (on_disk D) (wal_append_text repo t p)"
  unfolding wal_append_text_def by (rule keeps_wal_append) (auto intro: mkdir put)

lemma atomic_survives:
  assumes "list_all plain_name cs" and "2 \<le> length cs"
  shows "survives_write D (repo @ cs) data"
proof -
  have cs: "cs \<noteq> []" using assms(2) by auto
  have "\<exists>ds. t = walk repo @ ds \<and> 2 \<le> length ds" if t: "temp_of (repo @ cs) t" for t
  proof -
    obtain process tick where "t = walk repo @ butlast cs @ [temp_name (last cs) process tick]"
      using temp_of_plain [OF assms(1) cs t] by blast
    then show ?thesis using assms(2) by (intro exI [of _ "butlast cs @ [temp_name (last cs) process tick]"]) simp
  qed
  then show ?thesis
    unfolding survives_write_def walk_plain [OF assms(1)]
    using mkdir put remove assms(2) by blast
qed

lemma atomic: "list_all plain_name cs \<Longrightarrow> 2 \<le> length cs \<Longrightarrow> keeps (on_disk D) (writeFileAtomic (repo @ cs) data mode)"
  by (intro keeps_writeFileAtomic atomic_survives)

lemma text_atomic: "list_all plain_name cs \<Longrightarrow> 2 \<le> length cs \<Longrightarrow> keeps (on_disk D) (writeTextAtomic (repo @ cs) x mode)"
  unfolding writeTextAtomic_def by (rule atomic)

lemma compressed_put [keeps_intro]: "keeps (on_disk D) (putCompressed T repo sha c n)"
proof (cases "isSha256Hex sha")
  case True
  have "keeps (on_disk D) (writeFileAtomic (repo @ object_names sha) c 0x1a4)"
    using object_names_plain(1) [OF True] by (intro atomic) (simp_all add: object_names_def)
  then show ?thesis
    using True objectPathForHash_join [of sha "join_path (object_names sha)"] absoluteObjectPath_object [OF True, of repo]
    by (auto simp: putCompressed_def requireSha256Hex_def io_lift_steps Let_def intro!: keeps_intro)
next
  case False
  then show ?thesis
    by (auto simp: putCompressed_def requireSha256Hex_def io_lift_steps intro!: keeps_seq keeps_throw layout)
qed

lemma raw_put [keeps_intro]: "keeps (on_disk D) (putRaw T repo raw)"
  unfolding putRaw_def by (intro keeps_intro)

lemma renamed:
  "2 \<le> length cs \<Longrightarrow> 2 \<le> length cs' \<Longrightarrow> keeps (on_disk D) (sys m (rename_call (walk repo @ cs) (walk repo @ cs')))"
  by (intro keeps_sys) (auto simp: rename_call_def intro!: put remove split: option.splits node.splits if_splits)

lemma manifest_rename [keeps_intro]: "keeps (on_disk D) (renameTmpToManifest repo v)"
  unfolding renameTmpToManifest_def Let_def walk_version_paths
  by (intro keeps_seq renamed directory keeps_fsyncDirectory) simp_all

lemma version_files [keeps_intro]:
  "keeps (on_disk D) (writeTmp repo v m)" "keeps (on_disk D) (marker_create repo v)"
  "keeps (on_disk D) (checkpoint_write repo data)"
  unfolding writeTmp_def marker_create_def checkpoint_write_def tmpManifestPath_def commitPath_def checkpointPath_def
  by (rule text_atomic; simp)+

lemma version_commit [keeps_intro]: "keeps (on_disk D) (commit_version repo faults v m)"
  unfolding commit_version_def by (intro keeps_intro)

lemma file_backup [keeps_intro]: "keeps (on_disk D) (backup_file T repo mode faults f st)"
  unfolding backup_file_def backup_chunk_def Let_def
  by (auto intro!: keeps_intro split: prod.splits)

lemma whole_backup: "keeps (on_disk D) (create T cwd source repo mode faults)"
  unfolding create_def nowSeconds_def Let_def by (auto intro!: keeps_intro split: prod.splits)

end

interpretation stays: inside_repo repo "untouched (outside_of repo) d0" for repo d0
  by unfold_locales (auto intro: untouched_mkdir untouched_update untouched_delete)

text \<open>The directories right below the repository stay.\<close>

interpretation dirs: inside_repo repo "\<lambda>d. is_dir d (repo @ [''manifests''])" for repo
proof
  fix d :: fs and k :: path
  assume "is_dir d (repo @ [''manifests''])" and "node_at d k = None"
  then show "is_dir (AList.update k Directory d) (repo @ [''manifests''])"
    unfolding is_dir_def by (metis node_at_update_other option.distinct(1))
next
  fix d :: fs and cs :: path and c m
  assume d: "is_dir d (repo @ [''manifests''])" and cs: "2 \<le> length cs"
  have "walk (repo @ [''manifests'']) = walk repo @ [''manifests'']" by (rule walk_plain) simp
  moreover have "walk repo @ [''manifests''] \<noteq> walk repo @ cs" using cs by auto
  ultimately show "is_dir (AList.update (walk repo @ cs) (File c m) d) (repo @ [''manifests''])"
    and "is_dir (AList.delete (walk repo @ cs) d) (repo @ [''manifests''])"
    using d by (simp_all add: is_dir_def)
qed

section \<open>Nothing outside of the target\<close>

lemma stays_setFileMode: "keeps (stays_in p d0) (setFileMode (p @ cs) mode)"
  if "walk (p @ cs) \<notin> outside_of p"
  unfolding setFileMode_def using that
  by (intro keeps_sys) (auto simp: chmod_call_def intro!: untouched_update split: option.splits node.splits)


lemma safe_inside:
  assumes "safe_path p"
  shows "walk (target @ p) \<notin> outside_of target" and "temp_of (target @ p) t \<Longrightarrow> t \<notin> outside_of target"
proof -
  show "walk (target @ p) \<notin> outside_of target"
    using safe_path_walk [OF assms, of target] by auto
  obtain cs where cs: "cs \<noteq> []" "list_all plain_name cs" "p = cs \<or> p = cs @ [[]]"
    using assms by (auto simp: safe_path_def)
  assume t: "temp_of (target @ p) t"
  show "t \<notin> outside_of target"
    using cs(3)
  proof
    assume "p = cs @ [[]]"
    then obtain process tick where "t = walk (target @ cs @ [temp_name [] process tick])"
      using t by (auto simp: temp_of_def butlast_append)
    moreover have "list_all plain_name (cs @ [temp_name [] process tick])"
      using cs(2) temp_name_plain [of "[]"] by simp
    ultimately show ?thesis by (simp add: walk_plain)
  qed (use t temp_of_plain [of cs target t] cs in auto)
qed

lemma stays_restore_file: "keeps (stays_in target d0) (restore_file T repo target f)"
proof (cases "safeRelativePath (relative_path f) ''manifest relative_path''")
  case (Inr p)
  note safe = safe_inside [OF safeRelativePath_safe [OF Inr]]
  have "keeps (stays_in target d0) (writeFileAtomic (target @ p) data mode)" for data mode
    using safe by (intro keeps_writeFileAtomic survives_untouched) simp_all
  then show ?thesis
    unfolding restore_file_def Inr io_lift_steps
    using stays_setFileMode [OF safe(1)] by (intro keeps_intro)
qed (simp add: restore_file_def io_lift_steps keeps_bind keeps_query keeps_throw)

lemma stays_restore: "keeps (stays_in target d0) (restore T repo v target)"
  unfolding restore_def
  by (intro keeps_bind keeps_seq keeps_query keeps_foreach keeps_ensureDirectory_untouched stays_restore_file)

section \<open>Committed versions and objects are left alone\<close>

definition committed :: "fs \<Rightarrow> path \<Rightarrow> u64 set" where
  "committed d repo = {v. unat v < 10 ^ 6 \<and> is_regular d (commitPath repo v)}"

abbreviation spares :: "path \<Rightarrow> u64 set \<Rightarrow> fs \<Rightarrow> world \<Rightarrow> bool" where
  "spares repo V d0 \<equiv> on_disk (kept (durable repo V) d0)"

lemma wal_not_durable [simp]: "walk repo @ [''metadata'', ''wal.log''] \<notin> durable repo V"
  by (simp add: not_durable_dir)

lemma spares_wal [keeps_intro]: "keeps (spares repo V d0) (wal_append_text repo t p)"
  by (rule keeps_wal_append_text_kept) simp

lemma spares_writeTmp [keeps_intro]: "keeps (spares repo V d0) (writeTmp repo v m)"
  unfolding writeTmp_def writeTextAtomic_def tmpManifestPath_def
  by (rule keeps_writeFileAtomic_durable) (simp_all add: not_durable_dir)

lemma spares_renameTmp: "v \<notin> V \<Longrightarrow> keeps (spares repo V d0) (renameTmpToManifest repo v)"
proof -
  assume v: "v \<notin> V"
  have "walk (tmpManifestPath repo v) \<notin> durable repo V" by (simp add: walk_version_paths not_durable_dir)
  moreover have "walk (manifestPath repo v) \<notin> durable repo V"
    unfolding walk_version_paths by (rule new_version_not_durable [OF v]) simp
  ultimately have "keeps (spares repo V d0) (sys m (rename_call (walk (tmpManifestPath repo v)) (walk (manifestPath repo v))))"
    for m
    by (intro keeps_sys) (auto simp: rename_call_def intro!: kept_update kept_delete
        split: option.splits node.splits if_splits)
  then show ?thesis
    unfolding renameTmpToManifest_def Let_def
    by (intro keeps_seq keeps_ensureDirectory_kept keeps_fsyncDirectory)
qed

lemma spares_marker: "v \<notin> V \<Longrightarrow> keeps (spares repo V d0) (marker_create repo v)"
  unfolding marker_create_def writeTextAtomic_def commitPath_def
  by (rule keeps_writeFileAtomic_durable) (simp_all add: new_version_not_durable)

lemma spares_commit_version: "v \<notin> V \<Longrightarrow> keeps (spares repo V d0) (commit_version repo faults v m)"
  unfolding commit_version_def by (intro keeps_intro spares_renameTmp spares_marker)

lemma spares_backup_file [keeps_intro]: "keeps (spares repo V d0) (backup_file T repo mode faults f st)"
  unfolding backup_file_def backup_chunk_def Let_def by (auto intro!: keeps_intro split: prod.splits)

lemma ensureDirectory_node: "keeps (on_disk (\<lambda>d. node_at d k = Some n)) (ensureDirectory p)"
  by (rule keeps_ensureDirectory) (metis node_at_update_other option.distinct(1))

lemma ensureLayout_dirs:
  assumes "ensureLayout repo w = (Inr u, w')"
  shows "is_dir (disk w') (repo @ [''manifests''])"
proof -
  obtain w1 u1 where made: "ensureDirectory (repo @ [''manifests'']) w1 = (Inr u1, w')
    \<or> (\<exists>w2 u2 w3 u3. ensureDirectory (repo @ [''manifests'']) w1 = (Inr u1, w2)
        \<and> ensureDirectory (repo @ [''metadata'', ''sessions'']) w2 = (Inr u2, w3)
        \<and> ensureDirectory (repo @ [''tmp'']) w3 = (Inr u3, w'))"
    using assms by (auto simp: ensureLayout_def res_simps)
  then show ?thesis
    unfolding is_dir_def
    using ensureDirectory_ok keepsD_eq [OF ensureDirectory_node [of "walk (repo @ [''manifests''])" Directory]]
    by metis
qed

text \<open>The number of the new version is not the number of a committed one.\<close>

lemma nextVersion_not_committed:
  assumes "nextVersion d repo = Inr n" and "is_dir d (repo @ [''manifests''])"
    and "kept (durable repo (committed d0 repo)) d0 d"
  shows "n \<notin> committed d0 repo"
proof
  assume n: "n \<in> committed d0 repo"
  then have "is_regular d (commitPath repo n)"
    using keptD [OF assms(3) version_durable(2) [OF n]] by (auto simp: committed_def is_regular_iff)
  moreover obtain vs where vs: "listCommittedVersions d repo = Inr vs"
    using assms(1) by (auto simp: nextVersion_def res_simps)
  ultimately have "n \<in> set vs" using n assms(2) listCommittedVersions_mem [OF vs] by (simp add: committed_def)
  then show False using nextVersion_above [OF assms(1) vs] by auto
qed

text \<open>A commit that takes the next version writes at the places of no committed version.\<close>

lemma spares_next_version:
  assumes "\<And>v. v \<notin> committed d0 repo \<Longrightarrow> keeps (spares repo (committed d0 repo) d0) (m v)"
  shows "triple (\<lambda>w. spares repo (committed d0 repo) d0 w \<and> is_dir (disk w) (repo @ [''manifests'']))
    (io_bind (io_query (\<lambda>w. nextVersion (disk w) repo)) m)
    (\<lambda>_. spares repo (committed d0 repo) d0) (spares repo (committed d0 repo) d0)"
proof (rule triple_bind)
  show "triple (\<lambda>w. spares repo (committed d0 repo) d0 w \<and> is_dir (disk w) (repo @ [''manifests'']))
      (io_query (\<lambda>w. nextVersion (disk w) repo))
      (\<lambda>v w. spares repo (committed d0 repo) d0 w \<and> v \<notin> committed d0 repo) (spares repo (committed d0 repo) d0)"
    using nextVersion_not_committed by (intro triple_query) blast+
  show "triple (\<lambda>w. spares repo (committed d0 repo) d0 w \<and> v \<notin> committed d0 repo) (m v)
      (\<lambda>_. spares repo (committed d0 repo) d0) (spares repo (committed d0 repo) d0)" for v
    by (intro triple_pure triple_keeps assms)
qed

lemma layout_makes_dirs:
  "triple (spares repo V d0) (ensureLayout repo)
     (\<lambda>_ w'. spares repo V d0 w' \<and> is_dir (disk w') (repo @ [''manifests''])) (spares repo V d0)"
  using keepsD_eq [OF keeps_ensureLayout] ensureLayout_dirs by (intro tripleI) blast+

lemma spares_create:
  "kept (durable repo (committed (disk w) repo)) (disk w) (disk (snd (create T cwd source repo mode faults w)))"
proof -
  let ?S = "spares repo (committed (disk w) repo) (disk w)"
  have "triple ?S (create T cwd source repo mode faults) (\<lambda>_. ?S) ?S"
    unfolding create_def Let_def nowSeconds_def
    by (rule triple_seq [OF layout_makes_dirs spares_next_version])
      (auto intro!: keeps_intro spares_commit_version split: prod.splits)
  then show ?thesis using triple_snd [of ?S _ ?S w] by simp
qed

end
