(* ===== verification/DPC_Create.thy ===== *)
theory DPC_Create
  imports DPC_Safety
begin

text \<open>
  What a backup leaves when it returned (src/core/BackupEngine.cpp): a committed version whose
  manifest describes every regular file of the source, with all its pieces in the store.
\<close>

section \<open>The chunks of a file\<close>

lemma calm_run:
  assumes "\<And>d0. keeps (spares repo {} d0) m" and "m w = (r, w')"
  shows "objects_kept repo w w'"
  unfolding objects_kept_def using keepsD_eq [OF assms(1) _ assms(2), of "disk w"]
  by (auto intro: kept_durable_objects)

lemma objects_kept_trans: "objects_kept repo w w1 \<Longrightarrow> objects_kept repo w1 w' \<Longrightarrow> objects_kept repo w w'"
  unfolding objects_kept_def by (rule kept_trans)

lemma putRaw_size: "putRaw T repo raw w = (Inr p, w') \<Longrightarrow> pr_raw_size p = word_of_nat (length raw)"
  using tripleD_Inr [OF putRaw_triple [of repo "{}" "disk w" T raw], of w p w'] by (auto simp: stored_ok_def)

text \<open>The counts of the result: every chunk is counted once, as new or as a duplicate.\<close>

definition balanced :: "u64 \<Rightarrow> backup_result \<Rightarrow> bool" where
  "balanced n r \<longleftrightarrow> br_total_chunks r = n \<and> br_total_chunks r = br_unique_chunks r + br_duplicate_chunks r"

lemma count_chunk:
  "br_version (count_chunk p r) = br_version r" "balanced n r \<Longrightarrow> balanced (n + 1) (count_chunk p r)"
  by (auto simp: count_chunk_def balanced_def Let_def)

lemma backup_chunk_run:
  assumes "backup_chunk T repo faults c st w = (Inr st', w')"
  shows "\<exists>put w1. putRaw T repo (ch_data c) w = (Inr put, w1) \<and> objects_kept repo w1 w'
    \<and> sha_update (cl_hash st) (ch_data c) = Inr (cl_hash st') \<and> cl_index st' = cl_index st + 1
    \<and> cl_refs st' = cl_refs st @ [chunk_ref_of (cl_index st) put]
    \<and> cl_result st' = count_chunk put (cl_result st)"
proof -
  obtain put w1 u where put: "putRaw T repo (ch_data c) w = (Inr put, w1)"
    and rest: "io_seq (wal_append_text repo PutObject (pr_sha put @ '' '' @ pr_path put @ [nl]))
        (trigger faults AfterObjectWrite) w1 = (Inr u, w')"
    and st': "sha_update (cl_hash st) (ch_data c) = Inr (cl_hash st')" "cl_index st' = cl_index st + 1"
      "cl_refs st' = cl_refs st @ [chunk_ref_of (cl_index st) put]"
      "cl_result st' = count_chunk put (cl_result st)"
    using assms by (auto simp: backup_chunk_def res_simps)
  have "objects_kept repo w1 w'"
    by (rule calm_run [rotated], rule rest, intro keeps_intro)
  with put st' show ?thesis by blast
qed

definition chunk_refs :: "u64 \<Rightarrow> put_result list \<Rightarrow> chunk_ref list" where
  "chunk_refs ix puts = map2 (\<lambda>i p. chunk_ref_of (ix + word_of_nat i) p) [0 ..< length puts] puts"

lemma chunk_refs_Cons: "chunk_refs ix (p # ps) = chunk_ref_of ix p # chunk_refs (ix + 1) ps"
proof -
  have "[0 ..< length (p # ps)] = 0 # map Suc [0 ..< length ps]"
    by (simp add: upt_conv_Cons map_Suc_upt del: upt_Suc)
  then show ?thesis
    by (simp add: chunk_refs_def zip_map1 case_prod_unfold o_def algebra_simps del: upt_Suc)
qed

lemma backup_chunks_run:
  assumes "io_fold (backup_chunk T repo faults) cs st w = (Inr st', w')"
    and "\<forall>c \<in> set cs. fits T (ch_data c)"
  shows "\<exists>puts. objects.holds T repo w' puts (map ch_data cs)
    \<and> list_all2 (\<lambda>p c. pr_raw_size p = word_of_nat (length (ch_data c))) puts cs
    \<and> sha_updates (cl_hash st) (map ch_data cs) = Inr (cl_hash st')
    \<and> cl_refs st' = cl_refs st @ chunk_refs (cl_index st) puts
    \<and> br_version (cl_result st') = br_version (cl_result st)
    \<and> (balanced n (cl_result st) \<longrightarrow> balanced (n + word_of_nat (length cs)) (cl_result st'))"
  using assms
proof (induction cs arbitrary: st w n)
  case Nil
  then show ?case by (auto simp: objects.holds_Nil chunk_refs_def)
next
  case (Cons c cs)
  obtain st1 w1 where one: "backup_chunk T repo faults c st w = (Inr st1, w1)"
    and rest: "io_fold (backup_chunk T repo faults) cs st1 w1 = (Inr st', w')"
    using Cons.prems(1) by (auto simp: res_simps)
  obtain p w0 where p: "putRaw T repo (ch_data c) w = (Inr p, w0)" and calm: "objects_kept repo w0 w1"
    and st1: "sha_update (cl_hash st) (ch_data c) = Inr (cl_hash st1)" "cl_index st1 = cl_index st + 1"
      "cl_refs st1 = cl_refs st @ [chunk_ref_of (cl_index st) p]" "cl_result st1 = count_chunk p (cl_result st)"
    using backup_chunk_run [OF one] by blast
  obtain puts where puts: "objects.holds T repo w' puts (map ch_data cs)"
      "list_all2 (\<lambda>p c. pr_raw_size p = word_of_nat (length (ch_data c))) puts cs"
      "sha_updates (cl_hash st1) (map ch_data cs) = Inr (cl_hash st')"
      "cl_refs st' = cl_refs st1 @ chunk_refs (cl_index st1) puts"
      "br_version (cl_result st') = br_version (cl_result st1)"
      "balanced (n + 1) (cl_result st1) \<longrightarrow> balanced (n + 1 + word_of_nat (length cs)) (cl_result st')"
    using Cons.IH [OF rest, of "n + 1"] Cons.prems(2) by auto
  have "objects_kept repo w1 w'"
    by (rule calm_run [rotated], rule rest) (auto simp: backup_chunk_def intro!: keeps_intro)
  with calm have "objects_kept repo w0 w'" by (rule objects_kept_trans)
  moreover have "objects.holds T repo w0 ([] @ [p]) ([] @ [ch_data c])"
    using Cons.prems(2) by (intro objects.holds_put [OF objects.holds_Nil p]) simp
  ultimately have "objects.holds T repo w' ([p] @ puts) ([ch_data c] @ map ch_data cs)"
    using puts(1) by (intro objects.holds_append) (auto intro: objects.holds_calm)
  then show ?case
    using puts st1 putRaw_size [OF p] count_chunk(2) [of n "cl_result st" p]
    by (intro exI [of _ "p # puts"]) (simp add: chunk_refs_Cons count_chunk(1) add.assoc)
qed

text \<open>The references made from puts that hold data name pieces with the hashes of that data.\<close>

definition stored_as :: "third_party \<Rightarrow> fs \<Rightarrow> path \<Rightarrow> chunk_ref list \<Rightarrow> bytes list \<Rightarrow> bool" where
  "stored_as T d repo refs raws \<longleftrightarrow> (\<exists>xs. pieces T d repo refs xs \<and> list_all2 (same_hash T) xs raws)"

lemma stored_as_refs:
  assumes "objects.holds T repo w puts (map ch_data cs)"
    and "list_all2 (\<lambda>p c. pr_raw_size p = word_of_nat (length (ch_data c))) puts cs"
  shows "stored_as T (disk w) repo (chunk_refs ix puts) (map ch_data cs) \<and> list_all wf_chunk (chunk_refs ix puts)"
  using assms(2,1)
proof (induction puts cs arbitrary: ix rule: list_all2_induct)
  case Nil
  then show ?case by (simp add: stored_as_def chunk_refs_def)
next
  case (Cons p ps c cs)
  have tl: "objects.holds T repo w ps (map ch_data cs)"
    and "\<exists>x. object_get T repo w p = Inr x \<and> same_hash T x (ch_data c)"
    using Cons.prems by (simp_all add: objects.holds_def)
  then obtain x where x: "readRaw T (disk w) repo (pr_sha p) (pr_path p) = Inr x" "same_hash T x (ch_data c)"
    by (auto simp: object_get_def)
  then have sha: "isSha256Hex (pr_sha p)" "pr_path p = join_path (object_names (pr_sha p))"
    by (simp_all add: readRaw_Inr)
  then have "safe_path (object_names (pr_sha p))"
    using object_names_plain by (intro safe_path_plain) (simp_all add: object_names_def)
  then have "wf_chunk (chunk_ref_of ix p)"
    using sha safeRelativePath_join by (auto simp: wf_chunk_def chunk_ref_of_def intro: safe_relI)
  moreover obtain xs where "pieces T (disk w) repo (chunk_refs (ix + 1) ps) xs"
      "list_all2 (same_hash T) xs (map ch_data cs)" "list_all wf_chunk (chunk_refs (ix + 1) ps)"
    using Cons.IH [OF tl, of "ix + 1"] by (auto simp: stored_as_def)
  moreover have "pieces T (disk w) repo (chunk_ref_of ix p # chunk_refs (ix + 1) ps) (x # xs)"
    using calculation x Cons.hyps by (simp add: chunk_ref_of_def same_hash_def)
  ultimately show ?case
    using x(2) by (auto simp: chunk_refs_Cons stored_as_def simp del: pieces_simps intro!: exI [of _ "x # xs"])
qed

lemma stored_as_calm: "objects_kept repo w w' \<Longrightarrow> stored_as T (disk w) repo refs raws \<Longrightarrow> stored_as T (disk w') repo refs raws"
  unfolding stored_as_def pieces_def objects_kept_def
  by (elim exE conjE, intro exI conjI) (erule list_all2_mono, auto dest: readRaw_kept)

section \<open>The files of a source\<close>

text \<open>
  \<open>describes T d0 d repo mode s f\<close>: the file \<open>f\<close> of a manifest is what was at the scanned place \<open>s\<close>
  on the disk \<open>d0\<close>, and its pieces are in the store on the disk \<open>d\<close>.
\<close>

definition describes ::
  "third_party \<Rightarrow> fs \<Rightarrow> fs \<Rightarrow> path \<Rightarrow> chunking_mode \<Rightarrow> scanned_file \<Rightarrow> file_manifest \<Rightarrow> bool" where
  "describes T d0 d repo mode s f \<longleftrightarrow>
     relative_path f = join_path (sf_relative s) \<and> wf_file f
     \<and> (\<exists>c md. node_at d0 (walk (sf_absolute s)) = Some (File c md)
          \<and> file_size f = word_of_nat (length c) \<and> file_mode f = md AND 0x1ff
          \<and> sha256Hex T c = Inr (file_sha256 f)
          \<and> stored_as T d repo (chunks f) (map ch_data (chunkBytes_mode mode c)))"

definition short_file :: "fs \<Rightarrow> path \<Rightarrow> bool" where
  "short_file d k \<longleftrightarrow> (\<forall>c md. node_at d k = Some (File c md) \<longrightarrow> length c < 2 ^ 62)"

lemma chunk_count: "length (chunkBytes_mode mode c) \<le> length c + 1"
proof (cases "c = []")
  case True
  have "length (fixed_chunkBytes kDefaultChunkSize []) \<le> 1"
    by (simp add: fixed_chunkBytes_def fixed_loop_Nil)
  then show ?thesis using True by (simp add: chunkBytes_mode_def cdc_chunkBytes_def)
next
  case False
  then show ?thesis using mode_chunks.chunk_count_le [of c mode] by simp
qed

definition same_head :: "manifest \<Rightarrow> manifest \<Rightarrow> bool" where
  "same_head m m' \<longleftrightarrow> m_version m' = m_version m \<and> created_at m' = created_at m
     \<and> chunking m' = chunking m \<and> source_root m' = source_root m"

lemma backup_file_run:
  assumes run: "backup_file T repo mode faults s (m, r) w = (Inr (m', r'), w')"
    and T: "zstd_ok T" and short: "short_file (disk w) (walk (sf_absolute s))" and rel: "safe_path (sf_relative s)"
  shows "\<exists>f. describes T (disk w) (disk w') repo mode s f
    \<and> same_head m m' \<and> total_input_bytes m' = total_input_bytes m + file_size f \<and> files m' = files m @ [f]
    \<and> br_version r' = br_version r
    \<and> (balanced n r \<longrightarrow> balanced (n + word_of_nat (length (chunks f))) r')"
proof -
  let ?p = "sf_absolute s"
  let ?st = "\<lparr>cl_hash = sha_init, cl_index = 0, cl_refs = [], cl_stored = total_stored_bytes m, cl_result = r\<rparr>"
  obtain sz md cs st hex ctx where sz: "fileSize (disk w) ?p = Inr sz" and md: "fileMode (disk w) ?p = Inr md"
    and cs: "chunkFile (disk w) ?p mode = Inr cs"
    and fold: "io_fold (backup_chunk T repo faults) cs ?st w = (Inr st, w')"
    and hex: "finalHex T (cl_hash st) = Inr (hex, ctx)"
    and out: "m' = m\<lparr>total_stored_bytes := cl_stored st, total_input_bytes := total_input_bytes m + sz,
        files := files m @ [\<lparr>relative_path = join_path (sf_relative s), file_size = sz, file_mode = md,
                file_sha256 = hex, chunks = cl_refs st\<rparr>]\<rparr>" "r' = cl_result st"
    using run by (auto simp: backup_file_def Let_def res_simps split: prod.splits)
  obtain c m0 where c: "node_at (disk w) (walk ?p) = Some (File c m0)" and cs': "cs = chunkBytes_mode mode c"
    using cs by (auto simp: chunkFile_def res_simps)
  have szmd: "sz = word_of_nat (length c)" "md = m0 AND 0x1ff"
    using sz md c by (simp_all add: fileSize_def fileMode_def)
  have len: "length c < 2 ^ 62" using short c by (simp add: short_file_def)
  have "fits T (ch_data x)" if "x \<in> set cs" for x
    using mode_chunks.chunk_size_le [of x mode c] that len T by (simp add: fits_def cs')
  then obtain puts where puts: "objects.holds T repo w' puts (map ch_data cs)"
      "list_all2 (\<lambda>p c. pr_raw_size p = word_of_nat (length (ch_data c))) puts cs"
      "sha_updates sha_init (map ch_data cs) = Inr (cl_hash st)" "cl_refs st = chunk_refs 0 puts"
      "br_version (cl_result st) = br_version r"
      "balanced n r \<longrightarrow> balanced (n + word_of_nat (length cs)) (cl_result st)"
    using backup_chunks_run [OF fold, of n] by auto
  have "cl_hash st = sha_init\<lparr>hashed := c\<rparr>"
    using puts(3) unfolding cs' mode_chunks.hash_chunks by (simp add: sha_update_def sha_init_def)
  then have sha: "sha256Hex T c = Inr hex" using hex finalHex_hashed [of T c hex] by auto
  have refs: "stored_as T (disk w') repo (cl_refs st) (map ch_data cs)" "list_all wf_chunk (cl_refs st)"
    using stored_as_refs [OF puts(1,2), of 0] by (simp_all add: puts(4))
  have n: "length (cl_refs st) = length cs" "length cs < 2 ^ 64"
    using list_all2_lengthD [OF puts(2)] chunk_count [of mode c] len
    by (simp_all add: puts(4) chunk_refs_def cs')
  have "safe_rel (join_path (sf_relative s))" using safeRelativePath_join [OF rel] by (rule safe_relI)
  moreover have "isSha256Hex hex" using sha256Hex_Inr [OF sha] by blast
  ultimately have "wf_file \<lparr>relative_path = join_path (sf_relative s), file_size = sz, file_mode = md,
                file_sha256 = hex, chunks = cl_refs st\<rparr>"
    using refs n by (simp add: wf_file_def)
  then show ?thesis
    using c szmd sha refs(1) out puts(5,6) n unfolding describes_def cs'
    by (intro exI [of _ "\<lparr>relative_path = join_path (sf_relative s), file_size = sz, file_mode = md,
                file_sha256 = hex, chunks = cl_refs st\<rparr>"]) (auto simp: same_head_def)
qed


text \<open>The loop over the files. The disk it reads is the old one outside of the repository.\<close>

lemma describes_calm:
  "objects_kept repo w w' \<Longrightarrow> describes T d0 (disk w) repo mode s f \<Longrightarrow> describes T d0 (disk w') repo mode s f"
  unfolding describes_def using stored_as_calm by blast

lemma untouched_node:
  "untouched K d0 d \<Longrightarrow> k \<in> K \<Longrightarrow> node_at d k = Some (File c m) \<longleftrightarrow> node_at d0 k = Some (File c m)"
  unfolding untouched_def by blast

lemma describes_origin:
  assumes "untouched (outside_of repo) d0 d1" and "walk (sf_absolute s) \<in> outside_of repo"
    and "describes T d1 d repo mode s f"
  shows "describes T d0 d repo mode s f"
  using assms(3) untouched_node [OF assms(1,2)] unfolding describes_def by blast

lemma backup_files_run:
  assumes "io_fold (backup_file T repo mode faults) ss (m, r) w = (Inr (m', r'), w')"
    and "zstd_ok T" and "untouched (outside_of repo) d0 (disk w)"
    and "\<forall>s \<in> set ss. walk (sf_absolute s) \<in> outside_of repo \<and> short_file d0 (walk (sf_absolute s))
           \<and> safe_path (sf_relative s)"
  shows "\<exists>fs. list_all2 (describes T d0 (disk w') repo mode) ss fs
    \<and> same_head m m' \<and> total_input_bytes m' = total_input_bytes m + sum_list (map file_size fs)
    \<and> files m' = files m @ fs
    \<and> br_version r' = br_version r
    \<and> (balanced n r \<longrightarrow> balanced (n + word_of_nat (sum_list (map (\<lambda>f. length (chunks f)) fs))) r')"
  using assms(1,3,4)
proof (induction ss arbitrary: m r w n)
  case Nil
  then show ?case by (auto simp: same_head_def)
next
  case (Cons s ss)
  obtain m1 r1 w1 where one: "backup_file T repo mode faults s (m, r) w = (Inr (m1, r1), w1)"
    and rest: "io_fold (backup_file T repo mode faults) ss (m1, r1) w1 = (Inr (m', r'), w')"
    using Cons.prems(1) by (auto simp: res_simps)
  have s: "walk (sf_absolute s) \<in> outside_of repo" "short_file d0 (walk (sf_absolute s))" "safe_path (sf_relative s)"
    using Cons.prems(3) by simp_all
  have "short_file (disk w) (walk (sf_absolute s))"
    using s(2) untouched_node [OF Cons.prems(2) s(1)] unfolding short_file_def by blast
  from backup_file_run [OF one assms(2) this s(3), of n] obtain f where
    f: "describes T (disk w) (disk w1) repo mode s f"
      "same_head m m1" "total_input_bytes m1 = total_input_bytes m + file_size f" "files m1 = files m @ [f]"
      "br_version r1 = br_version r" "balanced n r \<longrightarrow> balanced (n + word_of_nat (length (chunks f))) r1"
    by blast
  have u1: "untouched (outside_of repo) d0 (disk w1)"
    using keepsD_eq [OF stays.file_backup _ one] Cons.prems(2) by blast
  obtain fs where fs: "list_all2 (describes T d0 (disk w') repo mode) ss fs"
      "same_head m1 m'" "total_input_bytes m' = total_input_bytes m1 + sum_list (map file_size fs)"
      "files m' = files m1 @ fs"
      "br_version r' = br_version r1"
      "balanced (n + word_of_nat (length (chunks f))) r1 \<longrightarrow>
         balanced (n + word_of_nat (length (chunks f)) + word_of_nat (sum_list (map (\<lambda>f. length (chunks f)) fs))) r'"
    using Cons.IH [OF rest u1] Cons.prems(3) by auto
  have "objects_kept repo w1 w'"
    by (rule calm_run [rotated], rule rest) (intro keeps_fold spares_backup_file)
  then have "describes T d0 (disk w') repo mode s f"
    using describes_calm describes_origin [OF Cons.prems(2) s(1) f(1)] by blast
  then show ?case
    using fs f by (intro exI [of _ "f # fs"]) (simp add: add.assoc same_head_def)
qed

section \<open>The commit\<close>

abbreviation holds_file :: "path \<Rightarrow> bytes \<Rightarrow> fs \<Rightarrow> bool" where
  "holds_file k c d \<equiv> \<exists>m. node_at d k = Some (File c m)"

lemma keeps_file:
  assumes "\<And>d0. keeps (on_disk (kept K d0)) m" and "k \<in> K" and "m w = (r, w')" and "holds_file k c (disk w)"
  shows "holds_file k c (disk w')"
  using keepsD_eq [OF assms(1) _ assms(3), of "disk w"] assms(2,4) by (auto dest: keptD)

lemma writeTextAtomic_file:
  assumes "writeTextAtomic p text mode w = (Inr u, w')"
  shows "holds_file (walk p) (bytes_of_string text) (disk w')"
proof -
  have "survives_write (\<lambda>_. True) p (bytes_of_string text)" by (simp add: survives_write_def)
  from writeFileAtomic_ok [OF this] show ?thesis using assms by (auto simp: writeTextAtomic_def)
qed

lemma rename_file:
  assumes "sys m (rename_call src dst) w = (Inr u, w')" and "holds_file src c (disk w)" and "1 < length dst"
  shows "holds_file dst c (disk w')"
proof -
  obtain m where m: "node_at (disk w) src = Some (File c m)" using assms(2) by blast
  then have "src = dst \<and> disk w' = disk w \<or>
      src \<noteq> dst \<and> disk w' = AList.delete src (AList.update dst (File c m) (disk w))"
    using sys_Inr [OF assms(1)] by (auto simp: rename_call_def split: if_splits)
  then show ?thesis using m assms(3) by (elim disjE conjE) simp_all
qed

text \<open>Two places of the store that hold files: a manifest, with or without its marker.\<close>

lemma manifest_durable: "walk (manifestPath repo v) \<in> durable repo {v}" "walk (commitPath repo v) \<in> durable repo {v}"
  by (rule version_durable; simp)+

lemma marker_keeps_manifest: "keeps (on_disk (kept {walk (manifestPath repo v)} d0)) (marker_create repo v)"
  unfolding marker_create_def writeTextAtomic_def
proof (rule keeps_writeFileAtomic_kept)
  show "walk (commitPath repo v) \<notin> {walk (manifestPath repo v)}"
    by (simp add: walk_version_paths) (simp add: versionFileName_def)
  fix t
  assume "temp_of (commitPath repo v) t"
  then have "t \<notin> durable repo {v}"
    using temp_not_durable [of "[''manifests'', versionFileName v ''.commit'']" repo t] by (simp add: commitPath_def)
  then show "t \<notin> {walk (manifestPath repo v)}" using manifest_durable(1) by blast
qed

lemma wal_keeps_tmp: "keeps (on_disk (kept {walk (tmpManifestPath repo v)} d0)) (wal_append_text repo t p)"
  by (rule keeps_wal_append_text_kept) (simp add: walk_version_paths)

lemma trigger_disk: "trigger c s w = (r, w') \<Longrightarrow> disk w' = disk w"
  by (auto simp: trigger_def Let_def split: if_splits)

lemma commit_version_files:
  assumes run: "commit_version repo faults v m w = (Inr u, w')"
  shows "holds_file (walk (manifestPath repo v)) (bytes_of_string (serialize m)) (disk w')
    \<and> holds_file (walk (commitPath repo v)) (bytes_of_string (''committed'' @ [nl])) (disk w')"
proof -
  let ?c = "bytes_of_string (serialize m)"
  let ?tmp = "walk (tmpManifestPath repo v)" and ?fin = "walk (manifestPath repo v)" and ?mark = "walk (commitPath repo v)"
  obtain w1 w2 w3 w4 w5 w6 w7 w8 w9 vs u1 u2 u3 u4 u5 u6 u7 u8 u9 where
    s1: "writeTmp repo v m w = (Inr u1, w1)"
    and s2: "wal_append_text repo WriteManifest (version_text v) w1 = (Inr u2, w2)"
    and s3: "trigger faults AfterManifestWrite w2 = (Inr u3, w3)"
    and s4: "renameTmpToManifest repo v w3 = (Inr u4, w4)"
    and s5: "wal_append_text repo RenameManifest (version_text v) w4 = (Inr u5, w5)"
    and s6: "trigger faults AfterManifestRename w5 = (Inr u6, w6)"
    and s7: "marker_create repo v w6 = (Inr u7, w7)"
    and s8: "trigger faults AfterCommitMarker w7 = (Inr u8, w8)"
    and s9: "wal_append_text repo CommitBackup (version_text v) w8 = (Inr u9, w9)"
    and s10: "checkpoint_write repo \<lparr>latest_committed_version = latest_of vs, committed_versions = vs\<rparr> w9 = (Inr u, w')"
    using run unfolding commit_version_def by (auto simp: res_simps)
  have "holds_file ?tmp ?c (disk w1)" using writeTextAtomic_file s1 unfolding writeTmp_def by blast
  then have "holds_file ?tmp ?c (disk w3)"
    using keeps_file [OF wal_keeps_tmp [of repo v] _ s2] trigger_disk [OF s3] by simp
  moreover obtain wa wb ua ub where "ensureDirectory (butlast (manifestPath repo v)) w3 = (Inr ua, wa)"
      and ren: "sys ''rename manifest failed'' (rename_call ?tmp ?fin) wa = (Inr ub, wb)"
      and "fsyncDirectory (butlast (manifestPath repo v)) wb = (Inr u4, w4)"
    using s4 by (auto simp: renameTmpToManifest_def Let_def res_simps)
  ultimately have "holds_file ?tmp ?c (disk wa)" "disk w4 = disk wb"
    using keeps_file [OF keeps_ensureDirectory_kept [of UNIV]]
    by (blast, auto simp: fsyncDirectory_def res_simps open_dir_call_def dest!: sys_Inr fsyncFd_disk split: if_splits)
  then have "holds_file ?fin ?c (disk w4)"
    using rename_file [OF ren] by (simp add: walk_version_paths)
  then have "holds_file ?fin ?c (disk w6)"
    using keeps_file [OF spares_wal manifest_durable(1) s5] trigger_disk [OF s6] by simp
  then have "holds_file ?fin ?c (disk w7)" using keeps_file [OF marker_keeps_manifest _ s7] by blast
  moreover have "holds_file ?mark (bytes_of_string (''committed'' @ [nl])) (disk w7)"
    using writeTextAtomic_file s7 unfolding marker_create_def by blast
  moreover have "holds_file k b (disk w')" if "holds_file k b (disk w7)" and k: "k \<in> durable repo {v}" for k b
    using that(1) keeps_file [OF spares_wal k s9] keeps_file [OF keeps_checkpoint_write k s10]
    unfolding trigger_disk [OF s8, symmetric] by blast
  ultimately show ?thesis using manifest_durable by blast
qed

text \<open>A committed version is loaded from the text that was serialized.\<close>

lemma load_of_files:
  assumes "holds_file (walk (manifestPath repo v)) (bytes_of_string (serialize m)) d"
    and "holds_file (walk (commitPath repo v)) b d"
  shows "load d repo v = parse (serialize m) \<and> is_regular d (commitPath repo v)"
  using assms by (auto simp: load_def isCommitted_def exists_path_def is_regular_iff readTextFile_def readFile_def)

lemma commit_version_run:
  "commit_version repo faults v m w = (Inr u, w') \<Longrightarrow>
     load (disk w') repo v = parse (serialize m) \<and> is_regular (disk w') (commitPath repo v)"
  using load_of_files commit_version_files by blast

section \<open>The whole creation\<close>

text \<open>The regular files of a source, as places of the disk.\<close>

definition source_places :: "fs \<Rightarrow> path \<Rightarrow> path list" where
  "source_places d source = filter (is_file_place d) (recursive_entries d source)"

definition apart :: "path \<Rightarrow> path \<Rightarrow> bool" where
  "apart source repo \<longleftrightarrow> take (length (walk source)) (walk repo) \<noteq> walk source
     \<and> take (length (walk repo)) (walk source) \<noteq> walk repo"

text \<open>A source no container of the machine is too small for.\<close>

definition small_source :: "fs \<Rightarrow> path \<Rightarrow> bool" where
  "small_source d source \<longleftrightarrow> length (source_places d source) < 2 ^ 64
     \<and> (\<forall>k \<in> set (source_places d source). short_file d k)"

lemma is_file_place_iff: "is_file_place d k \<longleftrightarrow> (\<exists>c m. node_at d k = Some (File c m))"
  by (auto simp: is_file_place_def split: option.splits node.splits)

lemma source_places_iff:
  "k \<in> set (source_places d source) \<longleftrightarrow> length (walk source) < length k
     \<and> take (length (walk source)) k = walk source \<and> list_all entry_name (drop (length (walk source)) k)
     \<and> (\<exists>c m. node_at d k = Some (File c m))"
  by (auto simp: source_places_def recursive_entries_def is_file_place_iff dest: node_at_key)

lemma source_places_distinct: "distinct (source_places d source)"
  by (simp add: source_places_def recursive_entries_def)

lemma entry_place:
  assumes "k \<in> set (source_places d source)"
  shows "walk (sf_absolute (scanned_at source k)) = k" and "safe_path (sf_relative (scanned_at source k))"
proof -
  let ?n = "drop (length (walk source)) k"
  have names: "list_all entry_name ?n" and ne: "?n \<noteq> []" and k: "k = walk source @ ?n"
    using assms by (auto simp: source_places_iff) (metis append_take_drop_id)
  then have plain: "list_all plain_name ?n" "list_all (\<lambda>c. CHR 0x00 \<notin> set c) ?n"
    by (auto simp: list_all_iff entry_name_def)
  show "walk (sf_absolute (scanned_at source k)) = k"
    using walk_plain [OF plain(1), of source] k by (simp add: scanned_at_def Let_def)
  show "safe_path (sf_relative (scanned_at source k))"
    using safe_path_plain [OF ne plain] by (simp add: scanned_at_def Let_def)
qed

lemma apart_outside:
  assumes "apart source repo" and "k \<in> set (source_places d source)"
  shows "k \<in> outside_of repo"
proof (rule ccontr)
  assume "k \<notin> outside_of repo"
  then have r: "take (length (walk repo)) k = walk repo" by (simp add: outside_of_def)
  have s: "take (length (walk source)) k = walk source" using assms(2) by (simp add: source_places_iff)
  show False
  proof (cases "length (walk source) \<le> length (walk repo)")
    case True
    then have "take (length (walk source)) (walk repo) = walk source"
      using r s by (metis min.absorb1 take_take)
    then show False using assms(1) by (simp add: apart_def)
  next
    case False
    then have "take (length (walk repo)) (walk source) = walk repo"
      using r s by (metis min.absorb1 nat_le_linear take_take)
    then show False using assms(1) by (simp add: apart_def)
  qed
qed

lemma source_places_untouched:
  assumes "apart source repo" and "untouched (outside_of repo) d0 d"
  shows "set (source_places d source) = set (source_places d0 source)"
    and "length (source_places d source) = length (source_places d0 source)"
proof -
  have step: "k \<in> set (source_places d2 source)"
    if "k \<in> set (source_places d1 source)" "\<And>k c m. k \<in> outside_of repo \<Longrightarrow>
        node_at d1 k = Some (File c m) \<longleftrightarrow> node_at d2 k = Some (File c m)" for k d1 d2
    using that apart_outside [OF assms(1) that(1)] by (auto simp: source_places_iff)
  show eq: "set (source_places d source) = set (source_places d0 source)"
    using step [of _ d d0] step [of _ d0 d] untouched_node [OF assms(2)] by blast
  show "length (source_places d source) = length (source_places d0 source)"
    using eq distinct_card [OF source_places_distinct] by metis
qed

lemma scan_Inr:
  assumes "scanRegularFiles d source = Inr ss"
  shows "set ss = scanned_at source ` set (source_places d source)"
    and "length ss = length (source_places d source)"
  using assms by (auto simp: scanRegularFiles_def source_places_def split: if_splits)

lemma absolute_text_nonempty:
  assumes "absolute_text cwd p = Inr t"
  shows "t \<noteq> []"
proof -
  obtain cs where "t = join_path ([slash] # cs)"
    using assms by (cases p) (auto simp: absolute_text_def split: if_splits)
  then show ?thesis by (cases cs) simp_all
qed

definition created_as ::
  "third_party \<Rightarrow> fs \<Rightarrow> path \<Rightarrow> path \<Rightarrow> chunking_mode \<Rightarrow> fs \<Rightarrow> backup_result \<Rightarrow> manifest \<Rightarrow> bool" where
  "created_as T d0 source repo mode d r m \<longleftrightarrow>
     m_version m = br_version r \<and> chunking m = mode \<and> br_file_count r = word_of_nat (length (files m))
     \<and> br_total_input_bytes r = total_input_bytes m \<and> total_input_bytes m = sum_list (map file_size (files m))
     \<and> balanced (word_of_nat (sum_list (map (\<lambda>f. length (chunks f)) (files m)))) r
     \<and> (\<exists>ks. set ks = set (source_places d0 source) \<and> length ks = length (source_places d0 source)
          \<and> list_all2 (\<lambda>k f. describes T d0 d repo mode (scanned_at source k) f) ks (files m))"

lemma create_run:
  assumes run: "create T cwd source repo mode faults w = (Inr r, w')"
    and T: "zstd_ok T" and apart: "apart source repo" and small: "small_source (disk w) source"
  shows "\<exists>m. load (disk w') repo (br_version r) = Inr m
    \<and> is_regular (disk w') (commitPath repo (br_version r))
    \<and> created_as T (disk w) source repo mode (disk w') r m"
proof -
  let ?u = "untouched (outside_of repo) (disk w)"
  obtain w1 v w2 u2 w3 u3 root ss m r1 w4 u1 u5 where
    lay: "ensureLayout repo w = (Inr u1, w1)"
    and wal: "wal_append_text repo BeginBackup (version_text v) w1 = (Inr u2, w2)"
    and trig: "trigger faults AfterBegin w2 = (Inr u3, w3)"
    and root: "absolute_text cwd source = Inr root"
    and ss: "scanRegularFiles (disk w3) source = Inr ss"
    and fold: "io_fold (backup_file T repo mode faults) ss
        (\<lparr>m_version = v, created_at = system_clock w3, chunking = mode, source_root = root,
              total_input_bytes = 0, total_stored_bytes = 0, files = []\<rparr>,
         \<lparr>br_version = v, br_file_count = 0, br_total_input_bytes = 0,
              br_total_stored_bytes = 0, br_total_chunks = 0, br_unique_chunks = 0, br_duplicate_chunks = 0\<rparr>) w3
        = (Inr (m, r1), w4)"
    and com: "commit_version repo faults v m w4 = (Inr u5, w')"
    and r: "r = r1\<lparr>br_file_count := word_of_nat (length (files m)),
               br_total_input_bytes := total_input_bytes m, br_total_stored_bytes := total_stored_bytes m\<rparr>"
    using run unfolding create_def nowSeconds_def Let_def by (auto simp: res_simps split: prod.splits)
  have "?u (disk w1)" using keepsD_eq [OF stays.layout _ lay] by simp
  then have u3: "?u (disk w3)" using keepsD_eq [OF stays.log_append _ wal] trigger_disk [OF trig] by simp
  note places = source_places_untouched [OF apart u3]
  have sset: "set ss = scanned_at source ` set (source_places (disk w) source)"
    and slen: "length ss = length (source_places (disk w) source)"
    using scan_Inr [OF ss] places by simp_all
  have good: "\<forall>s \<in> set ss. walk (sf_absolute s) \<in> outside_of repo \<and> short_file (disk w) (walk (sf_absolute s))
      \<and> safe_path (sf_relative s)"
    using small apart_outside [OF apart] entry_place unfolding sset small_source_def by fastforce
  obtain fs where fs: "list_all2 (describes T (disk w) (disk w4) repo mode) ss fs"
      "m_version m = v" "chunking m = mode" "source_root m = root"
      "total_input_bytes m = sum_list (map file_size fs)" "files m = fs" "br_version r1 = v"
      "balanced (word_of_nat (sum_list (map (\<lambda>f. length (chunks f)) fs))) r1"
    using backup_files_run [OF fold T u3 good, of 0] by (auto simp: same_head_def balanced_def)
  have "list_all wf_file fs"
    using fs(1) by (auto simp: list_all2_conv_all_nth describes_def list_all_length)
  then have "wf_manifest m"
    using fs absolute_text_nonempty [OF root] list_all2_lengthD [OF fs(1)] slen small
    by (simp add: wf_manifest_def small_source_def)
  then have loaded: "load (disk w') repo v = Inr m \<and> is_regular (disk w') (commitPath repo v)"
    using commit_version_run [OF com] parse_serialize by simp
  have "objects_kept repo w4 w'"
    by (rule calm_run [rotated], rule com, intro spares_commit_version) simp
  then have desc: "list_all2 (describes T (disk w) (disk w') repo mode) ss fs"
    using fs(1) by (auto elim!: list_all2_mono intro: describes_calm)
  obtain ks where ks: "ks = map (\<lambda>s. walk (sf_absolute s)) ss" by blast
  have origin: "s = scanned_at source (walk (sf_absolute s))" if "s \<in> set ss" for s
    using that entry_place(1) unfolding sset by force
  have "ss = map (scanned_at source) ks" unfolding ks map_map o_def by (rule map_idI [symmetric]) (rule origin [symmetric])
  then have "list_all2 (\<lambda>k f. describes T (disk w) (disk w') repo mode (scanned_at source k) f) ks fs"
    using desc by (simp add: list_all2_map1)
  moreover have "set ks = set (source_places (disk w) source)" "length ks = length (source_places (disk w) source)"
    using entry_place(1) slen unfolding ks by (auto simp: sset image_image)
  ultimately have "created_as T (disk w) source repo mode (disk w') r m"
    using fs r by (auto simp: created_as_def balanced_def)
  then show ?thesis using loaded fs r by auto
qed

end
