(* ===== verification/DPC_Restore.thy ===== *)
theory DPC_Restore
  imports DPC_Create
begin

text \<open>
  What a restore leaves when it returned (src/core/RestoreEngine.cpp), and the properties of the
  engines: crash safety, completeness of a backup, agreement of verifying and restoring, and the
  whole way from a source to its restored copy.
\<close>

section \<open>The files of a restore\<close>

definition target_place :: "path \<Rightarrow> file_manifest \<Rightarrow> path" where
  "target_place target f =
     (case safeRelativePath (relative_path f) ''manifest relative_path'' of Inr p \<Rightarrow> walk (target @ p) | Inl _ \<Rightarrow> [])"

text \<open>
  \<open>clear_of target f g\<close>: writing \<open>f\<close> does not touch the place of \<open>g\<close>, neither as its own place nor
  as the place of a temporary file.
\<close>

definition clear_of :: "path \<Rightarrow> file_manifest \<Rightarrow> file_manifest \<Rightarrow> bool" where
  "clear_of target f g \<longleftrightarrow>
     (case safeRelativePath (relative_path f) ''manifest relative_path'' of
        Inr p \<Rightarrow> walk (target @ p) \<noteq> target_place target g \<and> \<not> temp_of (target @ p) (target_place target g)
      | Inl _ \<Rightarrow> True)"

definition restored :: "third_party \<Rightarrow> path \<Rightarrow> fs \<Rightarrow> file_manifest \<Rightarrow> bool" where
  "restored T target d f \<longleftrightarrow>
     (\<exists>c. node_at d (target_place target f) = Some (File c (file_mode f AND 0xfff))
        \<and> sha256Hex T c = Inr (file_sha256 f) \<and> word_of_nat (length c) = file_size f)"

lemma restore_file_run:
  assumes "restore_file T repo target f w = (Inr u, w')"
  shows "restored T target (disk w') f"
proof -
  obtain c p w1 where c: "assemble T (disk w) repo f = Inr c"
    and p: "safeRelativePath (relative_path f) ''manifest relative_path'' = Inr p"
    and wrt: "writeFileAtomic (target @ p) c (file_mode f) w = (Inr (), w1)"
    and md: "setFileMode (target @ p) (file_mode f) w1 = (Inr u, w')"
    using assms by (auto simp: restore_file_def res_simps)
  have "survives_write (\<lambda>_. True) (target @ p) c" by (simp add: survives_write_def)
  from writeFileAtomic_ok [OF this _ wrt]
  obtain m where m: "node_at (disk w1) (walk (target @ p)) = Some (File c m)" by blast
  then have "disk w' = AList.update (walk (target @ p)) (File c (file_mode f AND 0xfff)) (disk w1)"
    using md by (auto simp: setFileMode_def chmod_call_def dest!: sys_Inr)
  then have "node_at (disk w') (walk (target @ p)) = Some (File c (file_mode f AND 0xfff))"
    using node_at_File_root [OF m] by (simp add: node_at_update_same)
  then show ?thesis
    using c by (auto simp: restored_def target_place_def p assemble_iff file_is_def)
qed

lemma restore_file_keeps:
  assumes "clear_of target f g"
  shows "keeps (on_disk (kept {target_place target g} d0)) (restore_file T repo target f)"
proof (cases "safeRelativePath (relative_path f) ''manifest relative_path''")
  case (Inr p)
  then have p: "walk (target @ p) \<notin> {target_place target g}"
      "\<And>t. temp_of (target @ p) t \<Longrightarrow> t \<notin> {target_place target g}"
    using assms by (auto simp: clear_of_def)
  have "keeps (on_disk (kept {target_place target g} d0)) (setFileMode (target @ p) mode)" for mode
    unfolding setFileMode_def using p(1)
    by (intro keeps_sys) (auto simp: chmod_call_def intro!: kept_update split: option.splits node.splits)
  then show ?thesis
    unfolding restore_file_def Inr io_lift_steps
    by (intro keeps_intro keeps_writeFileAtomic_kept [OF p])
qed (simp add: restore_file_def io_lift_steps keeps_bind keeps_query keeps_throw)

lemma restored_kept: "kept {target_place target f} d d' \<Longrightarrow> restored T target d f \<Longrightarrow> restored T target d' f"
  unfolding restored_def by (blast dest: keptD)

lemma restore_files_run:
  "io_foreach (restore_file T repo target) fs w = (Inr u, w') \<Longrightarrow>
     (\<forall>i < length fs. \<forall>j < i. clear_of target (fs ! i) (fs ! j)) \<Longrightarrow> \<forall>f \<in> set fs. restored T target (disk w') f"
proof (induction fs arbitrary: w u w' rule: rev_induct)
  case (snoc g fs)
  obtain w1 where pre: "io_foreach (restore_file T repo target) fs w = (Inr (), w1)"
    and last: "restore_file T repo target g w1 = (Inr u, w')"
    using snoc.prems(1) by (auto simp: io_foreach_snoc)
  have "clear_of target (fs ! i) (fs ! j)" if "i < length fs" "j < i" for i j
    using snoc.prems(2) [rule_format, of i j] that by (simp add: nth_append)
  then have "\<forall>i < length fs. \<forall>j < i. clear_of target (fs ! i) (fs ! j)" by blast
  then have old: "\<forall>f \<in> set fs. restored T target (disk w1) f" by (rule snoc.IH [OF pre])
  have clear: "clear_of target g f" if "f \<in> set fs" for f
    using that snoc.prems(2) [rule_format, of "length fs"] by (auto simp: in_set_conv_nth nth_append)
  have "restored T target (disk w') f" if "f \<in> set fs" for f
    using keepsD_eq [OF restore_file_keeps [OF clear [OF that], of "disk w1"] _ last] old that
    by (auto intro: restored_kept)
  then show ?case using restore_file_run [OF last] by simp
qed simp

section \<open>What survives a backup\<close>

lemma file_is_kept:
  "kept (durable repo V) d d' \<Longrightarrow> file_is T d repo f c \<Longrightarrow> file_is T d' repo f c"
  unfolding file_is_def pieces_def
  by (blast intro: list_all2_mono readRaw_kept kept_durable_objects)

lemma load_kept:
  assumes "kept (durable repo V) d d'" and "v \<in> V" and "is_regular d (commitPath repo v)" and "load d repo v = Inr m"
  shows "load d' repo v = Inr m"
proof -
  obtain c md where "node_at d (walk (manifestPath repo v)) = Some (File c md)" "parse (string_of_bytes c) = Inr m"
    using assms(4) by (auto simp: load_def readTextFile_def res_simps split: if_splits)
  moreover have "is_regular d' (commitPath repo v)"
    using assms(3) keptD [OF assms(1) version_durable(2) [OF assms(2)]] by (auto simp: is_regular_iff)
  ultimately show ?thesis
    using keptD [OF assms(1) version_durable(1) [OF assms(2)]]
    by (auto simp: load_def isCommitted_def exists_path_def is_regular_iff readTextFile_def readFile_def)
qed

lemma verify_iff:
  "verify T d repo v = Inr () \<longleftrightarrow> (\<exists>m. load d repo v = Inr m \<and> (\<forall>f \<in> set (files m). \<exists>c. file_is T d repo f c))"
  by (auto simp: verify_def res_simps verify_files_iff)

section \<open>When a version verifies\<close>

text \<open>
  The chunks of a source, and a collision: an object of the store with the hash of one of them
  and other contents.
\<close>

definition source_chunks :: "chunking_mode \<Rightarrow> fs \<Rightarrow> path \<Rightarrow> bytes set" where
  "source_chunks mode d source =
     {ch_data ch | k c md ch. k \<in> set (source_places d source) \<and> node_at d k = Some (File c md)
        \<and> ch \<in> set (chunkBytes_mode mode c)}"

definition collision :: "third_party \<Rightarrow> fs \<Rightarrow> path \<Rightarrow> bytes set \<Rightarrow> bool" where
  "collision T d repo raws \<longleftrightarrow>
     (\<exists>raw \<in> raws. \<exists>sha p x. readRaw T d repo sha p = Inr x \<and> x \<noteq> raw \<and> sha256Hex T x = sha256Hex T raw)"

lemma stored_as_exact:
  assumes "stored_as T d repo refs raws"
  shows "pieces T d repo refs raws \<or> collision T d repo (set raws)"
proof -
  obtain xs where xs: "pieces T d repo refs xs" "list_all2 (same_hash T) xs raws"
    using assms by (auto simp: stored_as_def)
  show ?thesis
  proof (cases "xs = raws")
    case False
    then obtain i where i: "i < length xs" "xs ! i \<noteq> raws ! i" "length xs = length raws"
      using list_all2_lengthD [OF xs(2)] by (auto simp: list_eq_iff_nth_eq)
    have "readRaw T d repo (chunk_sha256 (refs ! i)) (object_path (refs ! i)) = Inr (xs ! i)"
      using xs(1) i list_all2_nthD2 [of _ refs xs i] by (auto simp: pieces_def)
    moreover have "sha256Hex T (xs ! i) = sha256Hex T (raws ! i)"
      using list_all2_nthD [OF xs(2) i(1)] by (simp add: same_hash_def)
    ultimately have "collision T d repo (set raws)"
      using i unfolding collision_def by (intro bexI [of _ "raws ! i"]) auto
    then show ?thesis ..
  qed (use xs in simp)
qed

lemma describes_file_is:
  assumes "describes T d0 d repo mode (scanned_at source k) f" and "k \<in> set (source_places d0 source)"
  shows "(\<exists>c md. node_at d0 k = Some (File c md) \<and> file_is T d repo f c) \<or> collision T d repo (source_chunks mode d0 source)"
proof -
  obtain c md where c: "node_at d0 k = Some (File c md)" "file_size f = word_of_nat (length c)"
      "sha256Hex T c = Inr (file_sha256 f)"
    and st: "stored_as T d repo (chunks f) (map ch_data (chunkBytes_mode mode c))"
    using assms entry_place(1) [OF assms(2)] by (auto simp: describes_def)
  from stored_as_exact [OF st] show ?thesis
  proof
    assume "pieces T d repo (chunks f) (map ch_data (chunkBytes_mode mode c))"
    then have "file_is T d repo f c"
      using c mode_chunks.join [of mode c] unfolding file_is_def by auto
    then show ?thesis using c by blast
  next
    have sub: "set (map ch_data (chunkBytes_mode mode c)) \<subseteq> source_chunks mode d0 source"
      using c(1) assms(2) by (auto simp: source_chunks_def)
    assume "collision T d repo (set (map ch_data (chunkBytes_mode mode c)))"
    then show ?thesis using sub unfolding collision_def by blast
  qed
qed

lemma created_verifies:
  assumes "created_as T d0 source repo mode d r m" and "load d repo (br_version r) = Inr m"
  shows "verify T d repo (br_version r) = Inr () \<or> collision T d repo (source_chunks mode d0 source)"
proof (rule disjCI)
  assume none: "\<not> collision T d repo (source_chunks mode d0 source)"
  obtain ks where ks: "set ks = set (source_places d0 source)"
    and desc: "list_all2 (\<lambda>k f. describes T d0 d repo mode (scanned_at source k) f) ks (files m)"
    using assms(1) by (auto simp: created_as_def)
  have "\<exists>c. file_is T d repo f c" if f: "f \<in> set (files m)" for f
  proof -
    obtain k where "k \<in> set ks" "describes T d0 d repo mode (scanned_at source k) f"
      using list_all2_mem [OF desc f] by blast
    then show ?thesis using describes_file_is none ks by blast
  qed
  then show "verify T d repo (br_version r) = Inr ()" using assms(2) by (auto simp: verify_iff)
qed

section \<open>From a source to its restored copy\<close>

text \<open>No file of the source has the name of a temporary file of another one.\<close>

definition no_temp_clash :: "fs \<Rightarrow> path \<Rightarrow> path \<Rightarrow> bool" where
  "no_temp_clash d source target \<longleftrightarrow>
     (\<forall>k \<in> set (source_places d source). \<forall>k' \<in> set (source_places d source).
        \<not> temp_of (target @ sf_relative (scanned_at source k)) (walk target @ sf_relative (scanned_at source k')))"

lemma relative_names:
  assumes "k \<in> set (source_places d source)"
  shows "k = walk source @ sf_relative (scanned_at source k)"
    and "walk (target @ sf_relative (scanned_at source k)) = walk target @ sf_relative (scanned_at source k)"
proof -
  let ?n = "drop (length (walk source)) k"
  have n: "sf_relative (scanned_at source k) = ?n" by (simp add: scanned_at_def Let_def)
  show "k = walk source @ sf_relative (scanned_at source k)"
    using assms unfolding n by (metis append_take_drop_id source_places_iff)
  have "list_all plain_name ?n"
    using assms by (auto simp: source_places_iff list_all_iff entry_name_def)
  then show "walk (target @ sf_relative (scanned_at source k)) = walk target @ sf_relative (scanned_at source k)"
    unfolding n by (rule walk_plain)
qed

lemma describes_place:
  assumes "describes T d0 d repo mode (scanned_at source k) f" and "k \<in> set (source_places d0 source)"
  shows "safeRelativePath (relative_path f) field = Inr (sf_relative (scanned_at source k))"
    and "target_place target f = walk target @ sf_relative (scanned_at source k)"
proof -
  show safe: "safeRelativePath (relative_path f) field = Inr (sf_relative (scanned_at source k))" for field
    using assms(1) safeRelativePath_join [OF entry_place(2) [OF assms(2)]] by (simp add: describes_def)
  show "target_place target f = walk target @ sf_relative (scanned_at source k)"
    using relative_names(2) [OF assms(2)] by (simp add: target_place_def safe)
qed

lemma created_clear:
  assumes desc: "list_all2 (\<lambda>k f. describes T d0 d repo mode (scanned_at source k) f) ks fs"
    and ks: "set ks = set (source_places d0 source)" "length ks = length (source_places d0 source)"
    and clash: "no_temp_clash d0 source target" and ij: "i < length fs" "j < i"
  shows "clear_of target (fs ! i) (fs ! j)"
proof -
  have n: "length ks = length fs" by (rule list_all2_lengthD [OF desc])
  have "distinct ks" using ks source_places_distinct by (metis card_distinct distinct_card)
  then have ne: "ks ! i \<noteq> ks ! j" using ij n by (simp add: nth_eq_iff_index_eq)
  have mem: "ks ! i \<in> set (source_places d0 source)" "ks ! j \<in> set (source_places d0 source)"
    using ij n ks(1) nth_mem [of i ks] nth_mem [of j ks] by auto
  have "describes T d0 d repo mode (scanned_at source (ks ! i)) (fs ! i)"
      "describes T d0 d repo mode (scanned_at source (ks ! j)) (fs ! j)"
    using list_all2_nthD2 [OF desc] ij by simp_all
  note pi = describes_place [OF this(1) mem(1)] and pj = describes_place [OF this(2) mem(2)]
  have "sf_relative (scanned_at source (ks ! i)) \<noteq> sf_relative (scanned_at source (ks ! j))"
    using ne relative_names(1) [OF mem(1)] relative_names(1) [OF mem(2)] by metis
  then show ?thesis
    using clash mem relative_names(2) [OF mem(1)] unfolding clear_of_def pi(1) pj(2) no_temp_clash_def by simp
qed

lemma created_restored:
  assumes "created_as T d0 source repo mode d r m" and "load (disk w) repo (br_version r) = Inr m"
    and "no_temp_clash d0 source target" and run: "restore T repo (br_version r) target w = (Inr u, w')"
    and k: "k \<in> set (source_places d0 source)" and c: "node_at d0 k = Some (File c md)"
  shows "\<exists>c'. node_at (disk w') (walk target @ sf_relative (scanned_at source k)) = Some (File c' (md AND 0x1ff))
    \<and> sha256Hex T c' = sha256Hex T c \<and> (word_of_nat (length c') :: u64) = word_of_nat (length c)"
proof -
  obtain ks where ks: "set ks = set (source_places d0 source)" "length ks = length (source_places d0 source)"
    and desc: "list_all2 (\<lambda>k f. describes T d0 d repo mode (scanned_at source k) f) ks (files m)"
    using assms(1) by (auto simp: created_as_def)
  obtain w1 where fold: "io_foreach (restore_file T repo target) (files m) w1 = (Inr u, w')"
    using run assms(2) by (auto simp: restore_def res_simps)
  have all: "\<forall>f \<in> set (files m). restored T target (disk w') f"
    by (rule restore_files_run [OF fold]) (use created_clear [OF desc ks assms(3)] in blast)
  obtain f where f: "f \<in> set (files m)" "describes T d0 d repo mode (scanned_at source k) f"
    using list_all2_mem1 [OF desc] k ks(1) by auto
  have "file_size f = word_of_nat (length c)" "file_mode f = md AND 0x1ff" "sha256Hex T c = Inr (file_sha256 f)"
    using f(2) c entry_place(1) [OF k] by (auto simp: describes_def)
  moreover have "(md AND 0x1ff) AND 0xfff = md AND (0x1ff :: u32)" by (simp add: and.assoc)
  ultimately show ?thesis
    using all f(1) describes_place(2) [OF f(2) k] by (auto simp: restored_def)
qed

section \<open>A version that was kept\<close>

lemma version_survives_kept:
  assumes "kept (durable repo (committed d repo)) d d'"
    and "is_regular d (commitPath repo v)" and "unat v < 10 ^ 6" and "load d repo v = Inr m"
  shows "load d' repo v = Inr m \<and> (\<forall>f c. file_is T d repo f c \<longrightarrow> file_is T d' repo f c)
    \<and> (verify T d repo v = Inr () \<longrightarrow> verify T d' repo v = Inr ())"
proof -
  have "v \<in> committed d repo" using assms by (simp add: committed_def)
  then have load: "load d' repo v = Inr m" by (rule load_kept [OF assms(1) _ assms(2,4)])
  have same: "file_is T d' repo f c" if "file_is T d repo f c" for f c
    by (rule file_is_kept [OF assms(1) that])
  have "verify T d' repo v = Inr ()" if "verify T d repo v = Inr ()"
    using that same unfolding verify_iff load assms(4) by blast
  with load same show ?thesis by blast
qed

section \<open>Properties\<close>

text \<open>C1: a backup cannot harm a committed version. Whatever happens to the calls of \<open>create\<close>, and
  wherever the process is cut off, a version committed before still loads as the same manifest,
  its files still are what they were, and it verifies if it did. (Version numbers below one
  million.)\<close>

theorem committed_version_survives:
  assumes "is_regular (disk w) (commitPath repo v)" and "unat v < 10 ^ 6" and "load (disk w) repo v = Inr m"
  shows "load (disk (snd (create T cwd source repo mode faults w))) repo v = Inr m
    \<and> (\<forall>f c. file_is T (disk w) repo f c \<longrightarrow> file_is T (disk (snd (create T cwd source repo mode faults w))) repo f c)
    \<and> (verify T (disk w) repo v = Inr () \<longrightarrow>
         verify T (disk (snd (create T cwd source repo mode faults w))) repo v = Inr ())"
  by (rule version_survives_kept [OF spares_create assms])

definition empty_manifest :: manifest where
  "empty_manifest = sample_manifest\<lparr>files := []\<rparr>"

definition one_version :: fs where
  "one_version =
     [([''r'', ''manifests'', ''version-000001.commit''], File [] 0x1a4),
      ([''r'', ''manifests'', ''version-000001.manifest''], File (bytes_of_string (serialize empty_manifest)) 0x1a4)]"

lemma one_version_loads:
  "is_regular one_version (commitPath [''r''] 1)" "load one_version [''r''] 1 = Inr empty_manifest"
  "verify toy one_version [''r''] 1 = Inr ()"
proof -
  have wf: "wf_manifest empty_manifest"
    by (simp add: empty_manifest_def sample_manifest_def wf_manifest_def)
  have name: "versionFileName 1 ''.manifest'' = ''version-000001.manifest''"
    by (simp add: versionFileName_def zeroPadVersion_def sample_decimals Let_def) (simp add: numeral_eq_Suc)
  have p: "walk (commitPath [''r''] 1) = [''r'', ''manifests'', ''version-000001.commit'']"
      "walk (manifestPath [''r''] 1) = [''r'', ''manifests'', ''version-000001.manifest'']"
    unfolding walk_version_paths walk_r sample_names name by simp_all
  show "is_regular one_version (commitPath [''r''] 1)"
    by (simp add: is_regular_def p one_version_def node_at_def)
  show "load one_version [''r''] 1 = Inr empty_manifest"
    using parse_serialize [OF wf]
    by (simp add: load_def isCommitted_def exists_path_def readTextFile_def readFile_def p one_version_def node_at_def)
  then show "verify toy one_version [''r''] 1 = Inr ()"
    by (simp add: verify_iff empty_manifest_def)
qed

theorem committed_version_survives_witness:
  "load (disk (snd (create toy [] [''s''] [''r''] Fixed AfterObjectWrite (quiet_world one_version)))) [''r''] 1
     = Inr empty_manifest
   \<and> verify toy (disk (snd (create toy [] [''s''] [''r''] Fixed AfterObjectWrite (quiet_world one_version)))) [''r''] 1
     = Inr ()"
  using committed_version_survives [of "quiet_world one_version" "[''r'']" 1 empty_manifest toy
      "[]" "[''s'']" Fixed AfterObjectWrite] one_version_loads
  by simp

text \<open>C12: a backup writes nothing outside of its repository, and a restore nothing outside of its
  target, however they end and whatever the manifest says: every regular file elsewhere is as it
  was, and there is no new one.\<close>

theorem backup_stays_in_repository:
  "untouched (outside_of repo) (disk w) (disk (snd (create T cwd source repo mode faults w)))"
  using keepsD [OF stays.whole_backup [of repo "disk w" T cwd source mode faults], of w] by simp

text \<open>C11: a restore writes nothing outside of its target, even from a manifest made by an attacker.\<close>

theorem restore_stays_in_target:
  "untouched (outside_of target) (disk w) (disk (snd (restore T repo version target w)))"
  using keepsD [OF stays_restore [of target "disk w" T repo version], of w] by simp

text \<open>C21: verifying and restoring agree. A version of which no file is too long for a vector verifies
  exactly when every one of its files can be assembled from the store with the recorded size and
  hash, which is what a restore writes.\<close>

theorem verify_restore_agree:
  assumes "load d repo v = Inr m" and "\<forall>f \<in> set (files m). unat (file_size f) \<le> vector_max_size"
  shows "verify T d repo v = Inr () \<longleftrightarrow> (\<forall>f \<in> set (files m). \<exists>data. assemble T d repo f = Inr data)"
  using assms by (auto simp: verify_iff assemble_iff)

theorem verify_restore_agree_witness:
  "verify toy one_version [''r''] 1 = Inr () \<longleftrightarrow>
     (\<forall>f \<in> set (files empty_manifest). \<exists>data. assemble toy one_version [''r''] f = Inr data)"
  by (rule verify_restore_agree [OF one_version_loads(2)]) (simp add: empty_manifest_def)

text \<open>C9: a backup is complete. When \<open>create\<close> returned, its version is committed and loads as a
  manifest with the version, mode and counts of the result, in which every regular file of the
  source is described once: relative path, size, permissions and SHA-256 of the contents it had
  when the backup began, and chunk references whose objects are all in the store, with the sizes
  and hashes of the chunks of the file.\<close>

theorem backup_describes_source:
  assumes "zstd_ok T" and "apart source repo" and "small_source (disk w) source"
  shows "case create T cwd source repo mode faults w of
      (Inl _, _) \<Rightarrow> True
    | (Inr r, w') \<Rightarrow> \<exists>m. load (disk w') repo (br_version r) = Inr m
        \<and> created_as T (disk w) source repo mode (disk w') r m"
  using create_run [OF _ assms] by (auto split: prod.splits sum.splits) blast

definition sample_source :: fs where
  "sample_source = [([''s''], Directory), ([''s'', ''a''], File [1, 2, 3] 0x1a4), ([''r''], Directory)]"

lemma sample_source_ok: "apart [''s''] [''r'']" "small_source sample_source [''s'']"
    "no_temp_clash sample_source [''s''] [''t'']"
    "source_places sample_source [''s''] = [[''s'', ''a'']]"
proof -
  have w: "walk [''s''] = [''s'']" "walk [''r''] = [''r'']" "walk [''t''] = [''t'']"
    by (simp_all add: walk_def walk_step_def dot_def dotdot_def)
  show "apart [''s''] [''r'']" by (simp add: apart_def w)
  have a: "entry_name ''a''" by (simp add: entry_name_def plain_name_def dot_def dotdot_def)
  show places: "source_places sample_source [''s''] = [[''s'', ''a'']]"
    by (simp add: source_places_def recursive_entries_def w sample_source_def is_file_place_def node_at_def a)
  show "small_source sample_source [''s'']"
    unfolding small_source_def places short_file_def by (simp add: sample_source_def node_at_def)
  have "\<not> temp_of ([''t''] @ [''a'']) [''t'', ''a'']"
    using temp_of_not_final [of "[''a'']" "[''t'']"] a w
    by (auto simp: walk_plain [of "[''a'']" "[''t'']", simplified] entry_name_def)
  then show "no_temp_clash sample_source [''s''] [''t'']"
    by (simp add: no_temp_clash_def places scanned_at_def Let_def w)
qed

theorem backup_describes_source_witness:
  "case create toy [] [''s''] [''r''] Fixed NoFault (quiet_world sample_source) of
      (Inl _, _) \<Rightarrow> True
    | (Inr r, w') \<Rightarrow> \<exists>m. load (disk w') [''r''] (br_version r) = Inr m
        \<and> created_as toy sample_source [''s''] [''r''] Fixed (disk w') r m"
  by (rule backup_describes_source [OF toy_ok(1) sample_source_ok(1), where w = "quiet_world sample_source"
      and cwd = "[]" and mode = Fixed and faults = NoFault, unfolded disk_quiet, OF sample_source_ok(2)])

text \<open>C10: a backup that returned verifies, unless the store holds an object with the SHA-256 of a chunk
  of the source and other contents.\<close>

theorem backup_verifies:
  assumes "zstd_ok T" and "apart source repo" and "small_source (disk w) source"
  shows "case create T cwd source repo mode faults w of
      (Inl _, _) \<Rightarrow> True
    | (Inr r, w') \<Rightarrow> verify T (disk w') repo (br_version r) = Inr ()
        \<or> collision T (disk w') repo (source_chunks mode (disk w) source)"
proof (cases "create T cwd source repo mode faults w")
  case (Pair out w')
  show ?thesis
  proof (cases out)
    case (Inr r)
    then show ?thesis using Pair create_run [OF _ assms] created_verifies by fastforce
  qed (use Pair in simp)
qed

theorem backup_verifies_witness:
  "case create toy [] [''s''] [''r''] ContentDefined NoFault (quiet_world sample_source) of
      (Inl _, _) \<Rightarrow> True
    | (Inr r, w') \<Rightarrow> verify toy (disk w') [''r''] (br_version r) = Inr ()
        \<or> collision toy (disk w') [''r''] (source_chunks ContentDefined sample_source [''s''])"
  by (rule backup_verifies [OF toy_ok(1) sample_source_ok(1), where w = "quiet_world sample_source"
      and cwd = "[]" and mode = ContentDefined and faults = NoFault, unfolded disk_quiet, OF sample_source_ok(2)])

text \<open>C2: from a source to its restored copy. When \<open>create\<close> returned, and then \<open>restore\<close> of its version
  returned, every regular file of the source is below the target under its relative path, with
  its permission bits, its size, and contents with the same SHA-256.\<close>

theorem backup_restore_round_trip:
  assumes "zstd_ok T" and "apart source repo" and "small_source (disk w) source"
    and "no_temp_clash (disk w) source target"
  shows "case create T cwd source repo mode faults w of
      (Inl _, _) \<Rightarrow> True
    | (Inr r, w1) \<Rightarrow> (case restore T repo (br_version r) target w1 of
          (Inl _, _) \<Rightarrow> True
        | (Inr _, w') \<Rightarrow> \<forall>k \<in> set (source_places (disk w) source). \<forall>c md. node_at (disk w) k = Some (File c md) \<longrightarrow>
            (\<exists>c'. node_at (disk w') (walk target @ sf_relative (scanned_at source k)) = Some (File c' (md AND 0x1ff))
               \<and> sha256Hex T c' = sha256Hex T c \<and> (word_of_nat (length c') :: u64) = word_of_nat (length c)))"
proof (cases "create T cwd source repo mode faults w")
  case (Pair out w1)
  show ?thesis
  proof (cases out)
    case (Inr r)
    obtain m where "load (disk w1) repo (br_version r) = Inr m" "created_as T (disk w) source repo mode (disk w1) r m"
      using create_run [OF _ assms(1-3)] Pair Inr by blast
    then show ?thesis
      using Pair Inr created_restored [OF _ _ assms(4)] by (auto split: prod.splits sum.splits)
  qed (use Pair in simp)
qed

theorem backup_restore_round_trip_witness:
  "case create toy [] [''s''] [''r''] Fixed NoFault (quiet_world sample_source) of
      (Inl _, _) \<Rightarrow> True
    | (Inr r, w1) \<Rightarrow> (case restore toy [''r''] (br_version r) [''t''] w1 of
          (Inl _, _) \<Rightarrow> True
        | (Inr _, w') \<Rightarrow> \<forall>k \<in> set (source_places sample_source [''s'']). \<forall>c md. node_at sample_source k = Some (File c md) \<longrightarrow>
            (\<exists>c'. node_at (disk w') (walk [''t''] @ sf_relative (scanned_at [''s''] k)) = Some (File c' (md AND 0x1ff))
               \<and> sha256Hex toy c' = sha256Hex toy c \<and> (word_of_nat (length c') :: u64) = word_of_nat (length c)))"
  by (rule backup_restore_round_trip [OF toy_ok(1) sample_source_ok(1), where w = "quiet_world sample_source"
      and target = "[''t'']" and cwd = "[]" and mode = Fixed and faults = NoFault,
      unfolded disk_quiet, OF sample_source_ok(2,3)])

section \<open>The numbers of versions\<close>

lemma chunks_number:
  "io_fold (backup_chunk T repo faults) cs st w = (Inr st', w') \<Longrightarrow> br_version (cl_result st') = br_version (cl_result st)"
  by (induction cs arbitrary: st w)
    (fastforce simp: backup_chunk_def count_chunk_def Let_def res_simps split: if_splits)+

lemma files_number:
  "io_fold (backup_file T repo mode faults) fs s w = (Inr s', w') \<Longrightarrow> br_version (snd s') = br_version (snd s)"
  by (induction fs arbitrary: s w)
    (fastforce simp: backup_file_def Let_def res_simps split: prod.splits dest: chunks_number)+

text \<open>A backup that returned took its number from the listing, and wrote to the places of no other version.\<close>

lemma create_number:
  assumes "create T cwd source repo mode faults w = (Inr r, w')"
  obtains w1 :: world where "nextVersion (disk w1) repo = Inr (br_version r)" and "is_dir (disk w1) (repo @ [''manifests''])"
    and "\<forall>V. kept (durable repo V) (disk w) (disk w1)"
    and "\<forall>V. br_version r \<notin> V \<longrightarrow> kept (durable repo V) (disk w1) (disk w')"
    and "is_regular (disk w') (commitPath repo (br_version r))"
proof -
  obtain w1 w2 u1 rest v where layout: "ensureLayout repo w = (Inr u1, w1)" and v: "nextVersion (disk w1) repo = Inr v"
    and rest: "rest v w1 = (Inr r, w')"
    and rest_def: "rest = (\<lambda>version. io_seq (wal_append_text repo BeginBackup (version_text version)) (
     io_seq (trigger faults AfterBegin) (
     io_bind nowSeconds (\<lambda>now.
     io_bind (io_lift (absolute_text cwd source)) (\<lambda>root.
     let m = \<lparr>m_version = version, created_at = now, chunking = mode, source_root = root,
              total_input_bytes = 0, total_stored_bytes = 0, files = []\<rparr>;
         r = \<lparr>br_version = version, br_file_count = 0, br_total_input_bytes = 0,
              br_total_stored_bytes = 0, br_total_chunks = 0, br_unique_chunks = 0, br_duplicate_chunks = 0\<rparr> in
     io_bind (io_query (\<lambda>w. scanRegularFiles (disk w) source)) (\<lambda>scanned.
     io_bind (io_fold (backup_file T repo mode faults) scanned (m, r)) (\<lambda>(m, r).
     let r = r\<lparr>br_file_count := word_of_nat (length (files m)),
               br_total_input_bytes := total_input_bytes m,
               br_total_stored_bytes := total_stored_bytes m\<rparr> in
     io_seq (commit_version repo faults version m) (
     io_return r))))))))"
    using assms unfolding create_def by (auto simp: io_seq_Inr io_bind_Inr res_simps)
  obtain m w4 u5 where number: "br_version r = v" and com: "commit_version repo faults v m w4 = (Inr u5, w')"
    using rest files_number unfolding rest_def nowSeconds_def Let_def
    by (fastforce simp: res_simps split: prod.splits)
  have before: "kept (durable repo V) (disk w) (disk w1)" for V using keepsD_eq [OF keeps_ensureLayout _ layout] by simp
  have after: "kept (durable repo V) (disk w1) (disk w')" if "v \<notin> V" for V
  proof -
    have "keeps (spares repo V (disk w1)) (rest v)"
      unfolding rest_def nowSeconds_def Let_def
      using that by (auto intro!: keeps_intro spares_commit_version split: prod.splits)
    from keepsD_eq [OF this _ rest] show ?thesis by simp
  qed
  show ?thesis
    using that [of w1] v ensureLayout_dirs [OF layout] before after commit_version_run [OF com] number by simp
qed

lemma kept_marker: "kept (durable repo V) d d' \<Longrightarrow> v \<in> V \<Longrightarrow> is_regular d (commitPath repo v) \<Longrightarrow> is_regular d' (commitPath repo v)"
  using keptD [OF _ version_durable(2)] by (metis is_regular_iff)

lemma next_above:
  assumes "nextVersion d repo = Inr n" and "is_dir d (repo @ [''manifests''])"
    and "unat v < 10 ^ 6" and "is_regular d (commitPath repo v)"
  shows "v < n \<and> unat n \<le> 10 ^ 6"
proof -
  obtain vs where "listCommittedVersions d repo = Inr vs"
    using assms(1) by (auto simp: nextVersion_def res_simps)
  then show ?thesis using nextVersion_above [OF assms(1)] nextVersion_fresh [OF assms(1)] assms(2-4) by blast
qed

lemma next_million:
  assumes "nextVersion d repo = Inr n" and "is_dir d (repo @ [''manifests''])"
  shows "0 < n \<and> unat n \<le> 10 ^ 6 \<and> (unat n = 10 ^ 6 \<longrightarrow> is_regular d (commitPath repo 999999))"
proof -
  obtain vs where vs: "listCommittedVersions d repo = Inr vs"
    using assms(1) by (auto simp: nextVersion_def res_simps)
  note bounds = nextVersion_above [OF assms(1) vs]
  have "is_regular d (commitPath repo 999999)" if n: "unat n = 10 ^ 6"
  proof (cases "vs = []")
    case True
    then have "n = 1" using assms(1) vs by (simp add: nextVersion_def)
    then show ?thesis using n by simp
  next
    case False
    then have "n = last vs + 1" using assms(1) vs by (simp add: nextVersion_def)
    moreover have "n = 1000000" using n by (simp add: word_unat_eq_iff)
    ultimately have "last vs = 999999" by (simp add: algebra_simps)
    then have "999999 \<in> set vs" using False last_in_set by metis
    then show ?thesis using listCommittedVersions_mem [OF vs] by blast
  qed
  then show ?thesis using bounds by blast
qed

text \<open>C33: backups are numbered upwards, up to one million and no further. The number of a backup that
  returned is between 1 and one million and greater than that of every version (below one million) that was
  committed before; its marker is there; and of two backups, one after the other, the second has a greater
  number, unless the first had number one million: then the second has that number too, and commits over it,
  because a marker with seven digits is never listed.\<close>

theorem backup_numbers:
  "case create T cwd source repo mode faults w of
     (Inl _, _) \<Rightarrow> True
   | (Inr r, w') \<Rightarrow>
       0 < br_version r \<and> unat (br_version r) \<le> 10 ^ 6 \<and> (\<forall>v \<in> committed (disk w) repo. v < br_version r)
       \<and> is_regular (disk w') (commitPath repo (br_version r))
       \<and> (case create T cwd' source' repo mode' faults' w' of
            (Inl _, _) \<Rightarrow> True
          | (Inr r', _) \<Rightarrow>
              if unat (br_version r) < 10 ^ 6 then br_version r < br_version r' else br_version r' = br_version r)"
proof (cases "create T cwd source repo mode faults w")
  case (Pair out w')
  show ?thesis
  proof (cases out)
    case (Inr r)
    have run: "create T cwd source repo mode faults w = (Inr r, w')" using Pair Inr by simp
    obtain w1 :: world where one: "nextVersion (disk w1) repo = Inr (br_version r)" "is_dir (disk w1) (repo @ [''manifests''])"
        "\<forall>V. kept (durable repo V) (disk w) (disk w1)"
        "\<forall>V. br_version r \<notin> V \<longrightarrow> kept (durable repo V) (disk w1) (disk w')"
        "is_regular (disk w') (commitPath repo (br_version r))"
      by (rule create_number [OF run])
    note bounds = next_million [OF one(1,2)]
    have above: "\<forall>v \<in> committed (disk w) repo. v < br_version r"
      using next_above [OF one(1,2)] kept_marker [OF spec [OF one(3)] UNIV_I] by (auto simp: committed_def)
    have second: "if unat (br_version r) < 10 ^ 6 then br_version r < br_version r' else br_version r' = br_version r"
      if run: "create T cwd' source' repo mode' faults' w' = (Inr r', w'')" for r' w''
    proof -
      obtain w2 :: world where two: "nextVersion (disk w2) repo = Inr (br_version r')" "is_dir (disk w2) (repo @ [''manifests''])"
          "\<forall>V. kept (durable repo V) (disk w') (disk w2)"
        by (rule create_number [OF run])
      note limit = next_million [OF two(1,2)]
      show ?thesis
      proof (cases "unat (br_version r) < 10 ^ 6")
        case True
        then show ?thesis using next_above [OF two(1,2) True kept_marker [OF spec [OF two(3)] UNIV_I one(5)]] by simp
      next
        case False
        then have r: "unat (br_version r) = 10 ^ 6" using bounds by linarith
        then have last: "is_regular (disk w1) (commitPath repo 999999)" using bounds by blast
        have "br_version r \<noteq> 999999" using r by auto
        then have "is_regular (disk w2) (commitPath repo 999999)"
          using kept_marker [OF spec [OF two(3)] UNIV_I kept_marker [OF mp [OF spec [OF one(4), of "{999999}"]] _ last]] by simp
        then have "999999 < br_version r'" using next_above [OF two(1,2), of 999999] by simp
        then have "10 ^ 6 \<le> unat (br_version r')" by (simp add: word_less_nat_alt)
        then have "unat (br_version r') = unat (br_version r)" using limit r by linarith
        then show ?thesis using False by (simp add: word_unat_eq_iff)
      qed
    qed
    have "case create T cwd' source' repo mode' faults' w' of (Inl _, _) \<Rightarrow> True
        | (Inr r', _) \<Rightarrow> if unat (br_version r) < 10 ^ 6 then br_version r < br_version r' else br_version r' = br_version r"
    proof (cases "create T cwd' source' repo mode' faults' w'")
      case run': (Pair out' w'')
      show ?thesis
      proof (cases out')
        case second_result: (Inr r')
        show ?thesis
          unfolding run' second_result prod.case sum.case by (rule second) (simp only: run' second_result)
      qed (simp add: run')
    qed
    then show ?thesis unfolding Pair Inr prod.case sum.case using bounds above one(5) by blast
  qed (use Pair in simp)
qed

definition numbered_store :: fs where
  "numbered_store = sample_store @ sample_source"

theorem backup_numbers_witness:
  "case create toy [] [''s''] [''r''] Fixed NoFault (quiet_world numbered_store) of
     (Inl _, _) \<Rightarrow> True
   | (Inr r, w') \<Rightarrow> unat (br_version r) \<le> 10 ^ 6 \<and> 1 < br_version r"
proof -
  have "is_regular numbered_store (commitPath [''r''] 1)"
    unfolding is_regular_def walk_version_paths walk_r sample_names numbered_store_def by (simp add: sample_store_def node_at_def)
  then have "1 \<in> committed numbered_store [''r'']" by (simp add: committed_def)
  then show ?thesis
    using backup_numbers [where T = toy and cwd = "[]" and source = "[''s'']" and repo = "[''r'']" and mode = Fixed
        and faults = NoFault and w = "quiet_world numbered_store"]
    by (auto split: prod.splits sum.splits)
qed

end
