(* ===== verification/DPC_Session.thy ===== *)
theory DPC_Session
  imports DPC_Restore
begin

text \<open>
  The session index of an upload (src/network/SessionIndex.cpp): a text file with one line for
  every chunk the server took, from which the server answers which chunks it has and builds the
  manifest of the commit. \<open>std::map\<close> is an association list kept in the order of its keys;
  that order, and that lookup works on it, is the locale \<open>key_order\<close>.
\<close>

section \<open>Ordered maps\<close>

fun omap_set :: "('k \<Rightarrow> 'k \<Rightarrow> bool) \<Rightarrow> 'k \<Rightarrow> 'v \<Rightarrow> ('k \<times> 'v) list \<Rightarrow> ('k \<times> 'v) list" where
  "omap_set lt k v [] = [(k, v)]"
| "omap_set lt k v ((k', v') # xs) =
     (if lt k k' then (k, v) # (k', v') # xs
      else if lt k' k then (k', v') # omap_set lt k v xs
      else (k, v) # xs)"

locale key_order =
  fixes lt :: "'k \<Rightarrow> 'k \<Rightarrow> bool"
  assumes irrefl: "\<not> lt k k"
    and trans: "lt a b \<Longrightarrow> lt b c \<Longrightarrow> lt a c"
    and total: "\<not> lt a b \<Longrightarrow> \<not> lt b a \<Longrightarrow> a = b"
begin

abbreviation ordered :: "('k \<times> 'v) list \<Rightarrow> bool" where
  "ordered xs \<equiv> sorted_wrt lt (map fst xs)"

lemma omap_set_keys: "fst ` set (omap_set lt k v xs) = insert k (fst ` set xs)"
proof (induction xs)
  case (Cons x xs)
  obtain k' v' where x: "x = (k', v')" by fastforce
  show ?case using Cons total [of k k'] by (auto simp: x)
qed simp

lemma omap_set_ordered: "ordered xs \<Longrightarrow> ordered (omap_set lt k v xs)"
proof (induction xs)
  case (Cons x xs)
  obtain k' v' where x: "x = (k', v')" by fastforce
  have tl: "ordered xs" and le: "\<forall>j \<in> fst ` set xs. lt k' j" using Cons.prems by (simp_all add: x)
  show ?case
  proof (cases "lt k k'")
    case True
    then show ?thesis using Cons.prems le trans by (auto simp: x)
  next
    case False
    then show ?thesis
      using Cons.IH [OF tl] tl le total [of k k'] omap_set_keys [of k v xs] by (auto simp: x)
  qed
qed simp

lemma map_of_omap_set: "ordered xs \<Longrightarrow> map_of (omap_set lt k v xs) = (map_of xs)(k \<mapsto> v)"
proof (induction xs)
  case (Cons x xs)
  obtain k' v' where x: "x = (k', v')" by fastforce
  have "ordered xs" using Cons.prems by (simp add: x)
  note IH = Cons.IH [OF this]
  show ?case
  proof (cases "lt k k'")
    case True
    then show ?thesis using irrefl [of k] by (auto simp: x fun_eq_iff)
  next
    case False
    then show ?thesis using IH irrefl [of k'] total [of k k'] by (cases "k' = k") (auto simp: x)
  qed
qed simp

lemma omap_fold_ordered: "ordered xs \<Longrightarrow> ordered (foldl (\<lambda>m r. omap_set lt (f r) (g r) m) xs rs)"
  by (induction rs arbitrary: xs) (simp_all add: omap_set_ordered)

lemma map_of_omap_fold:
  "ordered xs \<Longrightarrow> map_of (foldl (\<lambda>m r. omap_set lt (f r) (g r) m) xs rs)
     = foldl (\<lambda>m r. m(f r \<mapsto> g r)) (map_of xs) rs"
  by (induction rs arbitrary: xs) (simp_all add: omap_set_ordered map_of_omap_set)

text \<open>An ordered list is determined by the map it stands for.\<close>

lemma ordered_keys_distinct: "ordered xs \<Longrightarrow> distinct (map fst xs)"
  by (induction xs) (auto simp: irrefl)

end

definition string_less :: "string \<Rightarrow> string \<Rightarrow> bool" where
  "string_less a b \<longleftrightarrow> map char_code a < map char_code b"

lemma char_code_inj: "char_code a = char_code b \<longleftrightarrow> a = b"
  by (metis char_of_byte_of_char unat_byte_of_char unsigned_word_eqI)

interpretation index_order: key_order "(<) :: u64 \<Rightarrow> u64 \<Rightarrow> bool"
  by unfold_locales auto

interpretation name_order: key_order string_less
proof
  fix a b :: string
  assume "\<not> string_less a b" and "\<not> string_less b a"
  then have "map char_code a = map char_code b" by (simp add: string_less_def)
  moreover have "inj char_code" by (rule injI) (simp add: char_code_inj)
  ultimately show "a = b" by (simp add: inj_map_eq_map)
qed (auto simp: string_less_def)

section \<open>The index file\<close>

record received_chunk =
  rc_global_index :: u64
  rc_sha256 :: string
  rc_relative_path :: string
  rc_file_size :: u64
  rc_file_mode :: u32
  rc_file_sha256 :: string
  rc_chunk_index :: u64
  rc_raw_size :: u64
  rc_compressed_size :: u64
  rc_object_path :: string

definition session_file :: "string \<Rightarrow> string" where
  "session_file sid = hexEncodeString sid @ ''.session''"

definition session_path :: "path \<Rightarrow> string \<Rightarrow> path" where
  "session_path repo sid = repo @ [''metadata'', ''sessions'', session_file sid]"

definition chunk_line_text :: "received_chunk \<Rightarrow> string" where
  "chunk_line_text r =
     ''CHUNK '' @ dec_word (rc_global_index r) @ '' '' @ rc_sha256 r @ '' '' @ hexEncodeString (rc_relative_path r)
       @ '' '' @ dec_word (rc_file_size r) @ '' '' @ dec_word (rc_file_mode r) @ '' '' @ rc_file_sha256 r
       @ '' '' @ dec_word (rc_chunk_index r) @ '' '' @ dec_word (rc_raw_size r)
       @ '' '' @ dec_word (rc_compressed_size r) @ '' '' @ hexEncodeString (rc_object_path r) @ [nl]"

definition read_chunk_record :: "istream \<Rightarrow> (received_chunk \<times> istream) res" where
  "read_chunk_record in0 =
     (let (gi, in1) = extract_word in0 0;
          (sha, in2) = extract_string in1 [];
          (rel_hex, in3) = extract_string in2 [];
          (fsz, in4) = extract_word in3 0;
          (fmd, in5) = extract_word in4 0x1a4;
          (fsha, in6) = extract_string in5 [];
          (ci, in7) = extract_word in6 0;
          (rs, in8) = extract_word in7 0;
          (cs, in9) = extract_word in8 0;
          (obj_hex, in10) = extract_string in9 [] in
      if failed in10 then Inl (DpcError ''invalid session CHUNK record'')
      else rbind (hexDecodeString rel_hex) (\<lambda>rel.
           rbind (hexDecodeString obj_hex) (\<lambda>obj.
           Inr (\<lparr>rc_global_index = gi, rc_sha256 = sha, rc_relative_path = rel, rc_file_size = fsz,
                 rc_file_mode = fmd, rc_file_sha256 = fsha, rc_chunk_index = ci, rc_raw_size = rs,
                 rc_compressed_size = cs, rc_object_path = obj\<rparr>, in10))))"

text \<open>\<open>std::getline(in, rest)\<close> for its effect on the stream.\<close>

definition skip_line :: "istream \<Rightarrow> istream" where
  "skip_line st =
     (if failed st then st else if fst st = [] then ([], True)
      else (drop 1 (dropWhile (\<lambda>c. c \<noteq> nl) (fst st)), False))"

lemma extract_string_shorter:
  assumes "extract_string st old = (v, st')"
  shows "length (fst st') \<le> length (fst st)" and "\<not> failed st' \<Longrightarrow> length (fst st') < length (fst st)"
proof -
  let ?t = "skipws (fst st)" and ?P = "\<lambda>c. \<not> isspace c"
  have t: "length ?t \<le> length (fst st)" by (simp add: skipws_def length_dropWhile_le)
  have d: "length (dropWhile ?P ?t) \<le> length ?t" by (rule length_dropWhile_le)
  show "length (fst st') \<le> length (fst st)"
    using assms t d by (auto simp: extract_string_def Let_def split: if_splits)
  assume nf: "\<not> failed st'"
  then have ne: "?t \<noteq> []" and st': "fst st' = dropWhile ?P ?t"
    using assms by (auto simp: extract_string_def Let_def split: if_splits)
  then have "?P (hd ?t)" by (metis dropWhile_eq_Nil_conv hd_dropWhile skipws_def)
  then have "length (dropWhile ?P ?t) < length ?t"
    using ne by (cases ?t) (auto simp: length_dropWhile_le less_Suc_eq_le)
  then show "length (fst st') < length (fst st)" using t st' by simp
qed

lemma extract_word_le: "extract_word st (old :: 'a::len word) = (v, st') \<Longrightarrow> length (fst st') \<le> length (fst st)"
proof -
  assume run: "extract_word st old = (v, st')"
  obtain neg u where s: "sign_of (skipws (fst st)) = (neg, u)" by fastforce
  have "length u \<le> length (skipws (fst st))" by (rule sign_of_length [OF s])
  also have "\<dots> \<le> length (fst st)" by (simp add: skipws_def length_dropWhile_le)
  finally have "length (dropWhile isdigit u) \<le> length (fst st)"
    using length_dropWhile_le [of isdigit u] by simp
  then show "length (fst st') \<le> length (fst st)"
    using run s by (auto simp: extract_word_def Let_def split: if_splits)
qed

lemma read_chunk_record_le:
  assumes "read_chunk_record st = Inr (r, st')"
  shows "length (fst st') \<le> length (fst st)"
proof -
  obtain gi s1 sha s2 rel s3 fsz s4 fmd s5 fsha s6 ci s7 rs s8 cs s9 obj where
    w: "extract_word st (0 :: u64) = (gi, s1)" "extract_word s3 (0 :: u64) = (fsz, s4)"
      "extract_word s4 (0x1a4 :: u32) = (fmd, s5)" "extract_word s6 (0 :: u64) = (ci, s7)"
      "extract_word s7 (0 :: u64) = (rs, s8)" "extract_word s8 (0 :: u64) = (cs, s9)"
    and t: "extract_string s1 [] = (sha, s2)" "extract_string s2 [] = (rel, s3)"
      "extract_string s5 [] = (fsha, s6)" "extract_string s9 [] = (obj, st')"
    using assms unfolding read_chunk_record_def
    by (auto simp: res_simps split: prod.splits if_splits)
  show ?thesis
    using w(1,4,5,6) [THEN extract_word_le] w(2) [THEN extract_word_le] w(3) [THEN extract_word_le]
      t [THEN extract_string_shorter(1)] by linarith
qed

lemma skip_line_le: "length (fst (skip_line st)) \<le> length (fst st)"
  using length_dropWhile_le [of "\<lambda>c. c \<noteq> nl" "fst st"]
  by (simp add: skip_line_def le_diff_conv trans_le_add1)

function records_loop :: "istream \<Rightarrow> string \<Rightarrow> received_chunk list \<Rightarrow> received_chunk list res" where
  "records_loop st tag out =
     (let (tag', st1) = extract_string st tag in
      if failed st1 then Inr out
      else if tag' = ''CHUNK'' then
        rbind (read_chunk_record st1) (\<lambda>(r, st2). records_loop st2 tag' (out @ [r]))
      else if tag' = ''COMMITTED'' then records_loop (skip_line st1) tag' out
      else Inl (DpcError (''invalid session index tag: '' @ tag')))"
  by pat_completeness auto
termination
proof (relation "measure (\<lambda>(st, _, _). length (fst st))", goal_cases)
  case (2 st tag out x tag' st1 r r2 st2)
  then show ?case
    using extract_string_shorter(2) [of st tag tag' st1] read_chunk_record_le [of st1 r2 st2] by auto
next
  case (3 st tag out x tag' st1)
  then show ?case
    using extract_string_shorter(2) [of st tag tag' st1] skip_line_le [of st1] by auto
qed simp

declare records_loop.simps [simp del]

definition session_records :: "fs \<Rightarrow> path \<Rightarrow> string \<Rightarrow> received_chunk list res" where
  "session_records d repo sid =
     (if \<not> exists_path d (session_path repo sid) then Inr []
      else rbind (readTextFile d (session_path repo sid)) (\<lambda>text. records_loop (istringstream text) [] []))"

definition received :: "fs \<Rightarrow> path \<Rightarrow> string \<Rightarrow> (u64 \<times> string) list res" where
  "received d repo sid =
     rbind (session_records d repo sid) (\<lambda>rs.
       Inr (foldl (\<lambda>m r. omap_set (<) (rc_global_index r) (rc_sha256 r) m) [] rs))"

text \<open>
  An output stream opened with \<open>std::ios::app\<close>: the mode is 0666 less the mask, the library
  writes what it buffered in as many calls as it takes and sets the stream's badbit when one
  fails; it does not say why.
\<close>

definition stream_open :: "path \<Rightarrow> unit act" where
  "stream_open p =
     io_bind (io_get umask) (\<lambda>um.
     io_bind (sys_try (open_append_call (walk p) (0x1b6 AND NOT um))) (\<lambda>r. case r of
         None \<Rightarrow> io_return ()
       | Some _ \<Rightarrow> io_throw (DpcError (''open session index failed: '' @ path_string p))))"

definition stream_write :: "path \<Rightarrow> string \<Rightarrow> bool act" where
  "stream_write p text w =
     (case writeAll (walk p) (bytes_of_string text) w of
        (Inr _, w') \<Rightarrow> (Inr True, w')
      | (Inl e, w') \<Rightarrow> (if e = Killed then (Inl Killed, w') else (Inr False, w')))"

definition appendChunk :: "path \<Rightarrow> string \<Rightarrow> received_chunk \<Rightarrow> unit act" where
  "appendChunk repo sid r =
     io_bind (io_query (\<lambda>w. received (disk w) repo sid)) (\<lambda>existing.
     case map_of existing (rc_global_index r) of
       Some sha \<Rightarrow>
         (if sha \<noteq> rc_sha256 r
          then io_throw (DpcError ''session index checksum mismatch for duplicate chunk index'')
          else io_return ())
     | None \<Rightarrow>
         io_seq (ensureDirectory (butlast (session_path repo sid))) (
         io_seq (stream_open (session_path repo sid)) (
         io_bind (stream_write (session_path repo sid) (chunk_line_text r)) (\<lambda>good.
         if good then io_return ()
         else io_throw (DpcError (''write session index failed: '' @ path_string (session_path repo sid)))))))"

definition markCommitted :: "path \<Rightarrow> string \<Rightarrow> u64 \<Rightarrow> unit act" where
  "markCommitted repo sid version =
     io_seq (ensureDirectory (butlast (session_path repo sid))) (
     io_seq (stream_open (session_path repo sid)) (
     io_bind (stream_write (session_path repo sid) (''COMMITTED '' @ dec_word version @ [nl]))
       (\<lambda>ignored. io_return ())))"

section \<open>The file is read back\<close>

datatype index_line = ChunkLine received_chunk | CommittedLine u64

fun index_line_text :: "index_line \<Rightarrow> string" where
  "index_line_text (ChunkLine r) = chunk_line_text r"
| "index_line_text (CommittedLine v) = ''COMMITTED '' @ dec_word v @ [nl]"

definition index_text :: "index_line list \<Rightarrow> string" where
  "index_text ls = concat (map index_line_text ls)"

fun chunks_of :: "index_line list \<Rightarrow> received_chunk list" where
  "chunks_of [] = []"
| "chunks_of (ChunkLine r # ls) = r # chunks_of ls"
| "chunks_of (CommittedLine v # ls) = chunks_of ls"

definition wf_received :: "received_chunk \<Rightarrow> bool" where
  "wf_received r \<longleftrightarrow> token (rc_sha256 r) \<and> token (rc_file_sha256 r)
     \<and> rc_relative_path r \<noteq> [] \<and> rc_object_path r \<noteq> []"

lemma chunks_of_append: "chunks_of (ls @ ls') = chunks_of ls @ chunks_of ls'"
  by (induction ls rule: chunks_of.induct) simp_all

lemma index_text_append: "index_text (ls @ ls') = index_text ls @ index_text ls'"
  by (simp add: index_text_def)

definition record_body :: "received_chunk \<Rightarrow> string \<Rightarrow> string" where
  "record_body r rest =
     sp # dec_word (rc_global_index r) @ sp # rc_sha256 r @ sp # hexEncodeString (rc_relative_path r)
       @ sp # dec_word (rc_file_size r) @ sp # dec_word (rc_file_mode r) @ sp # rc_file_sha256 r
       @ sp # dec_word (rc_chunk_index r) @ sp # dec_word (rc_raw_size r)
       @ sp # dec_word (rc_compressed_size r) @ sp # hexEncodeString (rc_object_path r) @ nl # rest"

lemma chunk_line_body: "chunk_line_text r @ rest = ''CHUNK'' @ record_body r rest"
  by (simp add: chunk_line_text_def record_body_def)

lemma read_record_body:
  assumes "wf_received r"
  shows "read_chunk_record (record_body r rest, False) = Inr (r, (nl # rest, False))"
proof -
  have t: "token (rc_sha256 r)" "token (rc_file_sha256 r)" "token (hexEncodeString (rc_relative_path r))"
      "token (hexEncodeString (rc_object_path r))"
    using assms by (simp_all add: wf_received_def hex_token)
  show ?thesis
    by (simp add: read_chunk_record_def record_body_def extract_word_dec_word(2)
        extract_string_token(2) [OF t(1)] extract_string_token(2) [OF t(2)]
        extract_string_token(2) [OF t(3)] extract_string_token(2) [OF t(4)] str_hex.decode_enc)
qed

lemma index_tokens: "token ''CHUNK''" "token ''COMMITTED''"
  by (simp_all add: token_def isspace_def char_code_def)

lemma first_token:
  assumes "token t" and "token_end rest" and "pre = [] \<or> pre = [nl]"
  shows "extract_string (pre @ t @ rest, False) old = (t, (rest, False))"
  using assms extract_string_token [OF assms(1,2)] by auto

lemma skip_line_digits: "skip_line (sp # dec n @ nl # rest, False) = (rest, False)"
proof -
  have "nl \<notin> set (dec n)" using dec_no_space [of nl n] by auto
  then have "dropWhile (\<lambda>c. c \<noteq> nl) (dec n @ nl # rest) = nl # rest"
    by (intro dropWhile_append_stop) auto
  then show ?thesis by (simp add: skip_line_def)
qed

lemma records_loop_text:
  "pre = [] \<or> pre = [nl] \<Longrightarrow> \<forall>r \<in> set (chunks_of ls). wf_received r \<Longrightarrow>
     records_loop (pre @ index_text ls, False) tag out = Inr (out @ chunks_of ls)"
proof (induction ls arbitrary: pre tag out rule: chunks_of.induct)
  case 1
  have "extract_string (pre, False) tag = (tag, ([], True))"
    using 1(1) by (intro extract_string_end) (auto simp: skipws_def)
  then show ?case by (subst records_loop.simps) (simp add: index_text_def)
next
  case (2 r ls)
  have r: "wf_received r" and rest: "\<forall>r \<in> set (chunks_of ls). wf_received r" using "2.prems"(2) by simp_all
  have "token_end (record_body r (index_text ls))" by (simp add: record_body_def)
  note tok = first_token [OF index_tokens(1) this "2.prems"(1)]
  have whole: "pre @ index_text (ChunkLine r # ls) = pre @ ''CHUNK'' @ record_body r (index_text ls)"
    using chunk_line_body [of r "index_text ls"] by (simp add: index_text_def)
  have "records_loop (nl # index_text ls, False) ''CHUNK'' (out @ [r]) = Inr ((out @ [r]) @ chunks_of ls)"
    using "2.IH" [of "[nl]"] rest by simp
  then show ?case
    unfolding whole records_loop.simps [of "(pre @ ''CHUNK'' @ _, False)"] tok Let_def prod.case
    by (simp add: read_record_body [OF r])
next
  case (3 v ls)
  let ?tl = "sp # dec_word v @ nl # index_text ls"
  have "token_end ?tl" by simp
  note tok = first_token [OF index_tokens(2) this "3.prems"(1)]
  have whole: "pre @ index_text (CommittedLine v # ls) = pre @ ''COMMITTED'' @ ?tl" by (simp add: index_text_def)
  have "records_loop (index_text ls, False) ''COMMITTED'' out = Inr (out @ chunks_of ls)"
    using "3.IH" [of "[]"] "3.prems"(2) by simp
  then show ?case
    unfolding whole records_loop.simps [of "(pre @ ''COMMITTED'' @ _, False)"] tok Let_def prod.case
    by (simp add: skip_line_digits)
qed

lemma walk_session: "walk (session_path repo sid) = walk repo @ [''metadata'', ''sessions'', session_file sid]"
proof -
  have "slash \<notin> set (hexEncodeString sid)"
    using str_hex.enc_isxdigit [of slash sid] by (auto simp: isxdigit_def isdigit_def char_code_def)
  then have "plain_name (session_file sid)"
    by (auto simp: session_file_def plain_name_def dot_def dotdot_def append_eq_Cons_conv)
  then show ?thesis by (simp add: session_path_def walk_plain)
qed

text \<open>The index of a session holds these lines.\<close>

definition index_file :: "path \<Rightarrow> string \<Rightarrow> index_line list \<Rightarrow> fs \<Rightarrow> bool" where
  "index_file repo sid ls d \<longleftrightarrow>
     (\<forall>r \<in> set (chunks_of ls). wf_received r) \<and>
     (case node_at d (walk (session_path repo sid)) of
        None \<Rightarrow> ls = []
      | Some (File c _) \<Rightarrow> c = bytes_of_string (index_text ls)
      | Some Directory \<Rightarrow> False)"

lemma session_records_index:
  assumes "index_file repo sid ls d"
  shows "session_records d repo sid = Inr (chunks_of ls)"
proof (cases "node_at d (walk (session_path repo sid))")
  case None
  then show ?thesis using assms by (auto simp: index_file_def session_records_def exists_path_def)
next
  case (Some n)
  then obtain m where "node_at d (walk (session_path repo sid)) = Some (File (bytes_of_string (index_text ls)) m)"
    using assms by (cases n) (auto simp: index_file_def)
  moreover have "records_loop (istringstream (index_text ls)) [] [] = Inr (chunks_of ls)"
    using records_loop_text [of "[]" ls "[]" "[]"] assms by (simp add: istringstream_def index_file_def)
  ultimately show ?thesis by (simp add: session_records_def exists_path_def readTextFile_def readFile_def)
qed

lemma received_index:
  assumes "index_file repo sid ls d"
  shows "\<exists>m. received d repo sid = Inr m \<and> sorted_wrt (<) (map fst m)
    \<and> map_of m = foldl (\<lambda>m r. m(rc_global_index r \<mapsto> rc_sha256 r)) Map.empty (chunks_of ls)"
  using index_order.omap_fold_ordered [of "[]" rc_global_index rc_sha256 "chunks_of ls"]
    index_order.map_of_omap_fold [of "[]" rc_global_index rc_sha256 "chunks_of ls"]
  by (simp add: received_def session_records_index [OF assms])

section \<open>Appending to it\<close>

lemma keeps_stream_open:
  assumes "\<And>d c m. D d \<Longrightarrow> D (AList.update (walk p) (File c m) d)"
  shows "keeps (on_disk D) (stream_open p)"
  unfolding stream_open_def using assms
  by (intro keeps_bind keeps_get keeps_sys_try)
    (auto simp: open_append_call_def intro!: keeps_return keeps_throw split: option.splits node.splits if_splits)

lemma keeps_stream_write:
  assumes "\<And>d c m. D d \<Longrightarrow> D (AList.update (walk p) (File c m) d)"
  shows "keeps (on_disk D) (stream_write p text)"
proof -
  have "keeps (on_disk D) (writeAll (walk p) (bytes_of_string text))"
    using assms by (intro keeps_writeAll) (auto simp: append_bytes_def split: option.splits node.splits)
  then show ?thesis
    unfolding stream_write_def by (auto simp: keeps_def split: prod.splits sum.splits)
qed

context inside_repo
begin

lemma session_append [keeps_intro]:
  "keeps (on_disk D) (appendChunk repo sid r)" "keeps (on_disk D) (markCommitted repo sid v)"
proof -
  have up: "D d \<Longrightarrow> D (AList.update (walk (session_path repo sid)) (File c m) d)" for d c m
    unfolding walk_session by (rule put) simp_all
  note st = keeps_stream_open [where D = D, OF up] keeps_stream_write [where D = D, OF up]
  show "keeps (on_disk D) (markCommitted repo sid v)"
    unfolding markCommitted_def by (intro keeps_seq keeps_bind directory st keeps_return)
  show "keeps (on_disk D) (appendChunk repo sid r)"
    unfolding appendChunk_def
    by (intro keeps_bind keeps_query keeps_option keeps_if keeps_seq directory st keeps_return keeps_throw)
qed

end

lemma session_not_durable: "walk (session_path repo sid) \<notin> durable repo V"
  by (simp add: walk_session not_durable_dir)

lemma spares_session [keeps_intro]:
  "keeps (on_disk (kept (durable repo V) d0)) (appendChunk repo sid r)"
  "keeps (on_disk (kept (durable repo V) d0)) (markCommitted repo sid v)"
proof -
  have up: "kept (durable repo V) d0 d \<Longrightarrow>
      kept (durable repo V) d0 (AList.update (walk (session_path repo sid)) (File c m) d)" for d c m
    using session_not_durable by (intro kept_update) auto
  note st = keeps_stream_open [where D = "kept (durable repo V) d0", OF up]
    keeps_stream_write [where D = "kept (durable repo V) d0", OF up]
  show "keeps (on_disk (kept (durable repo V) d0)) (markCommitted repo sid v)"
    unfolding markCommitted_def
    by (intro keeps_seq keeps_bind keeps_ensureDirectory_kept st keeps_return)
  show "keeps (on_disk (kept (durable repo V) d0)) (appendChunk repo sid r)"
    unfolding appendChunk_def
    by (intro keeps_bind keeps_query keeps_option keeps_if keeps_seq keeps_ensureDirectory_kept st keeps_return keeps_throw)
qed

lemma stream_write_True:
  assumes "stream_write p text w = (Inr True, w')"
  shows "disk w' = append_bytes (walk p) (bytes_of_string text) (disk w)"
proof -
  obtain u where "writeAll (walk p) (bytes_of_string text) w = (Inr u, w')"
    using assms by (auto simp: stream_write_def split: prod.splits sum.splits if_splits)
  then show ?thesis by (rule writeAll_ok)
qed

text \<open>What the index holds as a file, with nothing for a file that is not there.\<close>

definition index_bytes :: "fs \<Rightarrow> path \<Rightarrow> string \<Rightarrow> bytes" where
  "index_bytes d repo sid = (case node_at d (walk (session_path repo sid)) of Some (File c _) \<Rightarrow> c | _ \<Rightarrow> [])"

lemma open_append_file:
  assumes "open_append_call k mode d = Inr d'" and "1 < length k"
  shows "\<exists>m. node_at d' k = Some (File (case node_at d k of Some (File c _) \<Rightarrow> c | _ \<Rightarrow> []) m)"
  using assms by (auto simp: open_append_call_def split: option.splits node.splits if_splits)

lemma index_open:
  assumes "io_seq (ensureDirectory (butlast (session_path repo sid))) (stream_open (session_path repo sid)) w = (Inr u, w')"
  shows "\<exists>m. node_at (disk w') (walk (session_path repo sid)) = Some (File (index_bytes (disk w) repo sid) m)"
proof -
  let ?k = "walk (session_path repo sid)"
  obtain w1 u1 w2 um where dir: "ensureDirectory (butlast (session_path repo sid)) w = (Inr u1, w1)"
    and opn: "sys_try (open_append_call ?k (0x1b6 AND NOT um)) w1 = (Inr None, w')"
    using assms by (auto simp: stream_open_def res_simps split: option.splits)
  have kp: "keeps (on_disk (\<lambda>d. index_bytes d repo sid = index_bytes (disk w) repo sid))
      (ensureDirectory (butlast (session_path repo sid)))"
  proof (rule keeps_ensureDirectory)
    fix d i
    let ?i = "take i (walk (butlast (session_path repo sid)))"
    have "?k \<noteq> ?i"
      unfolding walk_session
      by (rule longer_not_take) (simp add: session_path_def butlast_append walk_plain)
    then show "index_bytes d repo sid = index_bytes (disk w) repo sid \<Longrightarrow>
        index_bytes (AList.update ?i Directory d) repo sid = index_bytes (disk w) repo sid"
      by (simp add: index_bytes_def)
  qed
  have "index_bytes (disk w1) repo sid = index_bytes (disk w) repo sid"
    using keepsD_eq [OF kp _ dir] by simp
  moreover have "\<exists>m. node_at (disk w') ?k = Some (File (index_bytes (disk w1) repo sid) m)"
    using sys_try_Inr_None [OF opn] open_append_file [of ?k _ "disk w1"] by (auto simp: index_bytes_def walk_session)
  ultimately show ?thesis by simp
qed

lemma index_append:
  assumes "index_file repo sid ls (disk w)"
    and "io_seq (ensureDirectory (butlast (session_path repo sid))) (stream_open (session_path repo sid)) w = (Inr u, w1)"
    and "stream_write (session_path repo sid) (index_line_text l) w1 = (Inr True, w')"
    and "\<forall>r \<in> set (chunks_of [l]). wf_received r"
  shows "index_file repo sid (ls @ [l]) (disk w')"
proof -
  have old: "index_bytes (disk w) repo sid = bytes_of_string (index_text ls)"
    using assms(1) by (auto simp: index_file_def index_bytes_def index_text_def bytes_of_string_def
        split: option.splits node.splits)
  obtain m where "node_at (disk w1) (walk (session_path repo sid)) = Some (File (bytes_of_string (index_text ls)) m)"
    using index_open [OF assms(2)] old by auto
  from append_bytes_same [OF this] stream_write_True [OF assms(3)]
  have "node_at (disk w') (walk (session_path repo sid))
      = Some (File (bytes_of_string (index_text ls) @ bytes_of_string (index_line_text l)) m)" by simp
  then show ?thesis
    using assms(1,4) by (auto simp: index_file_def chunks_of_append index_text_append index_text_def bytes_of_string_def)
qed

lemma appendChunk_run:
  assumes "index_file repo sid ls (disk w)" and "wf_received r" and "appendChunk repo sid r w = (Inr u, w')"
  shows "index_file repo sid (ls @ [ChunkLine r]) (disk w')
      \<and> rc_global_index r \<notin> rc_global_index ` set (chunks_of ls)
    \<or> w' = w \<and> (\<exists>r0 \<in> set (chunks_of ls). rc_global_index r0 = rc_global_index r \<and> rc_sha256 r0 = rc_sha256 r)"
proof -
  obtain m where m: "received (disk w) repo sid = Inr m"
    and look: "map_of m = foldl (\<lambda>m r. m(rc_global_index r \<mapsto> rc_sha256 r)) Map.empty (chunks_of ls)"
    using received_index [OF assms(1)] by blast
  have dom: "(foldl (\<lambda>m r. m(rc_global_index r \<mapsto> rc_sha256 r)) Map.empty rs) i = Some s \<Longrightarrow>
      \<exists>r0 \<in> set rs. rc_global_index r0 = i \<and> rc_sha256 r0 = s" for rs i s
    by (induction rs rule: rev_induct) (auto split: if_splits)
  have none: "(foldl (\<lambda>m r. m(rc_global_index r \<mapsto> rc_sha256 r)) Map.empty rs) i = None \<Longrightarrow>
      i \<notin> rc_global_index ` set rs" for rs i
    by (induction rs rule: rev_induct) (auto split: if_splits)
  show ?thesis
  proof (cases "map_of m (rc_global_index r)")
    case None
    then obtain w1 u1 where
      "io_seq (ensureDirectory (butlast (session_path repo sid))) (stream_open (session_path repo sid)) w = (Inr u1, w1)"
      "stream_write (session_path repo sid) (index_line_text (ChunkLine r)) w1 = (Inr True, w')"
      using assms(3) m by (auto simp: appendChunk_def res_simps split: if_splits)
    then have "index_file repo sid (ls @ [ChunkLine r]) (disk w')"
      using index_append [OF assms(1)] assms(2) by simp
    then show ?thesis using None none unfolding look by blast
  next
    case (Some s)
    then have "w' = w" "s = rc_sha256 r" using assms(3) m by (auto simp: appendChunk_def res_simps split: if_splits)
    then show ?thesis using dom Some unfolding look by blast
  qed
qed

section \<open>The manifest of a session\<close>

text \<open>The loop that looks for a missing index.\<close>

function missing_from :: "(u64 \<times> 'a) list \<Rightarrow> nat \<Rightarrow> nat \<Rightarrow> nat option" where
  "missing_from m i n =
     (if i < n then (if map_of m (word_of_nat i) = None then Some i else missing_from m (i + 1) n) else None)"
  by pat_completeness auto
termination by (relation "measure (\<lambda>(_, i, n). n - i)") auto

declare missing_from.simps [simp del]

text \<open>What the loop over the records carries.\<close>

record session_build =
  sb_files :: "(string \<times> file_manifest) list"
  sb_hashes :: "string list"
  sb_input :: u64
  sb_stored :: u64

definition default_file :: file_manifest where
  "default_file = \<lparr>relative_path = [], file_size = 0, file_mode = 0x1a4, file_sha256 = [], chunks = []\<rparr>"

definition received_ref :: "received_chunk \<Rightarrow> chunk_ref" where
  "received_ref r =
     \<lparr>chunk_index = rc_chunk_index r, raw_size = rc_raw_size r, compressed_size = rc_compressed_size r,
      chunk_sha256 = rc_sha256 r, object_path = rc_object_path r\<rparr>"

definition add_record :: "session_build \<Rightarrow> received_chunk \<Rightarrow> session_build" where
  "add_record b r =
     (let path = rc_relative_path r;
          file = (case map_of (sb_files b) path of Some f \<Rightarrow> f | None \<Rightarrow> default_file);
          new = (relative_path file = []);
          file = (if new then file\<lparr>relative_path := path, file_size := rc_file_size r,
                                   file_mode := rc_file_mode r, file_sha256 := rc_file_sha256 r\<rparr>
                  else file);
          file = file\<lparr>chunks := chunks file @ [received_ref r]\<rparr>;
          first = (rc_sha256 r \<notin> set (sb_hashes b)) in
      \<lparr>sb_files = omap_set string_less path file (sb_files b),
       sb_hashes = (if first then rc_sha256 r # sb_hashes b else sb_hashes b),
       sb_input = (if new then sb_input b + rc_file_size r else sb_input b),
       sb_stored = (if first then sb_stored b + rc_compressed_size r else sb_stored b)\<rparr>)"

definition buildManifest :: "fs \<Rightarrow> path \<Rightarrow> string \<Rightarrow> u64 \<Rightarrow> u64 \<Rightarrow> u64 \<Rightarrow> manifest res" where
  "buildManifest d repo sid now version total_chunks =
     rbind (session_records d repo sid) (\<lambda>recs.
     let by_global = foldl (\<lambda>m r. omap_set (<) (rc_global_index r) r m) [] recs in
     case missing_from by_global 0 (unat total_chunks) of
       Some i \<Rightarrow> Inl (DpcError (''session is missing chunk index '' @ dec i))
     | None \<Rightarrow>
         (let b = foldl add_record \<lparr>sb_files = [], sb_hashes = [], sb_input = 0, sb_stored = 0\<rparr>
                    (map snd by_global) in
          Inr \<lparr>m_version = version, created_at = now, chunking = Fixed,
               source_root = ''network-session:'' @ sid,
               total_input_bytes = sb_input b, total_stored_bytes = sb_stored b,
               files = map (\<lambda>(_, f). f\<lparr>chunks := sort_key chunk_index (chunks f)\<rparr>) (sb_files b)\<rparr>))"

lemma missing_from_None:
  "missing_from m i n = None \<longleftrightarrow> (\<forall>j. i \<le> j \<and> j < n \<longrightarrow> map_of m (word_of_nat j :: u64) \<noteq> None)"
proof (induction m i n rule: missing_from.induct)
  case (1 m i n)
  show ?case
  proof (cases "i < n")
    case True
    have "(\<forall>j. i \<le> j \<and> j < n \<longrightarrow> map_of m (word_of_nat j) \<noteq> None) \<longleftrightarrow>
        map_of m (word_of_nat i) \<noteq> None \<and> (\<forall>j. i + 1 \<le> j \<and> j < n \<longrightarrow> map_of m (word_of_nat j) \<noteq> None)"
      (is "?all \<longleftrightarrow> ?first \<and> ?rest")
    proof
      assume "?first \<and> ?rest"
      then have "map_of m (word_of_nat j) \<noteq> None" if "i \<le> j" "j < n" for j
        using that by (cases "j = i") auto
      then show ?all by blast
    qed (use True in auto)
    then show ?thesis using 1 True by (subst missing_from.simps) auto
  qed (subst missing_from.simps, auto)
qed

text \<open>
  The file a group of records of one path stands for: the attributes of the first record, and
  a reference for each.
\<close>

definition group_file :: "string \<Rightarrow> received_chunk list \<Rightarrow> file_manifest option" where
  "group_file p rs =
     (case filter (\<lambda>r. rc_relative_path r = p) rs of
        [] \<Rightarrow> None
      | r # rest \<Rightarrow> Some \<lparr>relative_path = p, file_size = rc_file_size r, file_mode = rc_file_mode r,
                       file_sha256 = rc_file_sha256 r, chunks = map received_ref (r # rest)\<rparr>)"

lemma group_file_path: "group_file p rs = Some f \<Longrightarrow> relative_path f = p"
  by (auto simp: group_file_def split: list.splits)

lemma group_file_snoc_other: "rc_relative_path r \<noteq> p \<Longrightarrow> group_file p (rs @ [r]) = group_file p rs"
  by (simp add: group_file_def)

lemma group_file_snoc:
  "group_file (rc_relative_path r) (rs @ [r]) = Some
     (case group_file (rc_relative_path r) rs of
        None \<Rightarrow> \<lparr>relative_path = rc_relative_path r, file_size = rc_file_size r, file_mode = rc_file_mode r,
                 file_sha256 = rc_file_sha256 r, chunks = [received_ref r]\<rparr>
      | Some f \<Rightarrow> f\<lparr>chunks := chunks f @ [received_ref r]\<rparr>)"
  by (auto simp: group_file_def split: list.splits)

lemma add_records_files:
  assumes "\<forall>r \<in> set rs. rc_relative_path r \<noteq> []"
  shows "name_order.ordered (sb_files (foldl add_record \<lparr>sb_files = [], sb_hashes = [], sb_input = 0, sb_stored = 0\<rparr> rs))
    \<and> map_of (sb_files (foldl add_record \<lparr>sb_files = [], sb_hashes = [], sb_input = 0, sb_stored = 0\<rparr> rs))
        = (\<lambda>p. group_file p rs)"
  using assms
proof (induction rs rule: rev_induct)
  case Nil
  then show ?case by (simp add: group_file_def fun_eq_iff)
next
  case (snoc r rs)
  let ?b = "foldl add_record \<lparr>sb_files = [], sb_hashes = [], sb_input = 0, sb_stored = 0\<rparr> rs"
  let ?p = "rc_relative_path r"
  have ord: "name_order.ordered (sb_files ?b)" and look: "map_of (sb_files ?b) = (\<lambda>p. group_file p rs)"
    using snoc by simp_all
  have p: "?p \<noteq> []" using snoc.prems by simp
  obtain f1 where grown: "sb_files (add_record ?b r) = omap_set string_less ?p f1 (sb_files ?b)"
    and grp: "Some f1 = group_file ?p (rs @ [r])"
    using p group_file_path [of ?p rs]
    by (cases "group_file ?p rs") (auto simp: add_record_def Let_def look group_file_snoc default_file_def)
  have "(map_of (sb_files ?b))(?p \<mapsto> f1) = (\<lambda>p. group_file p (rs @ [r]))"
    using grp group_file_snoc_other [of r _ rs] by (auto simp: look fun_eq_iff)
  then show ?case
    using name_order.omap_set_ordered [OF ord] name_order.map_of_omap_set [OF ord] by (simp add: grown)
qed

text \<open>The last record of every index, in the order of the indices.\<close>

definition latest_records :: "received_chunk list \<Rightarrow> received_chunk list" where
  "latest_records rs = map snd (foldl (\<lambda>m r. omap_set (<) (rc_global_index r) r m) [] rs)"

lemma latest_map:
  "map_of (foldl (\<lambda>m r. omap_set (<) (rc_global_index r) r m) [] rs) i = Some r \<longleftrightarrow>
     (\<exists>us vs. rs = us @ r # vs \<and> rc_global_index r = i \<and> i \<notin> rc_global_index ` set vs)"
proof -
  have look: "map_of (foldl (\<lambda>m r. omap_set (<) (rc_global_index r) r m) [] rs)
      = foldl (\<lambda>m r. m(rc_global_index r \<mapsto> r)) Map.empty rs"
    using index_order.map_of_omap_fold [of "[]" rc_global_index "\<lambda>r. r" rs] by simp
  have "(foldl (\<lambda>m r. m(rc_global_index r \<mapsto> r)) Map.empty rs) i = Some r \<longleftrightarrow>
     (\<exists>us vs. rs = us @ r # vs \<and> rc_global_index r = i \<and> i \<notin> rc_global_index ` set vs)"
  proof (induction rs rule: rev_induct)
    case (snoc q rs)
    have tail: "(\<exists>us vs. rs @ [q] = us @ r # vs \<and> rc_global_index r = i \<and> i \<notin> rc_global_index ` set vs)
      \<longleftrightarrow> q = r \<and> rc_global_index r = i \<or>
        rc_global_index q \<noteq> i \<and> (\<exists>us vs. rs = us @ r # vs \<and> rc_global_index r = i \<and> i \<notin> rc_global_index ` set vs)"
      (is "?l \<longleftrightarrow> ?r")
    proof
      assume ?l
      then obtain us vs where "rs @ [q] = us @ r # vs" "rc_global_index r = i" "i \<notin> rc_global_index ` set vs" by blast
      then show ?r by (cases vs rule: rev_cases) auto
    next
      assume ?r
      then show ?l
      proof
        assume "rc_global_index q \<noteq> i \<and> (\<exists>us vs. rs = us @ r # vs \<and> rc_global_index r = i \<and> i \<notin> rc_global_index ` set vs)"
        then obtain us vs where "rs = us @ r # vs" "rc_global_index r = i" "i \<notin> rc_global_index ` set (vs @ [q])" by auto
        then show ?l by (intro exI [of _ us] exI [of _ "vs @ [q]"]) simp
      next
        assume "q = r \<and> rc_global_index r = i"
        then show ?l by (intro exI [of _ rs] exI [of _ "[]"]) simp
      qed
    qed
    show ?case unfolding tail using snoc.IH by auto
  qed simp
  then show ?thesis unfolding look .
qed

lemma latest_set: "set (latest_records rs) \<subseteq> set rs"
proof
  fix r
  assume "r \<in> set (latest_records rs)"
  then obtain i where "(i, r) \<in> set (foldl (\<lambda>m r. omap_set (<) (rc_global_index r) r m) [] rs)"
    by (auto simp: latest_records_def)
  moreover have "distinct (map fst (foldl (\<lambda>m r. omap_set (<) (rc_global_index r) r m) [] rs))"
    using index_order.ordered_keys_distinct [OF index_order.omap_fold_ordered [of "[]" rc_global_index "\<lambda>r. r" rs]]
    by simp
  ultimately show "r \<in> set rs" using latest_map [of rs i r] by auto
qed

lemma latest_present:
  "map_of (foldl (\<lambda>m r. omap_set (<) (rc_global_index r) r m) [] rs) i \<noteq> None \<longleftrightarrow> i \<in> rc_global_index ` set rs"
proof -
  have "map_of (foldl (\<lambda>m r. omap_set (<) (rc_global_index r) r m) [] rs)
      = foldl (\<lambda>m r. m(rc_global_index r \<mapsto> r)) Map.empty rs"
    using index_order.map_of_omap_fold [of "[]" rc_global_index "\<lambda>r. r" rs] by simp
  moreover have "(foldl (\<lambda>m r. m(rc_global_index r \<mapsto> r)) Map.empty rs) i \<noteq> None \<longleftrightarrow> i \<in> rc_global_index ` set rs"
    by (induction rs rule: rev_induct) auto
  ultimately show ?thesis by simp
qed

definition sorted_file :: "file_manifest \<Rightarrow> file_manifest" where
  "sorted_file f = f\<lparr>chunks := sort_key chunk_index (chunks f)\<rparr>"

lemma buildManifest_index:
  assumes "index_file repo sid ls d"
  shows "case buildManifest d repo sid now version total_chunks of
      Inl e \<Rightarrow> \<exists>i < unat total_chunks. e = DpcError (''session is missing chunk index '' @ dec i)
                \<and> word_of_nat i \<notin> rc_global_index ` set (chunks_of ls)
    | Inr m \<Rightarrow> (\<forall>i < unat total_chunks. word_of_nat i \<in> rc_global_index ` set (chunks_of ls))
        \<and> m_version m = version \<and> distinct (map relative_path (files m))
        \<and> set (files m) = {sorted_file f | f p. group_file p (latest_records (chunks_of ls)) = Some f}"
proof -
  let ?m = "foldl (\<lambda>m r. omap_set (<) (rc_global_index r) r m) [] (chunks_of ls)"
  note recs = session_records_index [OF assms]
  show ?thesis
  proof (cases "missing_from ?m 0 (unat total_chunks)")
    case (Some i)
    have "i < unat total_chunks \<and> map_of m (word_of_nat i) = None" if "missing_from m j n = Some i" "n = unat total_chunks" for m :: "(u64 \<times> received_chunk) list" and j n
      using that
    proof (induction m j n rule: missing_from.induct)
      case (1 m j n)
      then show ?case by (subst (asm) missing_from.simps) (auto split: if_splits)
    qed
    from this [OF Some] have "i < unat total_chunks" "map_of ?m (word_of_nat i) = None" by simp_all
    moreover from this have "word_of_nat i \<notin> rc_global_index ` set (chunks_of ls)"
      using latest_present [of "chunks_of ls" "word_of_nat i"] by simp
    ultimately show ?thesis by (auto simp: buildManifest_def recs Some Let_def)
  next
    case None
    let ?rs = "latest_records (chunks_of ls)"
    let ?fs = "sb_files (foldl add_record \<lparr>sb_files = [], sb_hashes = [], sb_input = 0, sb_stored = 0\<rparr> ?rs)"
    have "\<forall>r \<in> set ?rs. rc_relative_path r \<noteq> []"
      using assms latest_set [of "chunks_of ls"] by (auto simp: index_file_def wf_received_def)
    note files = add_records_files [OF this]
    have dist: "distinct (map fst ?fs)" using files by (intro name_order.ordered_keys_distinct) simp
    then have mem: "(p, f) \<in> set ?fs \<longleftrightarrow> group_file p ?rs = Some f" for p f
      using files by (metis map_of_eq_Some_iff)
    have key: "relative_path f = p" if "(p, f) \<in> set ?fs" for p f
      using that mem group_file_path by blast
    let ?F = "map (\<lambda>(_, f). f\<lparr>chunks := sort_key chunk_index (chunks f)\<rparr>) ?fs"
    have "map relative_path ?F = map fst ?fs" using key by (auto simp: case_prod_unfold)
    then have "distinct (map relative_path ?F)" using dist by (simp only:)
    moreover have "set ?F = {sorted_file f | f p. group_file p ?rs = Some f}"
      using mem by (force simp: sorted_file_def)
    moreover have "\<forall>i < unat total_chunks. word_of_nat i \<in> rc_global_index ` set (chunks_of ls)"
      using None latest_present [of "chunks_of ls"] unfolding missing_from_None by blast
    moreover obtain m where "buildManifest d repo sid now version total_chunks = Inr m" "m_version m = version" "files m = ?F"
      using None by (simp add: buildManifest_def recs Let_def latest_records_def)
    ultimately show ?thesis by simp
  qed
qed

section \<open>Properties\<close>

text \<open>The index grows by the chunk that was taken. On an index that holds well-formed lines, when
  \<open>appendChunk\<close> returns, either the index was new and the records read back are the old ones and
  this one, or a record with this index and hash was there and nothing is written; a record with
  the index and another hash is always refused.\<close>

lemma append_chunk_records:
  assumes "index_file repo sid ls (disk w)" and "wf_received r"
  shows "case appendChunk repo sid r w of
      (Inl _, _) \<Rightarrow> True
    | (Inr _, w') \<Rightarrow>
        if rc_global_index r \<in> rc_global_index ` set (chunks_of ls)
        then w' = w \<and> (\<exists>r0 \<in> set (chunks_of ls). rc_global_index r0 = rc_global_index r \<and> rc_sha256 r0 = rc_sha256 r)
        else session_records (disk w') repo sid = Inr (chunks_of ls @ [r])"
proof (cases "appendChunk repo sid r w")
  case (Pair out w')
  show ?thesis
  proof (cases out)
    case (Inr u)
    from appendChunk_run [OF assms, of u w'] Pair Inr
    show ?thesis using session_records_index [of repo sid "ls @ [ChunkLine r]" "disk w'"]
      by (auto simp: chunks_of_append) (metis imageI)
  qed (use Pair in simp)
qed

definition sample_record :: received_chunk where
  "sample_record = \<lparr>rc_global_index = 0, rc_sha256 = ''ab'', rc_relative_path = ''f'', rc_file_size = 1,
     rc_file_mode = 420, rc_file_sha256 = ''cd'', rc_chunk_index = 0, rc_raw_size = 1, rc_compressed_size = 1,
     rc_object_path = ''o''\<rparr>"

definition sample_index :: fs where
  "sample_index = [([''r'', ''metadata'', ''sessions'', session_file ''s''],
     File (bytes_of_string (index_text [ChunkLine sample_record, CommittedLine 1])) 0x1a4)]"

lemma sample_index_ok: "index_file [''r''] ''s'' [ChunkLine sample_record, CommittedLine 1] sample_index" "wf_received sample_record"
proof -
  show wf: "wf_received sample_record"
    by (simp add: wf_received_def sample_record_def token_def isspace_def char_code_def)
  have "walk (session_path [''r''] ''s'') = [''r'', ''metadata'', ''sessions'', session_file ''s'']"
    unfolding walk_session walk_r by simp
  then show "index_file [''r''] ''s'' [ChunkLine sample_record, CommittedLine 1] sample_index"
    using wf by (simp add: index_file_def sample_index_def node_at_def)
qed

text \<open>C34: the commit of a session is complete and grouped by file. From an index of well-formed lines
  \<open>buildManifest\<close> fails only on an index below the announced total that no line records, and
  names it; otherwise the manifest has one file for every path of the last records of the
  indices, with the attributes of the first of them and a reference for each, sorted by chunk
  index.\<close>

theorem build_manifest_exact:
  assumes "index_file repo sid ls d"
  shows "case buildManifest d repo sid now version total_chunks of
      Inl e \<Rightarrow> \<exists>i < unat total_chunks. e = DpcError (''session is missing chunk index '' @ dec i)
                \<and> word_of_nat i \<notin> rc_global_index ` set (chunks_of ls)
    | Inr m \<Rightarrow> (\<forall>i < unat total_chunks. word_of_nat i \<in> rc_global_index ` set (chunks_of ls))
        \<and> m_version m = version \<and> distinct (map relative_path (files m))
        \<and> set (files m) = {sorted_file f | f p. group_file p (latest_records (chunks_of ls)) = Some f}"
  by (rule buildManifest_index [OF assms])

theorem build_manifest_exact_witness:
  "case buildManifest sample_index [''r''] ''s'' 5 1 3 of
      Inl e \<Rightarrow> \<exists>i < unat (3 :: u64). e = DpcError (''session is missing chunk index '' @ dec i)
                \<and> word_of_nat i \<notin> rc_global_index ` set [sample_record]
    | Inr m \<Rightarrow> (\<forall>i < unat (3 :: u64). word_of_nat i \<in> rc_global_index ` set [sample_record])
        \<and> m_version m = 1 \<and> distinct (map relative_path (files m))
        \<and> set (files m) = {sorted_file f | f p. group_file p (latest_records [sample_record]) = Some f}"
  using build_manifest_exact [OF sample_index_ok(1), where now = 5 and version = 1 and total_chunks = 3]
  unfolding chunks_of.simps .

end
