(* ===== verification/DPC_Server.thy ===== *)
theory DPC_Server
  imports DPC_Session
begin

text \<open>
  The server of the upload protocol (src/network/BackupServer.cpp): the payloads it reads, the
  handler of a packet and the loop over a connection. The peer is arbitrary: its bytes are the
  \<open>sock_in\<close> of the world. Whatever it sends, the committed versions stay as they are.
\<close>

section \<open>Payloads\<close>

function fields_loop :: "istream \<Rightarrow> string \<Rightarrow> string \<Rightarrow> (string \<rightharpoonup> string) \<Rightarrow> (string \<rightharpoonup> string)" where
  "fields_loop st key val kv =
     (let (key', st1) = extract_string st key; (val', st2) = extract_string st1 val in
      if failed st2 then kv else fields_loop st2 key' val' (kv(key' \<mapsto> val')))"
  by pat_completeness auto
termination
proof (relation "measure (\<lambda>(st, _). length (fst st))", goal_cases)
  case (2 st key val kv x key' st1 y val' st2)
  then show ?case
    using extract_string_shorter(1) [of st key key' st1] extract_string_shorter(2) [of st1 val val' st2] by auto
qed simp

declare fields_loop.simps [simp del]

definition parseTextFields :: "string \<Rightarrow> string \<Rightarrow> (string \<rightharpoonup> string) res" where
  "parseTextFields text expected_header =
     (let (header, in1) = extract_string (istringstream text) [] in
      if header \<noteq> expected_header then Inl (DpcError (''invalid payload header: '' @ header))
      else Inr (fields_loop in1 [] [] Map.empty))"

definition parseU64 :: "(string \<rightharpoonup> string) \<Rightarrow> string \<Rightarrow> u64 res" where
  "parseU64 kv key =
     (case kv key of
        None \<Rightarrow> Inl (DpcError (''missing payload field: '' @ key))
      | Some v \<Rightarrow> stoull v)"

definition field :: "(string \<rightharpoonup> string) \<Rightarrow> string \<Rightarrow> string res" where
  "field kv key =
     (case kv key of
        None \<Rightarrow> Inl (DpcError (''missing payload field: '' @ key))
      | Some v \<Rightarrow> Inr v)"

record put_payload =
  pp_session_id :: string
  pp_relative_path :: string
  pp_file_size :: u64
  pp_file_mode :: u32
  pp_file_sha256 :: string
  pp_chunk_index :: u64
  pp_raw_size :: u64
  pp_compressed_size :: u64
  pp_compressed :: bytes

text \<open>\<open>std::search\<close> for two newlines.\<close>

fun find_separator :: "bytes \<Rightarrow> nat option" where
  "find_separator (x # y # zs) = (if x = 10 \<and> y = 10 then Some 0 else map_option Suc (find_separator (y # zs)))"
| "find_separator _ = None"

definition parsePutPayload :: "bytes \<Rightarrow> put_payload res" where
  "parsePutPayload payload =
     (case find_separator payload of
        None \<Rightarrow> Inl (DpcError ''PUT_CHUNK payload missing metadata separator'')
      | Some i \<Rightarrow>
          rbind (parseTextFields (string_of_bytes (take i payload)) ''DPC_PUT_V1'') (\<lambda>kv.
          rbind (field kv ''session_hex'') (\<lambda>session_hex.
          rbind (hexDecodeString session_hex) (\<lambda>sid.
          rbind (field kv ''relative_path_hex'') (\<lambda>rel_hex.
          rbind (hexDecodeString rel_hex) (\<lambda>rel.
          rbind (parseU64 kv ''file_size'') (\<lambda>fsz.
          rbind (parseU64 kv ''file_mode'') (\<lambda>fmd.
          rbind (field kv ''file_sha256'') (\<lambda>fsha.
          rbind (parseU64 kv ''chunk_index'') (\<lambda>ci.
          rbind (parseU64 kv ''raw_size'') (\<lambda>rs.
          rbind (parseU64 kv ''compressed_size'') (\<lambda>cs.
          let compressed = drop (i + 2) payload in
          if word_of_nat (length compressed) \<noteq> cs then Inl (DpcError ''PUT_CHUNK compressed size mismatch'')
          else Inr \<lparr>pp_session_id = sid, pp_relative_path = rel, pp_file_size = fsz, pp_file_mode = ucast fmd,
                    pp_file_sha256 = fsha, pp_chunk_index = ci, pp_raw_size = rs, pp_compressed_size = cs,
                    pp_compressed = compressed\<rparr>))))))))))))"

section \<open>Answers\<close>

definition payloadString :: "packet \<Rightarrow> string" where
  "payloadString p = string_of_bytes (pk_payload p)"

definition sendText :: "packet_type \<Rightarrow> u64 \<Rightarrow> string \<Rightarrow> unit act" where
  "sendText type session_hash text =
     writePacket \<lparr>pk_type = type, pk_session = session_hash, pk_index = 0, pk_sha = replicate 32 0,
                  pk_payload = bytes_of_string text\<rparr>"

definition sendError :: "u64 \<Rightarrow> string \<Rightarrow> unit act" where
  "sendError session_hash message =
     io_catch (sendText ErrorPacket session_hash (message @ [nl])) (\<lambda>_. io_return ())"

definition writeCheckpoint :: "path \<Rightarrow> unit act" where
  "writeCheckpoint repo =
     io_bind (io_query (\<lambda>w. listCommittedVersions (disk w) repo)) (\<lambda>versions.
     checkpoint_write repo \<lparr>latest_committed_version = latest_of versions, committed_versions = versions\<rparr>)"

definition status_text :: "(u64 \<times> string) list \<Rightarrow> string" where
  "status_text m =
     ''DPC_SESSION_STATUS_V1'' @ [nl] @ concat (map (\<lambda>(i, sha). dec_word i @ '' '' @ sha @ [nl]) m)"

section \<open>The handler of a packet\<close>

definition handle_query :: "path \<Rightarrow> packet \<Rightarrow> unit act" where
  "handle_query repo p =
     io_bind (io_lift (parseTextFields (payloadString p) ''DPC_QUERY_SESSION_V1'')) (\<lambda>kv.
     io_bind (io_lift (rbind (field kv ''session_hex'') hexDecodeString)) (\<lambda>sid.
     io_bind (io_query (\<lambda>w. received (disk w) repo sid)) (\<lambda>m.
     sendText SessionStatus (pk_session p) (status_text m))))"

definition record_of :: "packet \<Rightarrow> put_payload \<Rightarrow> string \<Rightarrow> put_result \<Rightarrow> received_chunk" where
  "record_of p put sha stored =
     \<lparr>rc_global_index = pk_index p, rc_sha256 = sha, rc_relative_path = pp_relative_path put,
      rc_file_size = pp_file_size put, rc_file_mode = pp_file_mode put, rc_file_sha256 = pp_file_sha256 put,
      rc_chunk_index = pp_chunk_index put, rc_raw_size = pp_raw_size put,
      rc_compressed_size = pr_compressed_size stored, rc_object_path = pr_path stored\<rparr>"

definition handle_put :: "third_party \<Rightarrow> path \<Rightarrow> packet \<Rightarrow> unit act" where
  "handle_put T repo p =
     io_bind (io_lift (parsePutPayload (pk_payload p))) (\<lambda>put.
     io_bind (io_lift (decompress T (pp_compressed put) (unat (pp_raw_size put)))) (\<lambda>raw.
     io_bind (io_lift (sha256Hex T raw)) (\<lambda>sha.
     if sha \<noteq> shaHexFromArray (pk_sha p) then io_throw (DpcError ''PUT_CHUNK checksum mismatch'')
     else
       io_bind (putCompressed T repo sha (pp_compressed put) (pp_raw_size put)) (\<lambda>stored.
       io_seq (appendChunk repo (pp_session_id put) (record_of p put sha stored)) (
       sendText PutChunkAck (pk_session p) (''ok'' @ [nl]))))))"

definition handle_commit :: "path \<Rightarrow> packet \<Rightarrow> unit act" where
  "handle_commit repo p =
     io_bind (io_lift (parseTextFields (payloadString p) ''DPC_COMMIT_V1'')) (\<lambda>kv.
     io_bind (io_lift (rbind (field kv ''session_hex'') hexDecodeString)) (\<lambda>sid.
     io_bind (io_lift (parseU64 kv ''total_chunks'')) (\<lambda>total_chunks.
     io_bind (io_query (\<lambda>w. nextVersion (disk w) repo)) (\<lambda>version.
     io_seq (wal_append_text repo BeginBackup (''network-version='' @ dec_word version @ [nl])) (
     io_bind (io_query (\<lambda>w. buildManifest (disk w) repo sid (system_clock w) version total_chunks)) (\<lambda>m.
     io_seq (writeTmp repo version m) (
     io_seq (wal_append_text repo WriteManifest (version_text version)) (
     io_seq (renameTmpToManifest repo version) (
     io_seq (wal_append_text repo RenameManifest (version_text version)) (
     io_seq (marker_create repo version) (
     io_seq (wal_append_text repo CommitBackup (version_text version)) (
     io_seq (writeCheckpoint repo) (
     io_seq (markCommitted repo sid version) (
     sendText CommitAck (pk_session p) (''committed_version '' @ dec_word version @ [nl])))))))))))))))"

definition handlePacket :: "third_party \<Rightarrow> path \<Rightarrow> packet \<Rightarrow> unit act" where
  "handlePacket T repo p =
     (case pk_type p of
        Hello \<Rightarrow> sendText Hello (pk_session p) (''DPC_SERVER_V1'' @ [nl])
      | QuerySession \<Rightarrow> handle_query repo p
      | PutChunk \<Rightarrow> handle_put T repo p
      | CommitSession \<Rightarrow> handle_commit repo p
      | _ \<Rightarrow> io_throw (DpcError ''unsupported packet type''))"

section \<open>The loop over a connection\<close>

text \<open>The handlers work on the disk and answer; what the peer still has to say stays unread.\<close>

abbreviation unread :: "bytes \<Rightarrow> world \<Rightarrow> bool" where
  "unread s \<equiv> \<lambda>w. sock_in w = s"

named_theorems unread_intro \<open>a call reads nothing from the connection\<close>

lemma unread_calls [unread_intro]:
  "keeps (unread s) (sys_try call)" "keeps (unread s) (fsyncFd n)" "keeps (unread s) (makeTempPath p)"
  "keeps (unread s) (writeAll k data)" "keeps (unread s) (sock_writeAll data)" "keeps (unread s) (stream_write p t)"
  by (auto simp: keeps_def sys_try_def fsyncFd_def makeTempPath_def writeAll_def sock_writeAll_def stream_write_def
      split: prod.splits list.splits event.splits sum.splits)

lemma unread_sys [unread_intro]: "keeps (unread s) (sys m call)"
  unfolding sys_def by (intro keeps_intro unread_intro)

lemma unread_ensureDirectory [unread_intro]: "keeps (unread s) (ensureDirectory p)"
  unfolding ensureDirectory_def Let_def
  by (auto intro!: keeps_if keeps_throw keeps_foreach keeps_bind keeps_get keeps_return unread_sys
      simp del: upt_Suc split: option.splits node.splits)

lemma unread_fsyncDirectory [unread_intro]: "keeps (unread s) (fsyncDirectory p)"
  unfolding fsyncDirectory_def by (intro keeps_intro unread_intro)

lemma unread_writeFileAtomic [unread_intro]: "keeps (unread s) (writeFileAtomic p data mode)"
  unfolding writeFileAtomic_def by (intro keeps_intro unread_intro)

lemma unread_store [unread_intro]:
  "keeps (unread s) (writeTmp repo v m)" "keeps (unread s) (marker_create repo v)"
  "keeps (unread s) (checkpoint_write repo data)" "keeps (unread s) (renameTmpToManifest repo v)"
  "keeps (unread s) (ensureLayout repo)" "keeps (unread s) (putCompressed T repo sha c n)"
  "keeps (unread s) (wal_append_text repo t x)"
  unfolding writeTmp_def marker_create_def checkpoint_write_def renameTmpToManifest_def ensureLayout_def
    putCompressed_def wal_append_text_def wal_append_def writeTextAtomic_def Let_def
  by (intro keeps_intro unread_intro)+

lemma unread_session [unread_intro]:
  "keeps (unread s) (appendChunk repo sid r)" "keeps (unread s) (markCommitted repo sid v)"
  unfolding appendChunk_def markCommitted_def stream_open_def
  by (intro keeps_intro unread_intro)+

lemma unread_sendText [unread_intro]: "keeps (unread s) (sendText t h x)"
  unfolding sendText_def writePacket_def by (intro keeps_intro unread_intro)

lemma unread_handlePacket: "keeps (unread s) (handlePacket T repo p)"
  unfolding handlePacket_def handle_query_def handle_put_def handle_commit_def writeCheckpoint_def
  by (cases "pk_type p") (auto intro!: keeps_intro unread_intro)

lemma step_reads:
  assumes "io_bind readPacket (handlePacket T repo) w = (Inr u, w')"
  shows "length (sock_in w') < length (sock_in w)"
proof -
  obtain p w1 where p: "readPacket w = (Inr p, w1)" and h: "handlePacket T repo p w1 = (Inr u, w')"
    using assms by (auto simp: res_simps)
  obtain e where e: "encode p = Inr e" "sock_in w = e @ sock_in w1" and wf: "wf_packet p"
    using readPacket_frame [OF p] by blast
  have "sock_in w' = sock_in w1" using keepsD_eq [OF unread_handlePacket [of "sock_in w1"] _ h] by simp
  moreover have "e \<noteq> []" using e(1) length_frame [OF wf] by (auto simp: res_simps frame_def kHeaderSize_def)
  ultimately show ?thesis using e(2) by simp
qed

text \<open>
  \<open>stopped k\<close> is what the loop's \<open>k\<close>-th look at the flag \<open>stopped_\<close> gives. A \<open>DpcError\<close> ends the
  connection, with a message to the peer; any other exception leaves the handler. Every round
  takes a frame from the connection, so the loop ends.
\<close>

function handleConnection :: "third_party \<Rightarrow> path \<Rightarrow> (nat \<Rightarrow> bool) \<Rightarrow> nat \<Rightarrow> unit act" where
  "handleConnection T repo stopped k w =
     (if stopped k then (Inr (), w)
      else case io_bind readPacket (handlePacket T repo) w of
        (Inr _, w') \<Rightarrow> handleConnection T repo stopped (k + 1) w'
      | (Inl e, w') \<Rightarrow>
          if is_dpc_error e
          then (if what e \<noteq> ''socket closed'' then sendError 0 (what e) w' else (Inr (), w'))
          else (Inl e, w'))"
  by pat_completeness auto
termination
  by (relation "measure (\<lambda>(_, _, _, _, w). length (sock_in w))") (auto dest: step_reads [OF sym])

declare handleConnection.simps [simp del]

text \<open>
  The accept loop, for a pool with one worker: the connections are taken in order, each given by
  what its peer sends and by the flag \<open>stopped_\<close> as its rounds see it. An exception that leaves a
  handler ends the process.
\<close>

type_synonym connection = "bytes \<times> (nat \<Rightarrow> bool)"

definition serve_one :: "third_party \<Rightarrow> path \<Rightarrow> connection \<Rightarrow> unit act" where
  "serve_one T repo conn =
     io_seq (io_modify (\<lambda>w :: world. w\<lparr>sock_in := fst conn, sock_out := []\<rparr>))
       (handleConnection T repo (snd conn) 0)"

definition serve :: "third_party \<Rightarrow> path \<Rightarrow> connection list \<Rightarrow> unit act" where
  "serve T repo conns = io_seq (ensureLayout repo) (io_foreach (serve_one T repo) conns)"

section \<open>What the peer cannot do\<close>

lemma keeps_sendText [keeps_intro]: "keeps (on_disk D) (sendText t h x)" "keeps (on_disk D) (sendError h x)"
  unfolding sendText_def sendError_def by (intro keeps_intro)+

lemma handleConnection_keeps:
  assumes "\<And>p. keeps (on_disk D) (handlePacket T repo p)"
  shows "keeps (on_disk D) (handleConnection T repo stopped k)"
proof -
  have step: "keeps (on_disk D) (io_bind readPacket (handlePacket T repo))"
    using assms by (intro keeps_intro)
  have "D (disk w) \<Longrightarrow> D (disk (snd (handleConnection T repo stopped k w)))" for w
    using assms step
  proof (induction T repo stopped k w rule: handleConnection.induct)
    case (1 T repo stopped k w)
    obtain r w' where run: "io_bind readPacket (handlePacket T repo) w = (r, w')" by fastforce
    have w': "D (disk w')" using keepsD_eq [OF "1.prems"(3) _ run] "1.prems"(1) by simp
    show ?case
    proof (cases r)
      case (Inl e)
      show ?thesis using keepsD [OF keeps_sendText(2) [of D 0 "what e"], of w'] w' run Inl "1.prems"(1)
        by (subst handleConnection.simps) auto
    next
      case (Inr u)
      show ?thesis
      proof (cases "stopped k")
        case False
        show ?thesis
          using "1.IH" [OF False] run Inr w' "1.prems"(2,3) False by (subst handleConnection.simps) auto
      qed (use "1.prems"(1) in \<open>subst handleConnection.simps, simp\<close>)
    qed
  qed
  then show ?thesis by (simp add: keeps_def)
qed

context inside_repo
begin

lemma packet_handled [keeps_intro]: "keeps (on_disk D) (handlePacket T repo p)"
  unfolding handlePacket_def handle_query_def handle_put_def handle_commit_def writeCheckpoint_def
  by (cases "pk_type p") (auto intro!: keeps_intro)

lemma served [keeps_intro]: "keeps (on_disk D) (serve T repo conns)"
proof -
  have "keeps (on_disk D) (io_modify (\<lambda>w :: world. w\<lparr>sock_in := i, sock_out := []\<rparr>))" for i
    by (simp add: keeps_def)
  then show ?thesis
    unfolding serve_def serve_one_def
    by (intro keeps_seq keeps_foreach layout handleConnection_keeps packet_handled)
qed

end

lemma triple_lift_bind:
  "(\<And>a. triple P (f a) Q E) \<Longrightarrow> (\<And>w. P w \<Longrightarrow> E w) \<Longrightarrow> triple P (io_bind (io_lift r) f) Q E"
  by (cases r) (auto simp: io_lift_steps intro: triple_throw)

text \<open>Together with the directory the versions are listed from, the committed versions are an invariant.\<close>

definition versions_safe :: "fs \<Rightarrow> path \<Rightarrow> fs \<Rightarrow> bool" where
  "versions_safe d0 repo d \<longleftrightarrow> kept (durable repo (committed d0 repo)) d0 d \<and> is_dir d (repo @ [''manifests''])"

lemma versions_safeI:
  assumes "triple (on_disk (versions_safe d0 repo)) m (\<lambda>_. spares repo (committed d0 repo) d0)
      (spares repo (committed d0 repo) d0)"
    and "keeps (on_disk (\<lambda>d. is_dir d (repo @ [''manifests'']))) m"
  shows "keeps (on_disk (versions_safe d0 repo)) m"
proof (rule keepsI)
  fix w :: world
  assume w: "versions_safe d0 repo (disk w)"
  then have "kept (durable repo (committed d0 repo)) d0 (disk (snd (m w)))" by (rule triple_snd [OF assms(1)])
  moreover have "is_dir (disk (snd (m w))) (repo @ [''manifests''])"
    using w by (intro keepsD [OF assms(2)]) (simp add: versions_safe_def)
  ultimately show "versions_safe d0 repo (disk (snd (m w)))" by (simp add: versions_safe_def)
qed

lemma handle_commit_safe:
  "triple (on_disk (versions_safe d0 repo)) (handle_commit repo p)
     (\<lambda>_. spares repo (committed d0 repo) d0) (spares repo (committed d0 repo) d0)"
  unfolding handle_commit_def writeCheckpoint_def versions_safe_def
  by (rule triple_lift_bind [OF triple_lift_bind [OF triple_lift_bind [OF spares_next_version]]])
    (auto intro!: keeps_intro spares_renameTmp spares_marker)

lemma packet_safe [keeps_intro]: "keeps (on_disk (versions_safe d0 repo)) (handlePacket T repo p)"
proof (rule versions_safeI)
  let ?S = "spares repo (committed d0 repo) d0"
  have "keeps ?S (handle_query repo p)" "keeps ?S (handle_put T repo p)"
    unfolding handle_query_def handle_put_def by (intro keeps_intro)+
  then have "triple (on_disk (versions_safe d0 repo)) m (\<lambda>_. ?S) ?S" if "m \<in> {handle_query repo p, handle_put T repo p}" for m
    using that by (auto simp: versions_safe_def intro: triple_conseq [OF triple_keeps])
  moreover have "triple (on_disk (versions_safe d0 repo)) (sendText t h x) (\<lambda>_. ?S) ?S" for t h x
    by (rule triple_conseq [OF triple_keeps [of ?S]]) (auto simp: versions_safe_def intro: keeps_sendText)
  ultimately show "triple (on_disk (versions_safe d0 repo)) (handlePacket T repo p) (\<lambda>_. ?S) ?S"
    unfolding handlePacket_def using handle_commit_safe
    by (cases "pk_type p") (auto simp: versions_safe_def intro!: triple_throw)
qed (rule dirs.packet_handled)

lemma serve_safe:
  "kept (durable repo (committed (disk w) repo)) (disk w) (disk (snd (serve T repo conns w)))"
proof -
  let ?S = "spares repo (committed (disk w) repo) (disk w)"
  have reset: "keeps (on_disk D) (io_modify (\<lambda>w :: world. w\<lparr>sock_in := i, sock_out := []\<rparr>))" for D i
    by (simp add: keeps_def)
  have "keeps (on_disk (versions_safe (disk w) repo)) (io_foreach (serve_one T repo) conns)"
    unfolding serve_one_def by (intro keeps_foreach keeps_seq reset handleConnection_keeps packet_safe)
  then have conns: "triple (on_disk (versions_safe (disk w) repo)) (io_foreach (serve_one T repo) conns) (\<lambda>_. ?S) ?S"
    by (rule triple_conseq [OF triple_keeps]) (simp_all add: versions_safe_def)
  have "triple ?S (serve T repo conns) (\<lambda>_. ?S) ?S"
    unfolding serve_def
    by (rule triple_seq [OF layout_makes_dirs conns [unfolded versions_safe_def]])
  then show ?thesis using triple_snd [of ?S _ ?S w] by simp
qed

section \<open>Properties\<close>

text \<open>A peer cannot harm a committed version. Whatever the connections say, whatever happens to the
  calls of the server and wherever it is cut off, a version committed when the server starts still
  loads as the same manifest, its files still are what they were, and it verifies if it did; and
  nothing outside of the repository is written.\<close>

lemma server_keeps_versions:
  assumes "is_regular (disk w) (commitPath repo v)" and "unat v < 10 ^ 6" and "load (disk w) repo v = Inr m"
  shows "load (disk (snd (serve T repo conns w))) repo v = Inr m
    \<and> (\<forall>f c. file_is T (disk w) repo f c \<longrightarrow> file_is T (disk (snd (serve T repo conns w))) repo f c)
    \<and> (verify T (disk w) repo v = Inr () \<longrightarrow> verify T (disk (snd (serve T repo conns w))) repo v = Inr ())
    \<and> untouched (outside_of repo) (disk w) (disk (snd (serve T repo conns w)))"
  using version_survives_kept [OF serve_safe assms] keepsD [OF stays.served [of repo "disk w" T conns], of w] by simp

end
