(* ===== verification/DPC_Commit.thy ===== *)
theory DPC_Commit
  imports DPC_Server
begin

text \<open>
  What the handlers of the server do when they answer (src/network/BackupServer.cpp): a chunk that
  is acknowledged is in the store and in the index of its session, and a commit makes a version
  with the manifest of the session. And what they do not check.
\<close>

section \<open>Fields are tokens\<close>

lemma extract_string_gives_token:
  assumes "extract_string st old = (v, st')" and "\<not> failed st'"
  shows "token v"
proof -
  let ?t = "skipws (fst st)"
  have v: "?t \<noteq> []" "v = takeWhile (\<lambda>c. \<not> isspace c) ?t"
    using assms by (auto simp: extract_string_def Let_def split: if_splits)
  moreover have "\<not> isspace (hd ?t)" using v(1) unfolding skipws_def by (rule hd_dropWhile)
  ultimately show ?thesis
    by (cases ?t) (auto simp: token_def list_all_iff dest: set_takeWhileD)
qed

lemma fields_loop_tokens:
  assumes "\<forall>k v. kv k = Some v \<longrightarrow> token v"
  shows "fields_loop st key val kv k = Some v \<Longrightarrow> token v"
  using assms
proof (induction st key val kv rule: fields_loop.induct)
  case (1 st key val kv)
  obtain key' st1 where x1: "extract_string st key = (key', st1)" by (rule prod.exhaust)
  obtain val' st2 where x2: "extract_string st1 val = (val', st2)" by (rule prod.exhaust)
  note x = x1 x2
  show ?case
  proof (cases "failed st2")
    case True
    then show ?thesis using "1.prems" x by (simp add: fields_loop.simps [of st])
  next
    case False
    then have "token val'" using extract_string_gives_token [OF x(2)] by simp
    then have "\<forall>k v. (kv(key' \<mapsto> val')) k = Some v \<longrightarrow> token v" using "1.prems"(2) by simp
    moreover have "fields_loop st2 key' val' (kv(key' \<mapsto> val')) k = Some v"
      using "1.prems"(1) x False by (simp add: fields_loop.simps [of st])
    ultimately show ?thesis
      using "1.IH" [OF x(1) [symmetric] refl x(2) [symmetric] refl False] by blast
  qed
qed

lemma parseTextFields_token: "parseTextFields x h = Inr kv \<Longrightarrow> field kv k = Inr v \<Longrightarrow> token v"
  using fields_loop_tokens [of Map.empty]
  by (auto simp: parseTextFields_def field_def Let_def split: prod.splits if_splits option.splits)

lemma hexDecodeString_nonempty: "hexDecodeString h = Inr s \<Longrightarrow> token h \<Longrightarrow> s \<noteq> []"
proof -
  assume dec: "hexDecodeString h = Inr s" and h: "token h"
  then obtain a b rest where "h = a # b # rest"
    by (cases h rule: remdups_adj.cases) (auto simp: hexDecodeString_def token_def split: if_splits)
  with dec show "s \<noteq> []" by (auto simp: hexDecodeString_def string_of_bytes_def res_simps split: if_splits)
qed

lemma parsePutPayload_fields:
  assumes "parsePutPayload b = Inr put"
  shows "token (pp_file_sha256 put) \<and> pp_relative_path put \<noteq> [] \<and> pp_session_id put \<noteq> []
    \<and> pp_compressed_size put = word_of_nat (length (pp_compressed put))"
proof -
  obtain i kv sh rh where kv: "parseTextFields (string_of_bytes (take i b)) ''DPC_PUT_V1'' = Inr kv"
    and f: "field kv ''session_hex'' = Inr sh" "hexDecodeString sh = Inr (pp_session_id put)"
      "field kv ''relative_path_hex'' = Inr rh" "hexDecodeString rh = Inr (pp_relative_path put)"
      "field kv ''file_sha256'' = Inr (pp_file_sha256 put)"
      "pp_compressed_size put = word_of_nat (length (pp_compressed put))"
    using assms by (auto simp: parsePutPayload_def res_simps Let_def split: option.splits if_splits)
  then show ?thesis using parseTextFields_token [OF kv] hexDecodeString_nonempty by blast
qed

text \<open>Lines of fields, one after the header, are read as they were written.\<close>

definition field_line :: "string \<times> string \<Rightarrow> string" where
  "field_line kv = nl # fst kv @ sp # snd kv"

lemma fields_text_end: "list_all isspace tail \<Longrightarrow> token_end (concat (map field_line kvs) @ tail)"
  by (cases kvs; cases tail) (simp_all add: field_line_def)

lemma fields_loop_text:
  assumes "list_all (\<lambda>kv. token (fst kv) \<and> token (snd kv)) kvs" and "list_all isspace tail"
  shows "fields_loop (concat (map field_line kvs) @ tail, False) key val m = foldl (\<lambda>m kv. m(fst kv \<mapsto> snd kv)) m kvs"
  using assms(1)
proof (induction kvs arbitrary: key val m)
  case Nil
  have "skipws tail = []" using assms(2) by (simp add: skipws_def dropWhile_eq_Nil_conv list_all_iff)
  then show ?case by (simp add: fields_loop.simps)
next
  case (Cons kv kvs)
  let ?rest = "concat (map field_line kvs) @ tail"
  have t: "token (fst kv)" "token (snd kv)" using Cons.prems by simp_all
  have "extract_string (nl # fst kv @ sp # snd kv @ ?rest, False) key = (fst kv, (sp # snd kv @ ?rest, False))"
    by (rule extract_string_token(2) [OF t(1)]) simp_all
  moreover have "extract_string (sp # snd kv @ ?rest, False) val = (snd kv, (?rest, False))"
    by (rule extract_string_token(2) [OF t(2) fields_text_end [OF assms(2)]]) simp
  moreover have "concat (map field_line (kv # kvs)) @ tail = nl # fst kv @ sp # snd kv @ ?rest"
    unfolding list.map concat.simps append_assoc by (simp add: field_line_def [of kv])
  ultimately show ?case
    using Cons.IH Cons.prems by (simp add: fields_loop.simps [of "(nl # _, _)"] del: fun_upd_apply)
qed

lemma parseTextFields_text:
  assumes "token h" and "list_all (\<lambda>kv. token (fst kv) \<and> token (snd kv)) kvs" and "list_all isspace tail"
  shows "parseTextFields (h @ concat (map field_line kvs) @ tail) h = Inr (foldl (\<lambda>m kv. m(fst kv \<mapsto> snd kv)) Map.empty kvs)"
  using extract_string_token(1) [OF assms(1) fields_text_end [OF assms(3)]] fields_loop_text [OF assms(2,3)]
  by (simp add: parseTextFields_def istringstream_def)

section \<open>The index through the other operations\<close>

lemma session_off_dirs:
  assumes "length q \<le> length (walk repo) + 2"
  shows "walk (session_path repo sid) \<noteq> take i q"
  unfolding walk_session by (rule longer_not_take) (use assms in simp)

lemma session_kept_dir:
  assumes "length (walk p) \<le> length (walk repo) + 2"
  shows "keeps (on_disk (\<lambda>d. node_at d (walk (session_path repo sid)) = n)) (ensureDirectory p)"
  using session_off_dirs [OF assms] by (intro keeps_ensureDirectory) simp

lemma session_kept_layout: "keeps (on_disk (\<lambda>d. node_at d (walk (session_path repo sid)) = n)) (ensureLayout repo)"
  unfolding ensureLayout_def by (intro keeps_seq session_kept_dir) (simp_all add: walk_plain)

lemma session_kept_log:
  "keeps (on_disk (\<lambda>d. node_at d (walk (session_path repo sid)) = n)) (wal_append_text repo t x)"
proof -
  have "walk (session_path repo sid) \<noteq> walk repo @ [''metadata'', ''wal.log'']" by (simp add: walk_session)
  then show ?thesis
    unfolding wal_append_text_def
    using session_off_dirs [of "walk repo @ [''metadata'']" repo sid] by (intro keeps_wal_append) simp_all
qed

lemma session_kept_put:
  "keeps (on_disk (\<lambda>d. node_at d (walk (session_path repo sid)) = n)) (putCompressed T repo sha c m)"
proof (cases "isSha256Hex sha")
  case True
  let ?k = "walk (session_path repo sid)" and ?p = "repo @ object_names sha"
  note plain = object_names_plain(1) [OF True]
  have "\<not> temp_of ?p ?k"
    using temp_of_plain [OF plain, of repo ?k] by (auto simp: object_names_def walk_session)
  moreover have "?k \<noteq> walk ?p" unfolding walk_plain [OF plain] by (simp add: object_names_def walk_session)
  moreover have "walk (butlast ?p) = walk repo @ [''objects'', take 2 sha]"
    using walk_plain [of "[''objects'', take 2 sha]" repo] plain by (simp add: object_names_def butlast_append)
  then have "?k \<noteq> take i (walk (butlast ?p))" for i by (intro session_off_dirs) simp
  ultimately have "keeps (on_disk (\<lambda>d. node_at d ?k = n)) (writeFileAtomic ?p c 0x1a4)"
    by (intro keeps_writeFileAtomic survives_node)
  then show ?thesis
    using True objectPathForHash_join [of sha "join_path (object_names sha)"]
      absoluteObjectPath_object [OF True, of repo] session_kept_layout [of repo sid n]
    by (auto simp: putCompressed_def requireSha256Hex_def io_lift_steps Let_def intro!: keeps_intro)
next
  case False
  then show ?thesis
    by (auto simp: putCompressed_def requireSha256Hex_def io_lift_steps intro!: keeps_seq keeps_throw session_kept_layout)
qed

lemma index_kept:
  assumes "\<And>n. keeps (on_disk (\<lambda>d. node_at d (walk (session_path repo sid)) = n)) m"
    and "m w = (r, w')" and "index_file repo sid ls (disk w)"
  shows "index_file repo sid ls (disk w')"
proof -
  have "node_at (disk w') (walk (session_path repo sid)) = node_at (disk w) (walk (session_path repo sid))"
    using keepsD_eq [OF assms(1) refl assms(2)] .
  then show ?thesis using assms(3) by (simp add: index_file_def)
qed

section \<open>A chunk that was acknowledged\<close>

text \<open>The frame says how large its contents are, as the client's frames do.\<close>

definition declares_size :: "third_party \<Rightarrow> bytes \<Rightarrow> nat \<Rightarrow> bool" where
  "declares_size T c n \<longleftrightarrow> zstd_frame_size T c = word_of_nat n"

lemma decompress_undeclared:
  assumes "decompress T c n = Inr raw" and "declares_size T c n"
  shows "decompress T c 0 = Inr raw"
proof (cases "n = 0")
  case False
  have eight: "(8 :: nat) = Suc 7" by simp
  have run: "decompress_attempts T c n n (Suc 7) = Inr raw"
    using assms(1) False unfolding decompress_def eight by (simp del: decompress_attempts.simps)
  then have n: "n \<le> vector_max_size" "zstd_decompress T n c = Inr raw"
    using False unfolding decompress_attempts.simps(2) by (auto split: if_splits sum.splits)
  then have small: "n < 2 ^ 63" by (simp add: vector_max_size_def)
  then have u: "unat (word_of_nat n :: u64) = n" by (simp add: unsigned_of_nat take_bit_nat_eq_self)
  have "unat kZstdContentSizeError = 2 ^ 64 - 2" "unat kZstdContentSizeUnknown = 2 ^ 64 - 1"
    unfolding kZstdContentSizeError_def kZstdContentSizeUnknown_def by (simp_all add: unsigned_minus_1_eq_mask mask_eq_exp_minus_1)
  moreover have "x \<noteq> y" if "unat x < 2 ^ 63" and "2 ^ 63 \<le> unat y" for x y :: u64 using that by auto
  ultimately have "(word_of_nat n :: u64) \<noteq> kZstdContentSizeError" "(word_of_nat n :: u64) \<noteq> kZstdContentSizeUnknown"
    using u small by simp_all
  then have "decompress T c 0 = decompress_attempts T c 0 n (Suc 7)"
    using assms(2) u unfolding decompress_def declares_size_def eight
    by (simp add: Let_def del: decompress_attempts.simps)
  then show ?thesis using n unfolding decompress_attempts.simps(2) by simp
qed (use assms in simp)

lemma handle_put_run:
  assumes "handle_put T repo p w = (Inr u, w')" and "parsePutPayload (pk_payload p) = Inr put"
  obtains raw sha stored w1 w2 where "decompress T (pp_compressed put) (unat (pp_raw_size put)) = Inr raw"
    and "sha256Hex T raw = Inr sha" and "sha = shaHexFromArray (pk_sha p)"
    and "putCompressed T repo sha (pp_compressed put) (pp_raw_size put) w = (Inr stored, w1)"
    and "appendChunk repo (pp_session_id put) (record_of p put sha stored) w1 = (Inr (), w2)"
    and "sendText PutChunkAck (pk_session p) (''ok'' @ [nl]) w2 = (Inr u, w')"
proof -
  obtain raw sha where d: "decompress T (pp_compressed put) (unat (pp_raw_size put)) = Inr raw"
      "sha256Hex T raw = Inr sha" "sha = shaHexFromArray (pk_sha p)"
    and rest: "io_bind (putCompressed T repo sha (pp_compressed put) (pp_raw_size put)) (\<lambda>stored.
       io_seq (appendChunk repo (pp_session_id put) (record_of p put sha stored)) (
       sendText PutChunkAck (pk_session p) (''ok'' @ [nl]))) w = (Inr u, w')"
    using assms(1) unfolding handle_put_def assms(2) io_lift_steps
    by (cases "decompress T (pp_compressed put) (unat (pp_raw_size put))"; simp add: io_lift_steps)
      (cases "sha256Hex T (projr (decompress T (pp_compressed put) (unat (pp_raw_size put))))";
        simp add: io_lift_steps split: if_splits)
  from rest that [OF d] show thesis unfolding io_bind_Inr io_seq_Inr by (metis unit.exhaust)
qed

lemma sendText_disk: "sendText t h x w = (r, w') \<Longrightarrow> disk w' = disk w"
proof -
  assume run: "sendText t h x w = (r, w')"
  have "keeps (on_disk (\<lambda>d. d = disk w)) (sendText t h x)" by (rule keeps_sendText)
  from keepsD_eq [OF this refl run] show "disk w' = disk w" .
qed

lemma put_stored:
  assumes run: "handle_put T repo p w = (Inr u, w')" and put: "parsePutPayload (pk_payload p) = Inr put"
    and size: "declares_size T (pp_compressed put) (unat (pp_raw_size put))"
  shows "\<exists>x. readRaw T (disk w') repo (shaHexFromArray (pk_sha p)) (join_path (object_names (shaHexFromArray (pk_sha p)))) = Inr x"
proof -
  obtain raw sha stored w1 w2 where dec: "decompress T (pp_compressed put) (unat (pp_raw_size put)) = Inr raw"
    and sha: "sha256Hex T raw = Inr sha" "sha = shaHexFromArray (pk_sha p)"
    and st: "putCompressed T repo sha (pp_compressed put) (pp_raw_size put) w = (Inr stored, w1)"
    and ap: "appendChunk repo (pp_session_id put) (record_of p put sha stored) w1 = (Inr (), w2)"
    and sent: "sendText PutChunkAck (pk_session p) (''ok'' @ [nl]) w2 = (Inr u, w')"
    by (rule handle_put_run [OF run put])
  have ok: "stored_ok T (disk w1) repo sha (pp_compressed put) (pp_raw_size put) stored"
    using tripleD_Inr [OF putCompressed_triple [of repo "{}" "disk w"] _ st] by simp
  have "\<exists>x. readRaw T (disk w1) repo sha (join_path (object_names sha)) = Inr x"
    using ok sha(1) decompress_undeclared [OF dec size]
    by (cases "pr_inserted stored") (auto simp: stored_ok_def readRaw_Inr)
  then obtain x where "readRaw T (disk w1) repo sha (join_path (object_names sha)) = Inr x" by blast
  moreover have "kept (durable repo {}) (disk w1) (disk w2)"
    using keepsD_eq [OF spares_session(1) [of repo "{}" "disk w1"] _ ap] by simp
  ultimately have "readRaw T (disk w2) repo sha (join_path (object_names sha)) = Inr x"
    by (blast intro: readRaw_kept kept_durable_objects)
  then show ?thesis unfolding sha(2) [symmetric] sendText_disk [OF sent] by blast
qed

lemma record_of_wf:
  assumes "parsePutPayload b = Inr put" and "isSha256Hex sha" and "pr_path stored = join_path (object_names sha)"
  shows "wf_received (record_of p put sha stored)"
proof -
  have "join_path (object_names sha) \<noteq> []" by (simp add: object_names_def)
  then show ?thesis
    using parsePutPayload_fields [OF assms(1)] isSha256Hex_token [OF assms(2)] assms(3)
    by (simp add: wf_received_def record_of_def)
qed

lemma put_indexed:
  assumes run: "handle_put T repo p w = (Inr u, w')" and put: "parsePutPayload (pk_payload p) = Inr put"
    and ix: "index_file repo (pp_session_id put) ls (disk w)"
  shows "\<exists>ls'. index_file repo (pp_session_id put) ls' (disk w') \<and> set (chunks_of ls) \<subseteq> set (chunks_of ls')
    \<and> (\<exists>r \<in> set (chunks_of ls'). rc_global_index r = pk_index p \<and> rc_sha256 r = shaHexFromArray (pk_sha p))"
proof -
  obtain raw sha stored w1 w2 where sha: "sha256Hex T raw = Inr sha" "sha = shaHexFromArray (pk_sha p)"
    and st: "putCompressed T repo sha (pp_compressed put) (pp_raw_size put) w = (Inr stored, w1)"
    and ap: "appendChunk repo (pp_session_id put) (record_of p put sha stored) w1 = (Inr (), w2)"
    and sent: "sendText PutChunkAck (pk_session p) (''ok'' @ [nl]) w2 = (Inr u, w')"
    by (rule handle_put_run [OF run put])
  let ?r = "record_of p put sha stored"
  have "stored_ok T (disk w1) repo sha (pp_compressed put) (pp_raw_size put) stored"
    using tripleD_Inr [OF putCompressed_triple [of repo "{}" "disk w"] _ st] by simp
  then have wf: "wf_received ?r" using record_of_wf [OF put] by (simp add: stored_ok_def)
  have old: "index_file repo (pp_session_id put) ls (disk w1)" by (rule index_kept [OF session_kept_put st ix])
  have sel: "rc_global_index ?r = pk_index p" "rc_sha256 ?r = sha" by (simp_all add: record_of_def)
  from appendChunk_run [OF old wf ap] consider
      (new) "index_file repo (pp_session_id put) (ls @ [ChunkLine ?r]) (disk w2)"
    | (again) r0 where "w2 = w1" "r0 \<in> set (chunks_of ls)" "rc_global_index r0 = pk_index p" "rc_sha256 r0 = sha"
    unfolding sel by blast
  then show ?thesis
    unfolding sendText_disk [OF sent] sha(2) [symmetric]
  proof cases
    case new
    then show "\<exists>ls'. index_file repo (pp_session_id put) ls' (disk w2) \<and> set (chunks_of ls) \<subseteq> set (chunks_of ls')
        \<and> (\<exists>r \<in> set (chunks_of ls'). rc_global_index r = pk_index p \<and> rc_sha256 r = sha)"
      by (intro exI [of _ "ls @ [ChunkLine ?r]"]) (auto simp: chunks_of_append sel)
  next
    case again
    then show "\<exists>ls'. index_file repo (pp_session_id put) ls' (disk w2) \<and> set (chunks_of ls) \<subseteq> set (chunks_of ls')
        \<and> (\<exists>r \<in> set (chunks_of ls'). rc_global_index r = pk_index p \<and> rc_sha256 r = sha)"
      using old by blast
  qed
qed

text \<open>Nothing is written before the hash of the contents was compared with the one of the header.\<close>

lemma put_unchecked:
  assumes "\<not> (\<exists>put raw. parsePutPayload (pk_payload p) = Inr put
      \<and> decompress T (pp_compressed put) (unat (pp_raw_size put)) = Inr raw
      \<and> sha256Hex T raw = Inr (shaHexFromArray (pk_sha p)))"
  shows "\<exists>e. handle_put T repo p w = (Inl e, w)"
proof (cases "parsePutPayload (pk_payload p)")
  case (Inr put)
  show ?thesis
  proof (cases "decompress T (pp_compressed put) (unat (pp_raw_size put))")
    case dec: (Inr raw)
    show ?thesis
    proof (cases "sha256Hex T raw")
      case sha: (Inr sha)
      then have "sha \<noteq> shaHexFromArray (pk_sha p)" using assms Inr dec by auto
      then show ?thesis by (simp add: handle_put_def Inr dec sha io_lift_steps)
    qed (simp add: handle_put_def Inr dec io_lift_steps)
  qed (simp add: handle_put_def Inr io_lift_steps)
qed (simp add: handle_put_def io_lift_steps)

section \<open>A session that was committed\<close>

lemma trigger_none: "io_seq (trigger NoFault s) n = n"
  by (simp add: fun_eq_iff io_seq_def io_bind_def trigger_def)

lemma io_seq_assoc: "io_seq (io_seq a b) c = io_seq a (io_seq b c)"
  by (simp add: fun_eq_iff io_seq_def io_bind_def split: prod.splits sum.splits)

lemma commit_version_then:
  "io_seq (commit_version repo NoFault v m) n =
     io_seq (writeTmp repo v m) (
     io_seq (wal_append_text repo WriteManifest (version_text v)) (
     io_seq (renameTmpToManifest repo v) (
     io_seq (wal_append_text repo RenameManifest (version_text v)) (
     io_seq (marker_create repo v) (
     io_seq (wal_append_text repo CommitBackup (version_text v)) (
     io_seq (writeCheckpoint repo) n))))))"
  by (simp only: commit_version_def trigger_none writeCheckpoint_def io_seq_assoc)

lemma handle_commit_run:
  assumes "handle_commit repo p w = (Inr u, w')"
    and "parseTextFields (payloadString p) ''DPC_COMMIT_V1'' = Inr kv"
    and "rbind (field kv ''session_hex'') hexDecodeString = Inr sid"
    and "parseU64 kv ''total_chunks'' = Inr total_chunks"
  obtains v m w1 w2 w3 where "nextVersion (disk w) repo = Inr v"
    and "wal_append_text repo BeginBackup (''network-version='' @ dec_word v @ [nl]) w = (Inr (), w1)"
    and "buildManifest (disk w1) repo sid (system_clock w1) v total_chunks = Inr m"
    and "commit_version repo NoFault v m w1 = (Inr (), w2)"
    and "markCommitted repo sid v w2 = (Inr (), w3)"
    and "sendText CommitAck (pk_session p) (''committed_version '' @ dec_word v @ [nl]) w3 = (Inr u, w')"
  using assms(1) unfolding handle_commit_def assms(2-4) io_lift_steps commit_version_then [symmetric]
  by (auto simp: io_bind_Inr io_seq_Inr)

lemma commit_made:
  assumes run: "handle_commit repo p w = (Inr u, w')"
    and kv: "parseTextFields (payloadString p) ''DPC_COMMIT_V1'' = Inr kv"
      "rbind (field kv ''session_hex'') hexDecodeString = Inr sid"
      "parseU64 kv ''total_chunks'' = Inr total_chunks"
    and ix: "index_file repo sid ls (disk w)"
  shows "\<exists>v m now. nextVersion (disk w) repo = Inr v \<and> buildManifest (disk w) repo sid now v total_chunks = Inr m
    \<and> is_regular (disk w') (commitPath repo v) \<and> load (disk w') repo v = parse (serialize m)"
proof -
  obtain v m w1 w2 w3 where v: "nextVersion (disk w) repo = Inr v"
    and wal: "wal_append_text repo BeginBackup (''network-version='' @ dec_word v @ [nl]) w = (Inr (), w1)"
    and m: "buildManifest (disk w1) repo sid (system_clock w1) v total_chunks = Inr m"
    and com: "commit_version repo NoFault v m w1 = (Inr (), w2)"
    and mark: "markCommitted repo sid v w2 = (Inr (), w3)"
    and sent: "sendText CommitAck (pk_session p) (''committed_version '' @ dec_word v @ [nl]) w3 = (Inr u, w')"
    by (rule handle_commit_run [OF run kv])
  have "index_file repo sid ls (disk w1)" by (rule index_kept [OF session_kept_log wal ix])
  then have "buildManifest (disk w) repo sid (system_clock w1) v total_chunks = Inr m"
    using m ix by (simp add: buildManifest_def session_records_index)
  moreover have "holds_file k c (disk w3)" if "k \<in> durable repo {v}" and "holds_file k c (disk w2)" for k c
    using keeps_file [OF spares_session(2) that(1) mark that(2)] .
  then have "load (disk w3) repo v = parse (serialize m) \<and> is_regular (disk w3) (commitPath repo v)"
    using commit_version_files [OF com] manifest_durable by (intro load_of_files) blast+
  ultimately show ?thesis using v unfolding sendText_disk [OF sent] by blast
qed

section \<open>Properties\<close>

text \<open>C36: an acknowledged chunk is safe. When the handler of a PUT_CHUNK returned, the contents have the
  hash of the packet's header; if the zstd frame declares their size, the object reads back with
  that hash; and on an index of well-formed lines the index still is one, has all it had, and
  records this chunk under its index.\<close>

theorem put_acknowledged:
  assumes "parsePutPayload (pk_payload p) = Inr put" and "index_file repo (pp_session_id put) ls (disk w)"
    and "declares_size T (pp_compressed put) (unat (pp_raw_size put))"
  shows "case handle_put T repo p w of
      (Inl _, _) \<Rightarrow> True
    | (Inr _, w') \<Rightarrow> (let sha = shaHexFromArray (pk_sha p) in
        (\<exists>x. readRaw T (disk w') repo sha (join_path (object_names sha)) = Inr x)
        \<and> (\<exists>ls'. index_file repo (pp_session_id put) ls' (disk w') \<and> set (chunks_of ls) \<subseteq> set (chunks_of ls')
            \<and> (\<exists>r \<in> set (chunks_of ls'). rc_global_index r = pk_index p \<and> rc_sha256 r = sha)))"
  using put_stored [OF _ assms(1,3)] put_indexed [OF _ assms(1,2)]
  by (auto simp: Let_def split: prod.splits sum.splits)

text \<open>Nothing unchecked is stored. Unless the payload of a PUT_CHUNK is well formed, its chunk
  decompresses to the announced size and the SHA-256 of the contents is the one in the packet's
  header, the handler throws and has changed nothing.\<close>

lemma put_checked_first:
  "(\<exists>put raw. parsePutPayload (pk_payload p) = Inr put
      \<and> decompress T (pp_compressed put) (unat (pp_raw_size put)) = Inr raw
      \<and> sha256Hex T raw = Inr (shaHexFromArray (pk_sha p)))
   \<or> (\<exists>e. handle_put T repo p w = (Inl e, w))"
  using put_unchecked by blast

text \<open>C35: a commit makes a version of the session. When the handler of a COMMIT_SESSION returned, the
  next version is committed and is loaded from the text of the manifest that \<open>buildManifest\<close> makes
  of the session's index; it loads as that manifest exactly when the manifest is well formed, which
  the server never checks: the path and the file hash come from the peer.\<close>

theorem commit_makes_version:
  assumes "parseTextFields (payloadString p) ''DPC_COMMIT_V1'' = Inr kv"
    and "rbind (field kv ''session_hex'') hexDecodeString = Inr sid"
    and "parseU64 kv ''total_chunks'' = Inr total_chunks" and "index_file repo sid ls (disk w)"
  shows "case handle_commit repo p w of
      (Inl _, _) \<Rightarrow> True
    | (Inr _, w') \<Rightarrow> \<exists>v m now. nextVersion (disk w) repo = Inr v
        \<and> buildManifest (disk w) repo sid now v total_chunks = Inr m
        \<and> is_regular (disk w') (commitPath repo v) \<and> load (disk w') repo v = parse (serialize m)
        \<and> (load (disk w') repo v = Inr m \<longleftrightarrow> wf_manifest m)"
proof (cases "handle_commit repo p w")
  case (Pair r w')
  then show ?thesis
    using commit_made [OF _ assms, of _ w'] parse_serialize parse_wf by (cases r) (auto, metis)
qed

text \<open>A request to commit the session \<open>s\<close>.\<close>

definition sample_commit :: "string \<Rightarrow> packet" where
  "sample_commit n = \<lparr>pk_type = CommitSession, pk_session = 0, pk_index = 0, pk_sha = replicate 32 0,
     pk_payload = bytes_of_string (''DPC_COMMIT_V1''
       @ concat (map field_line [(''session_hex'', hexEncodeString ''s''), (''total_chunks'', n)]) @ [nl])\<rparr>"

lemma sample_commit_fields:
  assumes "token n"
  shows "\<exists>kv. parseTextFields (payloadString (sample_commit n)) ''DPC_COMMIT_V1'' = Inr kv
    \<and> rbind (field kv ''session_hex'') hexDecodeString = Inr ''s'' \<and> kv ''total_chunks'' = Some n"
proof -
  have "token ''session_hex''" "token ''total_chunks''" "token ''DPC_COMMIT_V1''"
    by (simp_all add: token_def isspace_def char_code_def)
  moreover have "token (hexEncodeString ''s'')" by (simp add: hex_token)
  ultimately have "parseTextFields (payloadString (sample_commit n)) ''DPC_COMMIT_V1''
      = Inr [''session_hex'' \<mapsto> hexEncodeString ''s'', ''total_chunks'' \<mapsto> n]"
    using parseTextFields_text [of "''DPC_COMMIT_V1''" "[(''session_hex'', hexEncodeString ''s''), (''total_chunks'', n)]" "[nl]"] assms
    by (simp add: sample_commit_def payloadString_def)
  then show ?thesis by (simp add: field_def str_hex.decode_enc)
qed

theorem commit_makes_version_witness:
  "case handle_commit [''r''] (sample_commit ''1'') (quiet_world sample_index) of
      (Inl _, _) \<Rightarrow> True
    | (Inr _, w') \<Rightarrow> \<exists>v m now. nextVersion sample_index [''r''] = Inr v
        \<and> buildManifest sample_index [''r''] ''s'' now v 1 = Inr m
        \<and> is_regular (disk w') (commitPath [''r''] v) \<and> load (disk w') [''r''] v = parse (serialize m)
        \<and> (load (disk w') [''r''] v = Inr m \<longleftrightarrow> wf_manifest m)"
proof -
  have dec: "dec 1 = ''1''" by code_simp
  obtain kv where kv: "parseTextFields (payloadString (sample_commit ''1'')) ''DPC_COMMIT_V1'' = Inr kv"
      "rbind (field kv ''session_hex'') hexDecodeString = Inr ''s''" "kv ''total_chunks'' = Some (dec 1)"
    using sample_commit_fields [OF token_dec [of 1]] unfolding dec by blast
  then have "parseU64 kv ''total_chunks'' = Inr 1" using stoull_dec [of 1] by (simp add: parseU64_def)
  from commit_makes_version [OF kv(1,2) this, of "[''r'']" _ "quiet_world sample_index", unfolded disk_quiet, OF sample_index_ok(1)]
  show ?thesis .
qed

text \<open>C37: a number that is none ends the server. When the peer sends a COMMIT_SESSION whose
  \<open>total_chunks\<close> \<open>std::stoull\<close> refuses, the exception is no \<open>DpcError\<close>: the loop over the
  connection does not catch it, no answer is sent, and no later connection is served.\<close>

theorem bad_number_ends_server:
  assumes "wf_packet p" and "encode p = Inr e" and "pk_type p = CommitSession"
    and "parseTextFields (payloadString p) ''DPC_COMMIT_V1'' = Inr kv"
    and "rbind (field kv ''session_hex'') hexDecodeString = Inr sid"
    and "kv ''total_chunks'' = Some v" and "stoull v = Inl x"
    and "list_all gentle (script w)" and "\<not> stop 0"
  shows "\<exists>w'. io_foreach (serve_one T repo) ((e @ rest, stop) # conns) w = (Inl x, w')
    \<and> \<not> is_dpc_error x \<and> disk w' = disk w"
proof -
  let ?w = "w\<lparr>sock_in := e @ rest, sock_out := []\<rparr>"
  obtain w1 where w1: "readPacket ?w = (Inr p, w1)" "disk w1 = disk w"
    using readPacket_returns [OF assms(1,2), of ?w rest] assms(8) by auto
  have x: "\<not> is_dpc_error x" using assms(7) by (auto simp: stoull_def Let_def split: prod.splits if_splits)
  have "handlePacket T repo p w1 = (Inl x, w1)"
    using assms(3,6,7) unfolding handlePacket_def
    by (simp add: handle_commit_def assms(4,5) io_lift_steps parseU64_def)
  then have "handleConnection T repo stop 0 ?w = (Inl x, w1)"
    using assms(9) w1 x by (simp add: handleConnection.simps io_bind_run)
  then have "serve_one T repo (e @ rest, stop) w = (Inl x, w1)"
    by (simp add: serve_one_def io_seq_def io_bind_def)
  then show ?thesis using w1(2) x by (simp add: io_seq_def io_bind_def)
qed

theorem bad_number_ends_server_witness:
  "\<exists>e w'. encode (sample_commit ''x'') = Inr e
    \<and> io_foreach (serve_one toy [''r'']) [(e, \<lambda>_. False), ([], \<lambda>_. False)] (quiet_world []) = (Inl (StdException ''stoull''), w')"
proof -
  have x: "token ''x''" by (simp add: token_def isspace_def char_code_def)
  obtain kv where kv: "parseTextFields (payloadString (sample_commit ''x'')) ''DPC_COMMIT_V1'' = Inr kv"
      "rbind (field kv ''session_hex'') hexDecodeString = Inr ''s''" "kv ''total_chunks'' = Some ''x''"
    using sample_commit_fields [OF x] by blast
  have bad: "stoull ''x'' = Inl (StdException ''stoull'')"
    by (simp add: stoull_def skipws_def isspace_def char_code_def sign_of_def isdigit_def Let_def)
  have wf: "wf_packet (sample_commit ''x'')" by (simp add: wf_packet_def sample_commit_def)
  obtain e where e: "encode (sample_commit ''x'') = Inr e"
    by (simp add: encode_eq sample_commit_def kMaxPayloadSize_def field_line_def hexEncodeString_def Let_def)
  have q: "script (quiet_world []) = []" by (simp add: quiet_world_def)
  have "pk_type (sample_commit ''x'') = CommitSession" by (simp add: sample_commit_def)
  from bad_number_ends_server [OF wf e this kv bad, of "quiet_world []" "\<lambda>_. False" toy "[''r'']" "[]" "[([], \<lambda>_. False)]"]
  show ?thesis using e by (auto simp: q)
qed

end
