(* ===== verification/DPC_Console.thy ===== *)
theory DPC_Console
  imports DPC_Text
begin

text \<open>What the programs print (src/include/dpc/common/Logger.hpp).\<close>

text \<open>What a program has put on the two standard streams.\<close>

record console =
  con_out :: string
  con_err :: string

text \<open>What is on them after a text on one of them.\<close>

definition said :: "string \<Rightarrow> console" where
  "said s = \<lparr>con_out = s, con_err = []\<rparr>"

definition complained :: "string \<Rightarrow> console" where
  "complained s = \<lparr>con_out = [], con_err = s\<rparr>"

definition logger_info :: "string \<Rightarrow> console \<Rightarrow> console" where
  "logger_info message c = c\<lparr>con_out := con_out c @ message @ [nl]\<rparr>"

definition logger_warn :: "string \<Rightarrow> console \<Rightarrow> console" where
  "logger_warn message c = c\<lparr>con_err := con_err c @ ''warning: '' @ message @ [nl]\<rparr>"

definition logger_error :: "string \<Rightarrow> console \<Rightarrow> console" where
  "logger_error message c = c\<lparr>con_err := con_err c @ ''error: '' @ message @ [nl]\<rparr>"

end
