(* ===== verification/DPC_Client.thy ===== *)
theory DPC_Client
  imports DPC_Commit DPC_Console
begin

text \<open>
  The client of the upload protocol (src/network/BackupClient.cpp, src/network/TransferSession.cpp):
  it cuts the files of the source into chunks, asks the server which it has, sends the others and
  asks for the commit. The server is arbitrary here: what it answers is the \<open>sock_in\<close> of the world.
  That the two sides understand each other are the round trips at the end.
\<close>

section \<open>Preparing the chunks (TransferSession.cpp)\<close>

record prepared_chunk =
  pc_global_index :: u64
  pc_relative_path :: string
  pc_file_size :: u64
  pc_file_mode :: u32
  pc_file_sha256 :: string
  pc_chunk_index :: u64
  pc_chunk_sha256 :: string
  pc_raw :: bytes
  pc_compressed :: bytes

fun prepare_file_chunks ::
  "third_party \<Rightarrow> string \<Rightarrow> u64 \<Rightarrow> u32 \<Rightarrow> string \<Rightarrow> chunk list \<Rightarrow> u64 \<times> prepared_chunk list
     \<Rightarrow> (u64 \<times> prepared_chunk list) res" where
  "prepare_file_chunks T rel sz md fsha [] st = Inr st"
| "prepare_file_chunks T rel sz md fsha (c # cs) (global_index, out) =
     rbind (sha256Hex T (ch_data c)) (\<lambda>sha.
     rbind (compress T (ch_data c) 3) (\<lambda>compressed.
     prepare_file_chunks T rel sz md fsha cs (global_index + 1, out @
       [\<lparr>pc_global_index = global_index, pc_relative_path = rel, pc_file_size = sz, pc_file_mode = md,
         pc_file_sha256 = fsha, pc_chunk_index = ch_index c, pc_chunk_sha256 = sha,
         pc_raw = ch_data c, pc_compressed = compressed\<rparr>])))"

fun prepare_files ::
  "third_party \<Rightarrow> fs \<Rightarrow> scanned_file list \<Rightarrow> u64 \<times> prepared_chunk list \<Rightarrow> (u64 \<times> prepared_chunk list) res" where
  "prepare_files T d [] st = Inr st"
| "prepare_files T d (f # fs) st =
     rbind (sha256FileAt T d (sf_absolute f)) (\<lambda>file_sha.
     rbind (fileSize d (sf_absolute f)) (\<lambda>sz.
     rbind (fileMode d (sf_absolute f)) (\<lambda>md.
     rbind (readFile d (sf_absolute f)) (\<lambda>data.
     rbind (prepare_file_chunks T (join_path (sf_relative f)) sz md file_sha
              (fixed_chunkBytes kDefaultChunkSize data) st) (\<lambda>st'.
     prepare_files T d fs st')))))"

definition prepareChunks :: "third_party \<Rightarrow> fs \<Rightarrow> path \<Rightarrow> prepared_chunk list res" where
  "prepareChunks T d source =
     rbind (scanRegularFiles d source) (\<lambda>fs. rbind (prepare_files T d fs (0, [])) (\<lambda>st. Inr (snd st)))"

section \<open>Messages (BackupClient.cpp)\<close>

definition requireNotError :: "packet \<Rightarrow> unit res" where
  "requireNotError p =
     (if pk_type p = ErrorPacket then Inl (DpcError (''server error: '' @ payloadString p)) else Inr ())"

function status_loop :: "istream \<Rightarrow> u64 \<Rightarrow> string \<Rightarrow> (u64 \<rightharpoonup> string) \<Rightarrow> (u64 \<rightharpoonup> string)" where
  "status_loop st index sha out =
     (let (index', st1) = extract_word st index; (sha', st2) = extract_string st1 sha in
      if failed st2 then out else status_loop st2 index' sha' (out(index' \<mapsto> sha')))"
  by pat_completeness auto
termination
proof (relation "measure (\<lambda>(st, _). length (fst st))", goal_cases)
  case (2 st index sha out x index' st1 y sha' st2)
  then show ?case
    using extract_word_le [of st index index' st1] extract_string_shorter(2) [of st1 sha sha' st2] by auto
qed simp

declare status_loop.simps [simp del]

definition parseStatus :: "packet \<Rightarrow> (u64 \<rightharpoonup> string) res" where
  "parseStatus p =
     rbind (requireNotError p) (\<lambda>_.
     if pk_type p \<noteq> SessionStatus then Inl (DpcError ''expected SESSION_STATUS packet'')
     else
      (let (header, in1) = extract_string (istringstream (payloadString p)) [] in
       if header \<noteq> ''DPC_SESSION_STATUS_V1'' then Inl (DpcError ''invalid session status payload'')
       else Inr (status_loop in1 0 [] Map.empty)))"

definition put_header :: "string \<Rightarrow> prepared_chunk \<Rightarrow> string" where
  "put_header session_id c =
     ''DPC_PUT_V1'' @ [nl]
       @ ''session_hex '' @ hexEncodeString session_id @ [nl]
       @ ''relative_path_hex '' @ hexEncodeString (pc_relative_path c) @ [nl]
       @ ''file_size '' @ dec_word (pc_file_size c) @ [nl]
       @ ''file_mode '' @ dec_word (pc_file_mode c) @ [nl]
       @ ''file_sha256 '' @ pc_file_sha256 c @ [nl]
       @ ''chunk_index '' @ dec_word (pc_chunk_index c) @ [nl]
       @ ''raw_size '' @ dec (length (pc_raw c)) @ [nl]
       @ ''compressed_size '' @ dec (length (pc_compressed c)) @ [nl, nl]"

definition makePutPayload :: "string \<Rightarrow> prepared_chunk \<Rightarrow> bytes" where
  "makePutPayload session_id c = bytes_of_string (put_header session_id c) @ pc_compressed c"

text \<open>A packet the client makes: the fields it does not set have their defaults.\<close>

definition client_packet :: "packet_type \<Rightarrow> string \<Rightarrow> string \<Rightarrow> packet" where
  "client_packet type session_id body =
     \<lparr>pk_type = type, pk_session = sessionHash session_id, pk_index = 0, pk_sha = replicate 32 0,
      pk_payload = bytes_of_string body\<rparr>"

definition query_text :: "string \<Rightarrow> string" where
  "query_text session_id = ''DPC_QUERY_SESSION_V1'' @ [nl] @ ''session_hex '' @ hexEncodeString session_id @ [nl]"

definition commit_text :: "string \<Rightarrow> nat \<Rightarrow> string" where
  "commit_text session_id n =
     ''DPC_COMMIT_V1'' @ [nl] @ ''session_hex '' @ hexEncodeString session_id @ [nl]
       @ ''total_chunks '' @ dec n @ [nl]"

definition put_packet :: "string \<Rightarrow> prepared_chunk \<Rightarrow> packet res" where
  "put_packet session_id c =
     rbind (shaArrayFromHex (pc_chunk_sha256 c)) (\<lambda>sha.
       Inr \<lparr>pk_type = PutChunk, pk_session = sessionHash session_id, pk_index = pc_global_index c,
            pk_sha = sha, pk_payload = makePutPayload session_id c\<rparr>)"

section \<open>Uploading\<close>

definition recorded :: "(u64 \<rightharpoonup> string) \<Rightarrow> prepared_chunk \<Rightarrow> bool" where
  "recorded known c \<longleftrightarrow> known (pc_global_index c) = Some (pc_chunk_sha256 c)"

text \<open>Sends a packet and takes the answer, which must not be an error.\<close>

definition exchange :: "packet \<Rightarrow> packet act" where
  "exchange p = io_seq (writePacket p) (
     io_bind readPacket (\<lambda>answer. io_seq (io_lift (requireNotError answer)) (io_return answer)))"

text \<open>The loop over the chunks; it answers whether the client stops after the chunks it was asked for.\<close>

fun send_chunks :: "string \<Rightarrow> (u64 \<rightharpoonup> string) \<Rightarrow> nat \<Rightarrow> nat \<Rightarrow> prepared_chunk list \<Rightarrow> bool act" where
  "send_chunks session_id known exit_after sent [] = io_return False"
| "send_chunks session_id known exit_after sent (c # cs) =
     (if recorded known c then send_chunks session_id known exit_after sent cs
      else
        io_bind (io_lift (put_packet session_id c)) (\<lambda>p.
        io_bind (exchange p) (\<lambda>ack.
        if pk_type ack \<noteq> PutChunkAck then io_throw (DpcError ''expected PUT_CHUNK_ACK packet'')
        else if exit_after > 0 \<and> sent + 1 \<ge> exit_after then io_return True
        else send_chunks session_id known exit_after (sent + 1) cs)))"

text \<open>
  \<open>connected\<close> is what \<open>connectTo\<close> gave, which comes with its sockets (DPC_Descriptors). The result is the exit code of the program with what it prints.
\<close>

definition upload ::
  "third_party \<Rightarrow> path \<Rightarrow> unit res \<Rightarrow> string \<Rightarrow> nat \<Rightarrow> (int \<times> console) act" where
  "upload T source connected session_id exit_after =
     io_bind (io_query (\<lambda>w. prepareChunks T (disk w) source)) (\<lambda>cs.
     io_seq (io_lift connected) (
     io_seq (exchange (client_packet Hello session_id (''DPC_CLIENT_V1'' @ [nl]))) (
     io_seq (writePacket (client_packet QuerySession session_id (query_text session_id))) (
     io_bind readPacket (\<lambda>answer.
     io_bind (io_lift (parseStatus answer)) (\<lambda>known.
     io_bind (send_chunks session_id known exit_after 0 cs) (\<lambda>stop.
     if stop then io_return (75, complained (''client exiting after requested chunk count'' @ [nl]))
     else
       io_bind (exchange (client_packet CommitSession session_id (commit_text session_id (length cs)))) (\<lambda>ack.
       if pk_type ack \<noteq> CommitAck then io_throw (DpcError ''expected COMMIT_ACK packet'')
       else io_return (0, said (payloadString ack))))))))))"

section \<open>The server reads what the client writes\<close>

lemma find_separator_other: "x \<noteq> 10 \<Longrightarrow> find_separator (x # bs) = map_option Suc (find_separator bs)"
  by (cases bs) simp_all

lemma find_separator_free:
  "10 \<notin> set bs \<Longrightarrow> find_separator (bs @ rest) = map_option (\<lambda>i. length bs + i) (find_separator rest)"
  by (induction bs) (cases "find_separator rest"; simp add: find_separator_other)+

lemma byte_of_nl [simp]: "byte_of_char nl = 10"
  by (simp add: byte_of_char_def char_code_def)

lemma byte_of_nl_iff: "byte_of_char c = 10 \<longleftrightarrow> c = nl"
proof
  assume "byte_of_char c = 10"
  then have "char_of_byte (byte_of_char c) = char_of_byte (byte_of_char nl)" by simp
  then show "c = nl" unfolding char_of_byte_of_char .
qed simp

lemma token_free: "token t \<Longrightarrow> 10 \<notin> set (bytes_of_string t)"
  using token_no_nl [of t] by (auto simp: bytes_of_string_def byte_of_nl_iff image_iff eq_commute [of "10"])

lemma bytes_append: "bytes_of_string (s @ t) = bytes_of_string s @ bytes_of_string t"
  by (simp add: bytes_of_string_def)

lemma find_separator_fields:
  assumes "list_all (\<lambda>kv. token (fst kv) \<and> token (snd kv)) kvs"
  shows "find_separator (bytes_of_string (concat (map field_line kvs)) @ 10 # 10 # rest)
    = Some (length (concat (map field_line kvs)))"
  using assms
proof (induction kvs)
  case (Cons kv kvs)
  let ?t = "bytes_of_string (fst kv @ sp # snd kv)"
  let ?r = "bytes_of_string (concat (map field_line kvs)) @ 10 # 10 # rest"
  have t: "token (fst kv)" "token (snd kv)" using Cons.prems by simp_all
  then have free: "10 \<notin> set ?t"
    using token_free by (auto simp: bytes_append) (simp add: bytes_of_string_def byte_of_nl_iff)
  obtain x xs where x: "?t = x # xs" using t(1) by (cases "fst kv") (auto simp: token_def bytes_of_string_def)
  have "find_separator (10 # ?t @ ?r) = map_option Suc (find_separator (?t @ ?r))"
    using free by (simp add: x)
  also have "\<dots> = Some (Suc (length ?t + length (concat (map field_line kvs))))"
    using Cons.IH Cons.prems find_separator_free [OF free, of ?r] by simp
  finally show ?case
    by (simp add: field_line_def [of kv] bytes_of_string_def)
qed (simp add: bytes_of_string_def)

definition put_fields :: "string \<Rightarrow> prepared_chunk \<Rightarrow> (string \<times> string) list" where
  "put_fields session_id c =
     [(''session_hex'', hexEncodeString session_id), (''relative_path_hex'', hexEncodeString (pc_relative_path c)),
      (''file_size'', dec_word (pc_file_size c)), (''file_mode'', dec_word (pc_file_mode c)),
      (''file_sha256'', pc_file_sha256 c), (''chunk_index'', dec_word (pc_chunk_index c)),
      (''raw_size'', dec (length (pc_raw c))), (''compressed_size'', dec (length (pc_compressed c)))]"

lemma put_header_fields:
  "put_header session_id c = (''DPC_PUT_V1'' @ concat (map field_line (put_fields session_id c))) @ [nl, nl]"
  by (simp add: put_header_def put_fields_def field_line_def)

text \<open>What the two sides must agree on: names that are there, a hash without blanks, sizes of the machine.\<close>

definition sendable :: "string \<Rightarrow> prepared_chunk \<Rightarrow> bool" where
  "sendable session_id c \<longleftrightarrow> session_id \<noteq> [] \<and> pc_relative_path c \<noteq> [] \<and> token (pc_file_sha256 c)
     \<and> length (pc_raw c) < 2 ^ 64 \<and> length (pc_compressed c) < 2 ^ 64"

lemma put_fields_tokens:
  "sendable session_id c \<Longrightarrow> list_all (\<lambda>kv. token (fst kv) \<and> token (snd kv)) (put_fields session_id c)"
  by (simp add: sendable_def put_fields_def hex_token) (simp add: token_def isspace_def char_code_def)

lemma mode_through_u64: "ucast (ucast m :: u64) = (m :: u32)"
  by transfer simp

lemma parse_put:
  assumes "sendable session_id c"
  shows "parsePutPayload (makePutPayload session_id c) = Inr
    \<lparr>pp_session_id = session_id, pp_relative_path = pc_relative_path c, pp_file_size = pc_file_size c,
     pp_file_mode = pc_file_mode c, pp_file_sha256 = pc_file_sha256 c, pp_chunk_index = pc_chunk_index c,
     pp_raw_size = word_of_nat (length (pc_raw c)), pp_compressed_size = word_of_nat (length (pc_compressed c)),
     pp_compressed = pc_compressed c\<rparr>"
proof -
  let ?h = "''DPC_PUT_V1'' @ concat (map field_line (put_fields session_id c))"
  let ?kv = "foldl (\<lambda>m kv. m(fst kv \<mapsto> snd kv)) Map.empty (put_fields session_id c)"
  note tok = put_fields_tokens [OF assms]
  have head: "token ''DPC_PUT_V1''" by (simp add: token_def isspace_def char_code_def)
  have payload: "makePutPayload session_id c = bytes_of_string ?h @ 10 # 10 # pc_compressed c"
    unfolding makePutPayload_def put_header_fields bytes_append by (simp add: bytes_of_string_def)
  have "find_separator (makePutPayload session_id c) = Some (length ?h)"
    unfolding payload bytes_append append_assoc find_separator_free [OF token_free [OF head]] find_separator_fields [OF tok]
    by simp
  moreover have "take (length ?h) (makePutPayload session_id c) = bytes_of_string ?h"
    and "drop (length ?h + 2) (makePutPayload session_id c) = pc_compressed c"
    unfolding payload by simp_all
  moreover have "parseTextFields ?h ''DPC_PUT_V1'' = Inr ?kv"
    using parseTextFields_text [OF head tok, of "[]"] by simp
  moreover have "?kv ''session_hex'' = Some (hexEncodeString session_id)"
      "?kv ''relative_path_hex'' = Some (hexEncodeString (pc_relative_path c))"
      "?kv ''file_size'' = Some (dec_word (pc_file_size c))" "?kv ''file_mode'' = Some (dec_word (pc_file_mode c))"
      "?kv ''file_sha256'' = Some (pc_file_sha256 c)" "?kv ''chunk_index'' = Some (dec_word (pc_chunk_index c))"
      "?kv ''raw_size'' = Some (dec (length (pc_raw c)))" "?kv ''compressed_size'' = Some (dec (length (pc_compressed c)))"
    by (simp_all add: put_fields_def)
  moreover have "stoull (dec_word w) = Inr w" for w :: u64
    using stoull_dec [of "unat w"] unsigned_less [of w, where ?'a = nat] by simp
  moreover have "stoull (dec_word (pc_file_mode c)) = Inr (ucast (pc_file_mode c))"
    using stoull_dec [of "unat (pc_file_mode c)"] unsigned_less [of "pc_file_mode c", where ?'a = nat]
    by simp
  moreover have "stoull (dec (length (pc_raw c))) = Inr (word_of_nat (length (pc_raw c)))"
      "stoull (dec (length (pc_compressed c))) = Inr (word_of_nat (length (pc_compressed c)))"
    using assms by (simp_all add: sendable_def stoull_dec)
  moreover have "ucast (ucast (pc_file_mode c) :: u64) = pc_file_mode c" by (rule mode_through_u64)
  ultimately show ?thesis
    by (simp add: parsePutPayload_def field_def parseU64_def str_hex.decode_enc Let_def)
qed

section \<open>The client reads what the server answers\<close>

abbreviation status_lines :: "(u64 \<times> string) list \<Rightarrow> string" where
  "status_lines m \<equiv> concat (map (\<lambda>(i, sha). dec_word i @ '' '' @ sha @ [nl]) m)"

lemma status_loop_text:
  assumes "list_all (\<lambda>x. token (snd x)) m"
  shows "status_loop (nl # status_lines m, False) index sha out = foldl (\<lambda>m x. m(fst x \<mapsto> snd x)) out m"
  using assms
proof (induction m arbitrary: index sha out)
  case Nil
  then show ?case
    by (subst status_loop.simps) (simp add: extract_word_def extract_string_def skipws_def sign_of_def Let_def)
next
  case (Cons x m)
  obtain i s where x: "x = (i, s)" by (rule prod.exhaust)
  let ?r = "nl # status_lines m"
  have s: "token s" using Cons.prems by (simp add: x)
  have word: "extract_word (nl # dec_word i @ sp # s @ ?r, False) index = (i, (sp # s @ ?r, False))"
    by (rule extract_word_dec_word(2)) simp_all
  have str: "extract_string (sp # s @ ?r, False) sha = (s, (?r, False))"
    by (rule extract_string_token(2) [OF s]) simp_all
  have whole: "nl # status_lines (x # m) = nl # dec_word i @ sp # s @ ?r" by (simp add: x)
  have "status_loop (nl # dec_word i @ sp # s @ ?r, False) index sha out = status_loop (?r, False) i s (out(i \<mapsto> s))"
    by (subst status_loop.simps) (simp only: word str Let_def prod.case failed_Pair if_False)
  then show ?case
    using Cons.IH [of i s "out(i \<mapsto> s)"] Cons.prems unfolding whole by (simp add: x del: fun_upd_apply)
qed

lemma foldl_map_of:
  "distinct (map fst m) \<Longrightarrow> foldl (\<lambda>m x. m(fst x \<mapsto> snd x)) Map.empty m = map_of m"
proof (induction m rule: rev_induct)
  case (snoc x m)
  then have "map_of m (fst x) = None" by (simp add: map_of_eq_None_iff)
  with snoc show ?case by (cases x) (auto simp: map_add_def fun_eq_iff split: option.splits)
qed simp

abbreviation status_answer :: "u64 \<Rightarrow> (u64 \<times> string) list \<Rightarrow> packet" where
  "status_answer h m \<equiv> \<lparr>pk_type = SessionStatus, pk_session = h, pk_index = 0, pk_sha = replicate 32 0,
     pk_payload = bytes_of_string (status_text m)\<rparr>"

lemma parse_status:
  assumes "list_all (\<lambda>x. token (snd x)) m" and "distinct (map fst m)"
  shows "parseStatus (status_answer h m) = Inr (map_of m)"
proof -
  have head: "token ''DPC_SESSION_STATUS_V1''" by (simp add: token_def isspace_def char_code_def)
  have "status_text m = ''DPC_SESSION_STATUS_V1'' @ nl # status_lines m" by (simp add: status_text_def)
  then have "extract_string (istringstream (status_text m)) [] = (''DPC_SESSION_STATUS_V1'', (nl # status_lines m, False))"
    using extract_string_token(1) [OF head, of "nl # status_lines m"] by (simp add: istringstream_def)
  then show ?thesis
    using status_loop_text [OF assms(1)] foldl_map_of [OF assms(2)]
    by (simp add: parseStatus_def requireNotError_def payloadString_def del: fun_upd_apply)
qed

lemma index_status:
  assumes "index_file repo sid ls d"
  shows "\<exists>m. received d repo sid = Inr m
    \<and> parseStatus (status_answer h m) = Inr (foldl (\<lambda>m r. m(rc_global_index r \<mapsto> rc_sha256 r)) Map.empty (chunks_of ls))"
proof -
  obtain m where m: "received d repo sid = Inr m" "sorted_wrt (<) (map fst m)"
    and look: "map_of m = foldl (\<lambda>m r. m(rc_global_index r \<mapsto> rc_sha256 r)) Map.empty (chunks_of ls)"
    using received_index [OF assms] by blast
  have dist: "distinct (map fst m)" using m(2) by (rule index_order.ordered_keys_distinct)
  have from_records: "foldl (\<lambda>m r. m(rc_global_index r \<mapsto> rc_sha256 r)) Map.empty rs i = Some s \<Longrightarrow> s \<in> rc_sha256 ` set rs"
    for rs i s by (induction rs rule: rev_induct) (auto split: if_splits)
  have "snd x \<in> rc_sha256 ` set (chunks_of ls)" if "x \<in> set m" for x
  proof -
    have "map_of m (fst x) = Some (snd x)" using that by (intro map_of_is_SomeI [OF dist]) simp
    then show ?thesis unfolding look by (rule from_records)
  qed
  then have "list_all (\<lambda>x. token (snd x)) m"
    using assms by (fastforce simp: list_all_iff index_file_def wf_received_def)
  then show ?thesis using m(1) parse_status [OF _ dist] look by simp
qed

section \<open>What the client puts on the connection\<close>

definition on_wire :: "world \<Rightarrow> world \<Rightarrow> packet list \<Rightarrow> bool" where
  "on_wire w w' ps \<longleftrightarrow> (\<exists>es. rmap encode ps = Inr es \<and> sock_out w' = sock_out w @ concat es)"

lemma on_wire_none: "sock_out w' = sock_out w \<Longrightarrow> on_wire w w' []"
  by (simp add: on_wire_def)

lemma on_wire_append: "on_wire w w1 ps \<Longrightarrow> on_wire w1 w2 qs \<Longrightarrow> on_wire w w2 (ps @ qs)"
  unfolding on_wire_def rmap_Inr_iff by (metis append.assoc concat_append list_all2_appendI)

lemma readPacket_writes_nothing: "readPacket w = (r, w') \<Longrightarrow> sock_out w' = sock_out w"
proof -
  assume run: "readPacket w = (r, w')"
  have ex: "keeps (\<lambda>w'. sock_out w' = sock_out w) (readExact n)" for n
    by (simp add: keeps_def readExact_def split: prod.splits)
  have "keeps (\<lambda>w'. sock_out w' = sock_out w) readPacket"
    unfolding readPacket_def Let_def by (intro keeps_intro ex)
  from keepsD_eq [OF this refl run] show ?thesis .
qed

text \<open>What was written and what was read, both in frames.\<close>

definition exchanged :: "world \<Rightarrow> world \<Rightarrow> packet list \<Rightarrow> packet list \<Rightarrow> bool" where
  "exchanged w w' ps qs \<longleftrightarrow> on_wire w w' ps \<and> (\<exists>es. rmap encode qs = Inr es \<and> sock_in w = concat es @ sock_in w')"

lemma exchanged_none: "exchanged w w [] []"
  by (simp add: exchanged_def on_wire_none)

lemma exchanged_append:
  assumes "exchanged w w1 ps qs" and "exchanged w1 w2 ps' qs'"
  shows "exchanged w w2 (ps @ ps') (qs @ qs')"
proof -
  obtain es es' where "rmap encode qs = Inr es" "sock_in w = concat es @ sock_in w1"
      "rmap encode qs' = Inr es'" "sock_in w1 = concat es' @ sock_in w2"
    using assms unfolding exchanged_def by blast
  then have "rmap encode (qs @ qs') = Inr (es @ es') \<and> sock_in w = concat (es @ es') @ sock_in w2"
    unfolding rmap_Inr_iff by (simp add: list_all2_appendI)
  then show ?thesis using assms on_wire_append unfolding exchanged_def by blast
qed

lemma writePacket_exchanged: "writePacket p w = (Inr u, w') \<Longrightarrow> exchanged w w' [p] []"
  by (auto simp: writePacket_def sock_writeAll_def on_wire_def exchanged_def res_simps split: prod.splits dest: write_run_ok)

lemma readPacket_exchanged: "readPacket w = (Inr p, w') \<Longrightarrow> exchanged w w' [] [p]"
  using readPacket_frame [of w p w'] on_wire_none [OF readPacket_writes_nothing] by (auto simp: exchanged_def res_simps)

lemma exchange_exchanged:
  assumes "exchange p w = (Inr answer, w')"
  shows "exchanged w w' [p] [answer]"
proof -
  obtain w1 where "writePacket p w = (Inr (), w1)" "readPacket w1 = (Inr answer, w')"
    using assms by (auto simp: exchange_def res_simps)
  then show ?thesis using exchanged_append [OF writePacket_exchanged readPacket_exchanged] by fastforce
qed

lemma send_chunks_run:
  assumes "send_chunks sid known x s cs w = (Inr stop, w')" and "x = 0 \<or> s < x"
  shows "\<exists>ps acks. rmap (put_packet sid) (take (if x = 0 then length cs else x - s) (filter (\<lambda>c. \<not> recorded known c) cs)) = Inr ps
    \<and> exchanged w w' ps acks \<and> length acks = length ps \<and> list_all (\<lambda>ack. pk_type ack = PutChunkAck) acks
    \<and> (stop \<longleftrightarrow> x \<noteq> 0 \<and> x - s \<le> length (filter (\<lambda>c. \<not> recorded known c) cs))"
  using assms
proof (induction sid known x s cs arbitrary: w rule: send_chunks.induct)
  case (1 sid known x s)
  then show ?case by (auto intro: exchanged_none)
next
  case (2 sid known x s c cs)
  let ?todo = "filter (\<lambda>c. \<not> recorded known c) cs"
  show ?case
  proof (cases "recorded known c")
    case True
    have "take (Suc (length cs)) ?todo = take (length cs) ?todo" by (simp add: le_SucI)
    then show ?thesis using "2.IH"(1) [OF True, of w] "2.prems" True by (auto split: if_splits)
  next
    case False
    obtain p ack w1 where p: "put_packet sid c = Inr p" and ex: "exchange p w = (Inr ack, w1)"
      and rest: "(if pk_type ack \<noteq> PutChunkAck then io_throw (DpcError ''expected PUT_CHUNK_ACK packet'')
        else if x > 0 \<and> s + 1 \<ge> x then io_return True else send_chunks sid known x (s + 1) cs) w1 = (Inr stop, w')"
      using "2.prems"(1) False by (auto simp: res_simps)
    have ack: "\<not> pk_type ack \<noteq> PutChunkAck" using rest by (auto split: if_splits)
    note one = exchange_exchanged [OF ex]
    show ?thesis
    proof (cases "x > 0 \<and> s + 1 \<ge> x")
      case stop: True
      then have "x - s = 1" using "2.prems"(2) by auto
      then show ?thesis using rest ack stop one p False by (intro exI [of _ "[p]"] exI [of _ "[ack]"]) auto
    next
      case go: False
      have "x = 0 \<or> s + 1 < x" using "2.prems"(2) go by auto
      then obtain ps acks where ps: "rmap (put_packet sid) (take (if x = 0 then length cs else x - (s + 1)) ?todo) = Inr ps"
          "exchanged w1 w' ps acks" "length acks = length ps" "list_all (\<lambda>ack. pk_type ack = PutChunkAck) acks"
          "stop \<longleftrightarrow> x \<noteq> 0 \<and> x - (s + 1) \<le> length ?todo"
        using "2.IH"(2) [OF False ack go, of w1] rest ack go by (auto split: if_splits)
      have "x \<noteq> 0 \<Longrightarrow> x - s = Suc (x - (s + 1))" using "2.prems"(2) go by auto
      then have "rmap (put_packet sid) (take (if x = 0 then length (c # cs) else x - s) (c # ?todo)) = Inr (p # ps)"
        and "(x - s \<le> length (c # ?todo)) = (x - (s + 1) \<le> length ?todo) \<or> x = 0"
        using p ps(1) by (auto split: if_splits)
      then show ?thesis using ps(3-5) exchanged_append [OF one ps(2)] ack False
        by (intro exI [of _ "p # ps"] exI [of _ "ack # acks"]) auto
    qed
  qed
qed

lemma keeps_send_chunks: "keeps (on_disk D) (send_chunks sid known x s cs)"
  by (induction cs arbitrary: s) (auto simp: exchange_def intro!: keeps_intro)

lemma keeps_upload: "keeps (on_disk D) (upload T source connected sid x)"
  unfolding upload_def exchange_def by (intro keeps_intro keeps_send_chunks)

section \<open>Properties\<close>

text \<open>C38: the server reads every PUT_CHUNK as the client wrote it. For a session and path with a name, a
  file hash without blanks and sizes of the machine, \<open>parsePutPayload\<close> gives back every field and
  the compressed bytes, whatever these are, two newlines among them included.\<close>

theorem put_payload_round_trip:
  assumes "sendable session_id c"
  shows "parsePutPayload (makePutPayload session_id c) = Inr
    \<lparr>pp_session_id = session_id, pp_relative_path = pc_relative_path c, pp_file_size = pc_file_size c,
     pp_file_mode = pc_file_mode c, pp_file_sha256 = pc_file_sha256 c, pp_chunk_index = pc_chunk_index c,
     pp_raw_size = word_of_nat (length (pc_raw c)), pp_compressed_size = word_of_nat (length (pc_compressed c)),
     pp_compressed = pc_compressed c\<rparr>"
  by (rule parse_put [OF assms])

definition sample_chunk :: prepared_chunk where
  "sample_chunk = \<lparr>pc_global_index = 0, pc_relative_path = ''f'', pc_file_size = 3, pc_file_mode = 0x1a4,
     pc_file_sha256 = ''ab'', pc_chunk_index = 0, pc_chunk_sha256 = ''cd'', pc_raw = [10, 10, 7],
     pc_compressed = [10, 10, 7]\<rparr>"

lemma sample_chunk_sendable: "sendable ''s'' sample_chunk"
  by (simp add: sendable_def sample_chunk_def token_def isspace_def char_code_def)

theorem put_payload_round_trip_witness:
  "parsePutPayload (makePutPayload ''s'' sample_chunk) = Inr
    \<lparr>pp_session_id = ''s'', pp_relative_path = ''f'', pp_file_size = 3, pp_file_mode = 0x1a4,
     pp_file_sha256 = ''ab'', pp_chunk_index = 0, pp_raw_size = 3, pp_compressed_size = 3,
     pp_compressed = [10, 10, 7]\<rparr>"
  using put_payload_round_trip [OF sample_chunk_sendable] by (simp add: sample_chunk_def)

text \<open>C39: the client learns exactly what the server has. From an index of well-formed lines the server
  answers a QUERY_SESSION with a text that the client reads back as the map from every recorded
  index to the hash of its last record.\<close>

theorem status_round_trip:
  assumes "index_file repo sid ls d"
  shows "\<exists>m. received d repo sid = Inr m
    \<and> parseStatus \<lparr>pk_type = SessionStatus, pk_session = h, pk_index = 0, pk_sha = replicate 32 0,
                   pk_payload = bytes_of_string (status_text m)\<rparr>
      = Inr (foldl (\<lambda>m r. m(rc_global_index r \<mapsto> rc_sha256 r)) Map.empty (chunks_of ls))"
  by (rule index_status [OF assms])

theorem status_round_trip_witness:
  "\<exists>m. received sample_index [''r''] ''s'' = Inr m
    \<and> parseStatus \<lparr>pk_type = SessionStatus, pk_session = 9, pk_index = 0, pk_sha = replicate 32 0,
                   pk_payload = bytes_of_string (status_text m)\<rparr> = Inr [0 \<mapsto> ''ab'']"
  using status_round_trip [OF sample_index_ok(1), of 9] by (simp add: sample_record_def)

text \<open>C40: an upload resumes where the last one stopped. Whatever comes from the server, the client leaves its
  disk alone. When \<open>upload\<close> returned, what it has read from the connection is, frame by frame, the answer to
  its HELLO, the answer to its QUERY_SESSION, an acknowledgement for each chunk and, if it committed, the one
  of the commit; and what it has written is a HELLO, a QUERY_SESSION, a PUT_CHUNK for each chunk of the source
  that the second answer does not record with its hash, in order, and a COMMIT_SESSION for all chunks, whose
  acknowledgement it prints. When it was asked to stop after some number of chunks and there are as many, it
  has sent just those, and the exit code is 75.\<close>

theorem upload_sends_missing:
  "case upload T source connected sid x w of
     (Inl _, w') \<Rightarrow> disk w' = disk w
   | (Inr (code, shown), w') \<Rightarrow> disk w' = disk w \<and> (\<exists>cs hello answer known ps acks.
       prepareChunks T (disk w) source = Inr cs \<and> parseStatus answer = Inr known
       \<and> length acks = length ps \<and> list_all (\<lambda>ack. pk_type ack = PutChunkAck) acks
       \<and> (let todo = filter (\<lambda>c. known (pc_global_index c) \<noteq> Some (pc_chunk_sha256 c)) cs;
              n = (if x = 0 then length todo else x);
              sent = [client_packet Hello sid (''DPC_CLIENT_V1'' @ [nl]), client_packet QuerySession sid (query_text sid)] @ ps;
              got = [hello, answer] @ acks in
          rmap (put_packet sid) (take n todo) = Inr ps
          \<and> (if x \<noteq> 0 \<and> x \<le> length todo then code = 75 \<and> exchanged w w' sent got
             else code = 0 \<and> (\<exists>ack. pk_type ack = CommitAck \<and> shown = said (payloadString ack)
               \<and> exchanged w w' (sent @ [client_packet CommitSession sid (commit_text sid (length cs))]) (got @ [ack])))))"
proof (cases "upload T source connected sid x w")
  case (Pair r w')
  have kp: "keeps (on_disk (\<lambda>d. d = disk w)) (upload T source connected sid x)" by (rule keeps_upload)
  have same: "disk w' = disk w" using keepsD_eq [OF kp refl Pair] .
  show ?thesis
  proof (cases r)
    case (Inr a)
    obtain cs w1 w2 w3 answer known stop w4 hello where cs: "prepareChunks T (disk w) source = Inr cs"
      and hello: "exchange (client_packet Hello sid (''DPC_CLIENT_V1'' @ [nl])) w = (Inr hello, w1)"
      and query: "writePacket (client_packet QuerySession sid (query_text sid)) w1 = (Inr (), w2)"
      and ans: "readPacket w2 = (Inr answer, w3)" "parseStatus answer = Inr known"
      and send: "send_chunks sid known x 0 cs w3 = (Inr stop, w4)"
      and last: "(if stop then io_return (75, complained (''client exiting after requested chunk count'' @ [nl])) else
       io_bind (exchange (client_packet CommitSession sid (commit_text sid (length cs)))) (\<lambda>ack.
       if pk_type ack \<noteq> CommitAck then io_throw (DpcError ''expected COMMIT_ACK packet'')
       else io_return (0, said (payloadString ack)))) w4 = (Inr a, w')"
      using Pair Inr by (auto simp: upload_def io_seq_Inr io_bind_Inr)
    let ?todo = "filter (\<lambda>c. \<not> recorded known c) cs"
    obtain ps acks where ps: "rmap (put_packet sid) (take (if x = 0 then length cs else x) ?todo) = Inr ps"
        "exchanged w3 w4 ps acks" "length acks = length ps" "list_all (\<lambda>ack. pk_type ack = PutChunkAck) acks"
      and stop: "stop \<longleftrightarrow> x \<noteq> 0 \<and> x \<le> length ?todo"
      using send_chunks_run [OF send] unfolding diff_zero by blast
    have "take (if x = 0 then length cs else x) ?todo = take (if x = 0 then length ?todo else x) ?todo" by simp
    note n = ps(1) [unfolded this]
    let ?sent = "[client_packet Hello sid (''DPC_CLIENT_V1'' @ [nl]), client_packet QuerySession sid (query_text sid)] @ ps"
    have up: "exchanged w w4 ?sent ([hello, answer] @ acks)"
      using exchanged_append [OF exchange_exchanged [OF hello] exchanged_append [OF writePacket_exchanged [OF query]
        exchanged_append [OF readPacket_exchanged [OF ans(1)] ps(2)]]] by simp
    have "if stop then fst a = 75 \<and> exchanged w w' ?sent ([hello, answer] @ acks)
      else fst a = 0 \<and> (\<exists>ack. pk_type ack = CommitAck \<and> snd a = said (payloadString ack)
        \<and> exchanged w w' (?sent @ [client_packet CommitSession sid (commit_text sid (length cs))]) ([hello, answer] @ acks @ [ack]))"
      using last up exchanged_append [OF up exchange_exchanged] by (auto simp: res_simps split: if_splits)
    note sent = this [unfolded stop recorded_def] n [unfolded recorded_def]
    obtain code shown where a: "a = (code, shown)" by fastforce
    show ?thesis
      unfolding Pair Inr a sum.case prod.case Let_def
      by (intro conjI same exI [of _ cs] exI [of _ hello] exI [of _ answer] exI [of _ known] exI [of _ ps] exI [of _ acks]
          cs ans(2) ps(3,4)) (use sent in \<open>simp_all add: a del: append_Cons split: if_splits\<close>)
  qed (use Pair same in simp)
qed

section \<open>The client learns of a failure\<close>

lemma sendText_sent:
  assumes "list_all gentle (script w)" and "length x \<le> kMaxPayloadSize"
  shows "\<exists>e w'. encode \<lparr>pk_type = t, pk_session = h, pk_index = 0, pk_sha = replicate 32 0, pk_payload = bytes_of_string x\<rparr> = Inr e
    \<and> sendText t h x w = (Inr (), w') \<and> disk w' = disk w \<and> sock_in w' = sock_in w \<and> sock_out w' = sock_out w @ e"
proof -
  obtain e where e: "encode \<lparr>pk_type = t, pk_session = h, pk_index = 0, pk_sha = replicate 32 0,
      pk_payload = bytes_of_string x\<rparr> = Inr e"
    using assms(2) by (simp add: encode_eq bytes_of_string_def)
  then show ?thesis
    using write_run_returns [OF assms(1), of e]
    by (auto simp: sendText_def writePacket_def io_bind_def io_lift_def sock_writeAll_def)
qed

text \<open>An exception of the program's own class ends the connection; the peer is told.\<close>

lemma failure_answered:
  assumes "\<not> stop k" and "io_bind readPacket (handlePacket T repo) w = (Inl x, w1)" and "is_dpc_error x"
    and "what x \<noteq> ''socket closed''" and "length (what x) < kMaxPayloadSize" and "list_all gentle (script w1)"
  shows "\<exists>e w'. encode \<lparr>pk_type = ErrorPacket, pk_session = 0, pk_index = 0, pk_sha = replicate 32 0,
      pk_payload = bytes_of_string (what x @ [nl])\<rparr> = Inr e
    \<and> handleConnection T repo stop k w = (Inr (), w') \<and> disk w' = disk w1 \<and> sock_in w' = sock_in w1
    \<and> sock_out w' = sock_out w1 @ e"
proof -
  obtain e w' where e: "encode \<lparr>pk_type = ErrorPacket, pk_session = 0, pk_index = 0, pk_sha = replicate 32 0,
      pk_payload = bytes_of_string (what x @ [nl])\<rparr> = Inr e"
    and sent: "sendText ErrorPacket 0 (what x @ [nl]) w1 = (Inr (), w')"
    and rest: "disk w' = disk w1" "sock_in w' = sock_in w1" "sock_out w' = sock_out w1 @ e"
    using sendText_sent [OF assms(6), of "what x @ [nl]" ErrorPacket 0] assms(5) by auto
  have "handleConnection T repo stop k w = (Inr (), w')"
    using assms(1-4) sent by (subst handleConnection.simps) (simp add: sendError_def io_catch_def)
  then show ?thesis using e rest by blast
qed

text \<open>The client throws what an error packet says.\<close>

lemma exchange_throws:
  assumes "encode p = Inr e" and "encode \<lparr>pk_type = ErrorPacket, pk_session = h, pk_index = 0, pk_sha = replicate 32 0,
      pk_payload = bytes_of_string m\<rparr> = Inr f"
    and "sock_in c = f @ rest" and "list_all gentle (script c)"
  shows "\<exists>c'. exchange p c = (Inl (DpcError (''server error: '' @ m)), c') \<and> sock_out c' = sock_out c @ e \<and> disk c' = disk c"
proof -
  let ?q = "\<lparr>pk_type = ErrorPacket, pk_session = h, pk_index = 0, pk_sha = replicate 32 0, pk_payload = bytes_of_string m\<rparr>"
  obtain c1 where c1: "writePacket p c = (Inr (), c1)" "sock_in c1 = f @ rest" "sock_out c1 = sock_out c @ e" "disk c1 = disk c"
      "list_all gentle (script c1)"
    using write_run_returns [OF assms(4), of e] assms(1,3)
    by (auto simp: writePacket_def io_bind_def io_lift_def sock_writeAll_def)
  have "wf_packet ?q" by (simp add: wf_packet_def)
  then obtain c2 where c2: "readPacket c1 = (Inr ?q, c2)" "disk c2 = disk c1"
    using readPacket_returns [OF _ assms(2) c1(2,5)] by blast
  have "exchange p c = (Inl (DpcError (''server error: '' @ m)), c2)"
    using c1(1) c2(1) by (simp add: exchange_def io_seq_def io_bind_def io_lift_def requireNotError_def payloadString_def)
  then show ?thesis using c1(3,4) c2(2) readPacket_writes_nothing [OF c2(1)] by auto
qed


lemma sample_decompress: "decompress toy [10, 10, 7] 0 = Inr [10, 10, 7]" "decompress toy [10, 10, 7] 3 = Inr [10, 10, 7]"
proof -
  have "compress toy [10, 10, 7] 3 = Inr [10, 10, 7]" by (simp add: compress_def toy_def checkZstd_def)
  from decompress_compress [OF toy_ok(1) _ this]
  show "decompress toy [10, 10, 7] 0 = Inr [10, 10, 7]" "decompress toy [10, 10, 7] 3 = Inr [10, 10, 7]" by (simp_all add: numeral_3_eq_3)
qed

text \<open>The sample chunk under another hash.\<close>

definition damaged_put :: packet where
  "damaged_put = \<lparr>pk_type = PutChunk, pk_session = 1, pk_index = 0, pk_sha = replicate 32 9,
     pk_payload = makePutPayload ''s'' sample_chunk\<rparr>"


end
