(* ===== verification/DPC_Upload.thy ===== *)
theory DPC_Upload
  imports DPC_Client
begin

text \<open>
  A whole upload (src/network/TransferSession.cpp, BackupClient.cpp, BackupServer.cpp, SessionIndex.cpp
  together): the server handles the PUT_CHUNK packets a client makes of its source, in one go or
  resumed, and then its COMMIT_SESSION. What is committed describes the source.
\<close>

section \<open>The chunks of a source\<close>

definition prepared :: "third_party \<Rightarrow> prepared_chunk \<Rightarrow> bool" where
  "prepared T c \<longleftrightarrow> sha256Hex T (pc_raw c) = Inr (pc_chunk_sha256 c) \<and> compress T (pc_raw c) 3 = Inr (pc_compressed c)"

definition file_segment :: "third_party \<Rightarrow> fs \<Rightarrow> scanned_file \<Rightarrow> prepared_chunk list \<Rightarrow> bool" where
  "file_segment T d s seg \<longleftrightarrow>
     (\<exists>data md. node_at d (walk (sf_absolute s)) = Some (File data md)
        \<and> map pc_raw seg = map ch_data (fixed_chunkBytes kDefaultChunkSize data)
        \<and> map pc_chunk_index seg = map ch_index (fixed_chunkBytes kDefaultChunkSize data)
        \<and> (\<forall>c \<in> set seg. prepared T c \<and> pc_relative_path c = join_path (sf_relative s)
             \<and> pc_file_size c = word_of_nat (length data) \<and> pc_file_mode c = md AND 0x1ff
             \<and> sha256Hex T data = Inr (pc_file_sha256 c)))"

lemma prepare_file_chunks_run:
  assumes "prepare_file_chunks T rel sz md fsha chs (g, out) = Inr (g', out')"
  shows "\<exists>seg. out' = out @ seg \<and> g' = g + word_of_nat (length seg)
    \<and> map pc_global_index seg = map (\<lambda>i. g + word_of_nat i) [0 ..< length seg]
    \<and> map pc_raw seg = map ch_data chs \<and> map pc_chunk_index seg = map ch_index chs
    \<and> (\<forall>c \<in> set seg. prepared T c \<and> pc_relative_path c = rel \<and> pc_file_size c = sz \<and> pc_file_mode c = md
         \<and> pc_file_sha256 c = fsha)"
  using assms
proof (induction chs arbitrary: g out)
  case (Cons ch chs)
  obtain sha z where sha: "sha256Hex T (ch_data ch) = Inr sha" "compress T (ch_data ch) 3 = Inr z"
    using Cons.prems by (auto simp: res_simps)
  let ?c = "\<lparr>pc_global_index = g, pc_relative_path = rel, pc_file_size = sz, pc_file_mode = md,
      pc_file_sha256 = fsha, pc_chunk_index = ch_index ch, pc_chunk_sha256 = sha,
      pc_raw = ch_data ch, pc_compressed = z\<rparr>"
  obtain seg where seg: "out' = (out @ [?c]) @ seg" "g' = g + 1 + word_of_nat (length seg)"
      "map pc_global_index seg = map (\<lambda>i. g + 1 + word_of_nat i) [0 ..< length seg]"
      "map pc_raw seg = map ch_data chs" "map pc_chunk_index seg = map ch_index chs"
      "\<forall>c \<in> set seg. prepared T c \<and> pc_relative_path c = rel \<and> pc_file_size c = sz \<and> pc_file_mode c = md
         \<and> pc_file_sha256 c = fsha"
    using Cons.IH [of "g + 1" "out @ [?c]"] Cons.prems sha by auto
  have "[0 ..< length (?c # seg)] = 0 # map Suc [0 ..< length seg]"
    by (simp add: upt_conv_Cons map_Suc_upt del: upt_Suc)
  then have "map pc_global_index (?c # seg) = map (\<lambda>i. g + word_of_nat i) [0 ..< length (?c # seg)]"
    using seg(3) by (simp add: o_def add.assoc)
  then show ?case
    using seg sha by (intro exI [of _ "?c # seg"]) (simp add: prepared_def add.assoc)
qed simp

lemma prepare_files_run:
  assumes "prepare_files T d ss (g, out) = Inr (g', out')"
  shows "\<exists>segs. out' = out @ concat segs \<and> list_all2 (file_segment T d) ss segs
    \<and> map pc_global_index (concat segs) = map (\<lambda>i. g + word_of_nat i) [0 ..< length (concat segs)]"
  using assms
proof (induction ss arbitrary: g out)
  case (Cons s ss)
  obtain fsha sz md data st1 where f: "sha256FileAt T d (sf_absolute s) = Inr fsha" "fileSize d (sf_absolute s) = Inr sz"
      "fileMode d (sf_absolute s) = Inr md" "readFile d (sf_absolute s) = Inr data"
    and one: "prepare_file_chunks T (join_path (sf_relative s)) sz md fsha
        (fixed_chunkBytes kDefaultChunkSize data) (g, out) = Inr st1"
    and rest: "prepare_files T d ss st1 = Inr (g', out')"
    using Cons.prems by (auto simp: res_simps)
  obtain g1 out1 where st1: "st1 = (g1, out1)" by (rule prod.exhaust)
  obtain m0 where node: "node_at d (walk (sf_absolute s)) = Some (File data m0)"
    using f(4) by (auto simp: res_simps)
  have attrs: "sz = word_of_nat (length data)" "md = m0 AND 0x1ff" "sha256Hex T data = Inr fsha"
    using f node by (simp_all add: fileSize_def fileMode_def sha256FileAt_def sha256File_eq)
  obtain seg where seg: "out1 = out @ seg" "g1 = g + word_of_nat (length seg)"
      "map pc_global_index seg = map (\<lambda>i. g + word_of_nat i) [0 ..< length seg]"
      "map pc_raw seg = map ch_data (fixed_chunkBytes kDefaultChunkSize data)"
      "map pc_chunk_index seg = map ch_index (fixed_chunkBytes kDefaultChunkSize data)"
      "\<forall>c \<in> set seg. prepared T c \<and> pc_relative_path c = join_path (sf_relative s) \<and> pc_file_size c = sz
         \<and> pc_file_mode c = md \<and> pc_file_sha256 c = fsha"
    using prepare_file_chunks_run [OF one [unfolded st1]] by blast
  obtain segs where segs: "out' = out1 @ concat segs" "list_all2 (file_segment T d) ss segs"
      "map pc_global_index (concat segs) = map (\<lambda>i. g1 + word_of_nat i) [0 ..< length (concat segs)]"
    using Cons.IH [OF rest [unfolded st1]] by blast
  have "file_segment T d s seg" using node attrs seg(4-6) by (auto simp: file_segment_def)
  moreover have "map pc_global_index (concat (seg # segs)) = map (\<lambda>i. g + word_of_nat i) [0 ..< length (concat (seg # segs))]"
  proof -
    have "[0 ..< length (concat (seg # segs))] = [0 ..< length seg] @ map (\<lambda>i. length seg + i) [0 ..< length (concat segs)]"
      using map_add_upt [of "length seg" "length (concat segs)"] upt_add_eq_append [of 0 "length seg" "length (concat segs)"]
      by (simp add: add.commute del: upt_Suc)
    then show ?thesis using seg(3) segs(3) by (simp add: o_def add.assoc seg(2))
  qed
  ultimately show ?case using segs(1,2) seg(1) by (intro exI [of _ "seg # segs"]) simp
qed simp

lemma prepareChunks_run:
  assumes "prepareChunks T d source = Inr cs"
  shows "\<exists>ss segs. scanRegularFiles d source = Inr ss \<and> cs = concat segs \<and> list_all2 (file_segment T d) ss segs
    \<and> map pc_global_index cs = map word_of_nat [0 ..< length cs]"
proof -
  obtain ss g where ss: "scanRegularFiles d source = Inr ss" "prepare_files T d ss (0, []) = Inr (g, cs)"
    using assms by (auto simp: prepareChunks_def res_simps)
  then show ?thesis using prepare_files_run [OF ss(2)] by auto
qed

section \<open>What the session holds\<close>

text \<open>The record of a chunk in the index, and the chunk in the store.\<close>

definition chunk_record :: "prepared_chunk \<Rightarrow> received_chunk \<Rightarrow> bool" where
  "chunk_record c r \<longleftrightarrow> rc_global_index r = pc_global_index c \<and> rc_sha256 r = pc_chunk_sha256 c
     \<and> rc_relative_path r = pc_relative_path c \<and> rc_file_size r = pc_file_size c
     \<and> rc_file_mode r = pc_file_mode c \<and> rc_file_sha256 r = pc_file_sha256 c
     \<and> rc_chunk_index r = pc_chunk_index c \<and> rc_raw_size r = word_of_nat (length (pc_raw c))
     \<and> rc_object_path r = join_path (object_names (pc_chunk_sha256 c))"

definition chunk_stored :: "third_party \<Rightarrow> fs \<Rightarrow> path \<Rightarrow> prepared_chunk \<Rightarrow> bool" where
  "chunk_stored T d repo c \<longleftrightarrow>
     (\<exists>x. readRaw T d repo (pc_chunk_sha256 c) (join_path (object_names (pc_chunk_sha256 c))) = Inr x
        \<and> same_hash T x (pc_raw c))"

text \<open>
  The index of the session records chunks of this source only, all of them in the store, and every
  index of \<open>I\<close>.
\<close>

definition session_holds :: "third_party \<Rightarrow> path \<Rightarrow> string \<Rightarrow> prepared_chunk list \<Rightarrow> fs \<Rightarrow> u64 set \<Rightarrow> bool" where
  "session_holds T repo sid cs d I \<longleftrightarrow>
     (\<exists>ls. index_file repo sid ls d \<and> I \<subseteq> rc_global_index ` set (chunks_of ls)
        \<and> (\<forall>r \<in> set (chunks_of ls). \<exists>c \<in> set cs. chunk_record c r \<and> chunk_stored T d repo c))"

lemma chunk_stored_kept:
  "kept (durable repo V) d d' \<Longrightarrow> chunk_stored T d repo c \<Longrightarrow> chunk_stored T d' repo c"
  unfolding chunk_stored_def by (blast intro: readRaw_kept kept_durable_objects)

lemma spares_handle_put [keeps_intro]: "keeps (spares repo V d0) (handle_put T repo p)"
  unfolding handle_put_def by (intro keeps_intro)

text \<open>A chunk the client can send and the machine can hold.\<close>

definition good_chunk :: "third_party \<Rightarrow> string \<Rightarrow> prepared_chunk \<Rightarrow> bool" where
  "good_chunk T sid c \<longleftrightarrow> prepared T c \<and> sendable sid c \<and> length (pc_raw c) < 2 ^ 62"

lemma stored_chunk:
  assumes "stored_ok T d repo (pc_chunk_sha256 c) (pc_compressed c) (word_of_nat (length (pc_raw c))) stored"
    and "sha256Hex T (pc_raw c) = Inr (pc_chunk_sha256 c)" and "decompress T (pc_compressed c) 0 = Inr (pc_raw c)"
  shows "chunk_stored T d repo c"
proof (cases "pr_inserted stored")
  case True
  then show ?thesis using assms by (auto simp: stored_ok_def chunk_stored_def readRaw_Inr same_hash_def)
next
  case False
  then obtain x where x: "readRaw T d repo (pc_chunk_sha256 c) (pr_path stored) = Inr x"
      "(word_of_nat (length x) :: u64) = word_of_nat (length (pc_raw c))"
    using assms(1) by (auto simp: stored_ok_def)
  then show ?thesis using assms(1,2) by (auto simp: stored_ok_def chunk_stored_def same_hash_def readRaw_Inr)
qed

lemma put_step:
  assumes T: "zstd_ok T" and c: "c \<in> set cs" "good_chunk T sid c" and p: "put_packet sid c = Inr p"
    and run: "handle_put T repo p w = (Inr u, w')" and old: "session_holds T repo sid cs (disk w) I"
  shows "session_holds T repo sid cs (disk w') (insert (pc_global_index c) I)"
proof -
  have prep: "sha256Hex T (pc_raw c) = Inr (pc_chunk_sha256 c)" "compress T (pc_raw c) 3 = Inr (pc_compressed c)"
    and snd: "sendable sid c" and len: "length (pc_raw c) < 2 ^ 62"
    using c(2) by (simp_all add: good_chunk_def prepared_def)
  have ix: "pk_index p = pc_global_index c" and pl: "pk_payload p = makePutPayload sid c"
    using p by (auto simp: put_packet_def res_simps)
  obtain put where put: "parsePutPayload (pk_payload p) = Inr put"
    and f: "pp_session_id put = sid" "pp_relative_path put = pc_relative_path c" "pp_file_size put = pc_file_size c"
      "pp_file_mode put = pc_file_mode c" "pp_file_sha256 put = pc_file_sha256 c" "pp_chunk_index put = pc_chunk_index c"
      "pp_raw_size put = word_of_nat (length (pc_raw c))" "pp_compressed put = pc_compressed c"
    using parse_put [OF snd] unfolding pl by simp
  have n: "unat (pp_raw_size put) = length (pc_raw c)" using len by (simp add: f unsigned_of_nat take_bit_nat_eq_self)
  obtain raw sha stored w1 w2 where raw: "decompress T (pp_compressed put) (unat (pp_raw_size put)) = Inr raw"
    and sha: "sha256Hex T raw = Inr sha"
    and st: "putCompressed T repo sha (pp_compressed put) (pp_raw_size put) w = (Inr stored, w1)"
    and ap: "appendChunk repo (pp_session_id put) (record_of p put sha stored) w1 = (Inr (), w2)"
    and sent: "sendText PutChunkAck (pk_session p) (''ok'' @ [nl]) w2 = (Inr u, w')"
    by (rule handle_put_run [OF run put])
  note dec = decompress_compress [OF T len prep(2)]
  have raw': "raw = pc_raw c" "sha = pc_chunk_sha256 c" using raw [unfolded n f(8)] sha prep(1) dec(2) by simp_all
  let ?r = "record_of p put sha stored"
  have ok: "stored_ok T (disk w1) repo sha (pc_compressed c) (word_of_nat (length (pc_raw c))) stored"
    using tripleD_Inr [OF putCompressed_triple [of repo "{}" "disk w"] _ st] by (simp add: f)
  have here: "chunk_stored T (disk w1) repo c"
    using stored_chunk [OF _ prep(1) dec(1)] ok by (simp add: raw')
  have rec: "chunk_record c ?r"
    using ok by (simp add: chunk_record_def record_of_def ix f raw' stored_ok_def)
  have wf: "wf_received ?r" using record_of_wf [OF put] ok by (simp add: stored_ok_def)
  have disk': "disk w' = disk w2" by (rule sendText_disk [OF sent])
  have calm0: "kept (durable repo {}) (disk w) (disk w')"
    using keepsD_eq [OF spares_handle_put [of repo "{}" "disk w"] _ run] by simp
  have calm1: "kept (durable repo {}) (disk w1) (disk w')"
    using keepsD_eq [OF spares_session(1) [of repo "{}" "disk w1"] _ ap] disk' by simp
  obtain ls where ls: "index_file repo sid ls (disk w)" "I \<subseteq> rc_global_index ` set (chunks_of ls)"
      "\<forall>r \<in> set (chunks_of ls). \<exists>c \<in> set cs. chunk_record c r \<and> chunk_stored T (disk w) repo c"
    using old by (auto simp: session_holds_def)
  have match: "\<forall>r \<in> set (chunks_of ls). \<exists>c \<in> set cs. chunk_record c r \<and> chunk_stored T (disk w') repo c"
    using ls(3) chunk_stored_kept [OF calm0] by blast
  have "index_file repo sid ls (disk w1)" by (rule index_kept [OF session_kept_put st ls(1)])
  from appendChunk_run [OF this wf ap [unfolded f(1)]] consider
      (new) "index_file repo sid (ls @ [ChunkLine ?r]) (disk w')"
    | (again) "index_file repo sid ls (disk w')" "pc_global_index c \<in> rc_global_index ` set (chunks_of ls)"
    using \<open>index_file repo sid ls (disk w1)\<close> rec unfolding disk' chunk_record_def by force
  then show ?thesis
  proof cases
    case new
    have "\<exists>c \<in> set cs. chunk_record c ?r \<and> chunk_stored T (disk w') repo c"
      using c(1) rec chunk_stored_kept [OF calm1 here] by blast
    then show ?thesis
      using new match ls(2) rec unfolding session_holds_def
      by (intro exI [of _ "ls @ [ChunkLine ?r]"]) (auto simp: chunks_of_append chunk_record_def)
  next
    case again
    then show ?thesis using match ls(2) unfolding session_holds_def by (intro exI [of _ ls]) auto
  qed
qed

text \<open>The server handles the packets of the chunks the client sends, one after the other.\<close>

definition handle_puts :: "third_party \<Rightarrow> path \<Rightarrow> string \<Rightarrow> prepared_chunk list \<Rightarrow> unit act" where
  "handle_puts T repo sid = io_foreach (\<lambda>c. io_bind (io_lift (put_packet sid c)) (handle_put T repo))"

lemma puts_run:
  assumes "zstd_ok T" and "set todo \<subseteq> set cs" and "\<forall>c \<in> set todo. good_chunk T sid c"
    and "handle_puts T repo sid todo w = (Inr u, w')" and "session_holds T repo sid cs (disk w) I"
  shows "session_holds T repo sid cs (disk w') (pc_global_index ` set todo \<union> I)"
  using assms(2-5)
proof (induction todo arbitrary: w I)
  case (Cons c todo)
  obtain p w1 where "put_packet sid c = Inr p" "handle_put T repo p w = (Inr (), w1)"
      and rest: "handle_puts T repo sid todo w1 = (Inr u, w')"
    using Cons.prems(3) by (auto simp: handle_puts_def res_simps)
  then have "session_holds T repo sid cs (disk w1) (insert (pc_global_index c) I)"
    using Cons.prems by (intro put_step [OF assms(1)]) auto
  from Cons.IH [OF _ _ rest this] show ?case using Cons.prems by simp
qed (simp add: handle_puts_def)

section \<open>The records in order\<close>

lemma strict_sorted_unique:
  fixes xs ys :: "u64 list"
  assumes "sorted_wrt (<) xs" and "sorted_wrt (<) ys" and "set xs = set ys"
  shows "xs = ys"
  using assms by (simp add: strict_sorted_equal)

lemma word_indices_sorted: "n \<le> 2 ^ 64 \<Longrightarrow> sorted_wrt (<) (map (word_of_nat :: nat \<Rightarrow> u64) [0 ..< n])"
  by (auto simp: sorted_wrt_map sorted_wrt_iff_nth_less word_less_nat_alt unsigned_of_nat take_bit_nat_eq_self)

lemma latest_member:
  "(i, r) \<in> set (foldl (\<lambda>m r. omap_set (<) (rc_global_index r) r m) [] rs) \<Longrightarrow> r \<in> set rs \<and> rc_global_index r = i"
  using index_order.ordered_keys_distinct [OF index_order.omap_fold_ordered [of "[]" rc_global_index "\<lambda>r. r" rs]]
    latest_map [of rs i r] by auto

lemma latest_indices:
  "set (map fst (foldl (\<lambda>m r. omap_set (<) (rc_global_index r) r m) [] rs)) = rc_global_index ` set rs"
  (is "set (map fst ?M) = _")
proof (rule set_eqI)
  fix i
  show "i \<in> set (map fst ?M) \<longleftrightarrow> i \<in> rc_global_index ` set rs"
    unfolding latest_present [symmetric] by (simp add: map_of_eq_None_iff)
qed

lemma latest_match:
  assumes ixs: "map pc_global_index cs = map word_of_nat [0 ..< length cs]" and n: "length cs < 2 ^ 64"
    and all: "set (map pc_global_index cs) \<subseteq> rc_global_index ` set rs"
    and rec: "\<forall>r \<in> set rs. \<exists>c \<in> set cs. chunk_record c r"
  shows "list_all2 chunk_record cs (latest_records rs)"
proof -
  let ?M = "foldl (\<lambda>m r. omap_set (<) (rc_global_index r) r m) [] rs"
  have ord: "sorted_wrt (<) (map fst ?M)"
    using index_order.omap_fold_ordered [of "[]" rc_global_index "\<lambda>r. r" rs] by simp
  have sorted: "sorted_wrt (<) (map pc_global_index cs)" unfolding ixs using n by (intro word_indices_sorted) simp
  have "rc_global_index ` set rs \<subseteq> set (map pc_global_index cs)"
  proof (rule image_subsetI)
    fix r
    assume "r \<in> set rs"
    then obtain c where "c \<in> set cs" "chunk_record c r" using rec by blast
    then show "rc_global_index r \<in> set (map pc_global_index cs)" by (simp add: chunk_record_def)
  qed
  then have keys: "map fst ?M = map pc_global_index cs"
    using all by (intro strict_sorted_unique [OF ord sorted]) (simp only: latest_indices subset_antisym)
  have dist: "distinct (map pc_global_index cs)" using sorted by (simp add: strict_sorted_iff)
  have len: "length ?M = length cs" using arg_cong [OF keys, of length] by simp
  have "chunk_record (cs ! k) (snd (?M ! k))" if k: "k < length cs" for k
  proof -
    have fst: "fst (?M ! k) = pc_global_index (cs ! k)" using arg_cong [OF keys, of "\<lambda>l. l ! k"] k len by simp
    have "?M ! k \<in> set ?M" using k len by (intro nth_mem) simp
    then have "(pc_global_index (cs ! k), snd (?M ! k)) \<in> set ?M" unfolding fst [symmetric] prod.collapse .
    note r = latest_member [OF this]
    obtain c where c: "c \<in> set cs" "chunk_record c (snd (?M ! k))" using r rec by blast
    obtain j where j: "j < length cs" "cs ! j = c" using c(1) unfolding in_set_conv_nth by blast
    then have "map pc_global_index cs ! j = map pc_global_index cs ! k" using k r c(2) j by (simp add: chunk_record_def)
    then have "j = k" using nth_eq_iff_index_eq [OF dist, of j k] j(1) k by simp
    then show ?thesis using j(2) c(2) by simp
  qed
  then show ?thesis using len by (simp add: latest_records_def list_all2_conv_all_nth)
qed

lemma list_all2_segments:
  "list_all2 P (concat xss) ys \<Longrightarrow> \<exists>yss. ys = concat yss \<and> list_all2 (list_all2 P) xss yss"
proof (induction xss arbitrary: ys)
  case (Cons xs xss)
  then obtain us vs where "ys = us @ vs" "list_all2 P xs us" "list_all2 P (concat xss) vs"
    by (auto simp: list_all2_append1)
  moreover obtain yss where "vs = concat yss" "list_all2 (list_all2 P) xss yss" using Cons.IH calculation(3) by blast
  ultimately show ?case by (intro exI [of _ "us # yss"]) simp
qed simp

lemma filter_segment:
  assumes "list_all2 (\<lambda>s R. \<forall>r \<in> set R. key r = f s) ss Rs" and "distinct (map f ss)" and "(s, R) \<in> set (zip ss Rs)"
  shows "filter (\<lambda>r. key r = f s) (concat Rs) = R"
  using assms
proof (induction ss Rs rule: list_all2_induct)
  case (Cons s' ss R' Rs)
  have other: "filter (\<lambda>r. key r = f t) (concat Rs) = []" if "f t \<notin> f ` set ss" for t
    using Cons.hyps(2) that
    by (induction ss Rs rule: list_all2_induct) (auto simp: filter_empty_conv)
  show ?case
  proof (cases "(s, R) = (s', R')")
    case True
    then show ?thesis using Cons.hyps Cons.prems other [of s'] by (auto simp: filter_id_conv)
  next
    case False
    then have sR: "(s, R) \<in> set (zip ss Rs)" using Cons.prems(2) by auto
    then have "s \<in> set ss" by (rule set_zip_leftD)
    then have "f s \<in> f ` set ss" by (rule imageI)
    then have "f s \<noteq> f s'" using Cons.prems(1) by auto
    then have "filter (\<lambda>r. key r = f s) R' = []" using Cons.hyps(1) by (auto simp: filter_empty_conv)
    then show ?thesis using Cons.IH Cons.prems(1) sR by simp
  qed
qed simp

section \<open>The manifest of the session\<close>

lemma chunk_indices_sorted:
  assumes "length data < 2 ^ 62"
  shows "sorted_wrt (<) (map ch_index (fixed_chunkBytes kDefaultChunkSize data))"
    and "length (fixed_chunkBytes kDefaultChunkSize data) < 2 ^ 64"
    and "fixed_chunkBytes kDefaultChunkSize data \<noteq> []"
proof -
  show n: "length (fixed_chunkBytes kDefaultChunkSize data) < 2 ^ 64"
    using chunk_count [of Fixed data] assms by (simp add: chunkBytes_mode_def)
  show "sorted_wrt (<) (map ch_index (fixed_chunkBytes kDefaultChunkSize data))"
    using mode_chunks.numbered [of Fixed data] n word_indices_sorted [of "length (fixed_chunkBytes kDefaultChunkSize data)"]
    by (simp add: chunkBytes_mode_def)
  show "fixed_chunkBytes kDefaultChunkSize data \<noteq> []"
    by (cases "data = []") (simp_all add: fixed_chunkBytes_def fixed_loop_Cons kDefaultChunkSize_def)
qed

text \<open>What the record of a chunk makes of it in a manifest.\<close>

lemma record_ref:
  assumes "chunk_record c r"
  shows "chunk_index (received_ref r) = pc_chunk_index c" and "chunk_sha256 (received_ref r) = pc_chunk_sha256 c"
    and "object_path (received_ref r) = join_path (object_names (pc_chunk_sha256 c))"
    and "raw_size (received_ref r) = word_of_nat (length (pc_raw c))"
  using assms by (simp_all add: received_ref_def chunk_record_def)

lemma records_wf:
  assumes "list_all2 chunk_record seg R" and "\<forall>c \<in> set seg. isSha256Hex (pc_chunk_sha256 c)"
  shows "list_all wf_chunk (map received_ref R)"
proof -
  have "wf_chunk (received_ref r)" if r: "r \<in> set R" for r
  proof -
    obtain c where c: "c \<in> set seg" "chunk_record c r" using list_all2_mem [OF assms(1) r] by blast
    then have hex: "isSha256Hex (pc_chunk_sha256 c)" using assms(2) by blast
    then have "safe_path (object_names (pc_chunk_sha256 c))"
      using object_names_plain by (intro safe_path_plain) (simp_all add: object_names_def)
    then have "safe_rel (join_path (object_names (pc_chunk_sha256 c)))"
      using safeRelativePath_join by (blast intro: safe_relI)
    then show ?thesis using record_ref [OF c(2)] hex by (simp add: wf_chunk_def)
  qed
  then show ?thesis by (simp add: list_all_iff)
qed

lemma records_stored:
  assumes "list_all2 chunk_record seg R" and "\<forall>c \<in> set seg. chunk_stored T d repo c"
  shows "stored_as T d repo (map received_ref R) (map pc_raw seg)"
  using assms
proof (induction rule: list_all2_induct)
  case Nil
  then show ?case by (simp add: stored_as_def pieces_def)
next
  case (Cons c seg r R)
  then obtain xs where xs: "pieces T d repo (map received_ref R) xs" "list_all2 (same_hash T) xs (map pc_raw seg)"
    by (auto simp: stored_as_def)
  obtain x where x: "readRaw T d repo (pc_chunk_sha256 c) (join_path (object_names (pc_chunk_sha256 c))) = Inr x"
      "same_hash T x (pc_raw c)"
    using Cons.prems(1) by (auto simp: chunk_stored_def)
  then have "pieces T d repo (map received_ref (r # R)) (x # xs)"
    using xs(1) record_ref [OF Cons.hyps(1)] by (simp add: pieces_def same_hash_def)
  then show ?case using x(2) xs(2) unfolding stored_as_def by (intro exI [of _ "x # xs"]) simp
qed

text \<open>The records of one file's chunks stand for that file.\<close>

lemma segment_file:
  assumes seg: "file_segment T d0 s seg" and R: "list_all2 chunk_record seg R"
    and st: "\<forall>c \<in> set seg. chunk_stored T d repo c"
    and short: "short_file d0 (walk (sf_absolute s))" and rel: "safe_path (sf_relative s)"
    and flt: "filter (\<lambda>r. rc_relative_path r = join_path (sf_relative s)) rs = R"
  shows "\<exists>f. group_file (join_path (sf_relative s)) rs = Some f \<and> describes T d0 d repo Fixed s (sorted_file f)"
proof -
  let ?chs = "\<lambda>data. fixed_chunkBytes kDefaultChunkSize data"
  obtain data md where node: "node_at d0 (walk (sf_absolute s)) = Some (File data md)"
    and raws: "map pc_raw seg = map ch_data (?chs data)" and ixs: "map pc_chunk_index seg = map ch_index (?chs data)"
    and each: "\<forall>c \<in> set seg. prepared T c \<and> pc_relative_path c = join_path (sf_relative s)
             \<and> pc_file_size c = word_of_nat (length data) \<and> pc_file_mode c = md AND 0x1ff
             \<and> sha256Hex T data = Inr (pc_file_sha256 c)"
    using seg by (auto simp: file_segment_def)
  note ch = chunk_indices_sorted [of data]
  have len: "length data < 2 ^ 62" using short node by (simp add: short_file_def)
  have n: "length seg = length (?chs data)" using arg_cong [OF raws, of length] by simp
  obtain c seg' where seg': "seg = c # seg'" using n ch(3) [OF len] by (cases seg) auto
  obtain r R' where R': "R = r # R'" "chunk_record c r" using R by (auto simp: seg' list_all2_Cons1)
  let ?f = "\<lparr>relative_path = join_path (sf_relative s), file_size = rc_file_size r, file_mode = rc_file_mode r,
                       file_sha256 = rc_file_sha256 r, chunks = map received_ref R\<rparr>"
  have grp: "group_file (join_path (sf_relative s)) rs = Some ?f" by (simp add: group_file_def flt R'(1))
  have "map (\<lambda>r. chunk_index (received_ref r)) R = map pc_chunk_index seg"
    using R by (induction rule: list_all2_induct) (simp_all add: record_ref)
  then have "sorted (map chunk_index (map received_ref R))"
    using ch(1) [OF len] by (simp add: o_def ixs strict_sorted_imp_sorted)
  then have same: "sorted_file ?f = ?f" by (simp add: sorted_file_def sort_key_id_if_sorted)
  have "\<forall>c \<in> set seg. isSha256Hex (pc_chunk_sha256 c)"
    using each sha256Hex_Inr by (auto simp: prepared_def)
  with R have wfc: "list_all wf_chunk (map received_ref R)" by (rule records_wf)
  have "safe_rel (join_path (sf_relative s))" using safeRelativePath_join [OF rel] by (rule safe_relI)
  moreover have attrs: "rc_file_size r = word_of_nat (length data)" "rc_file_mode r = md AND 0x1ff"
      "sha256Hex T data = Inr (rc_file_sha256 r)"
    using each R'(2) by (auto simp: seg' chunk_record_def)
  moreover have "isSha256Hex (rc_file_sha256 r)" using sha256Hex_Inr [OF attrs(3)] by blast
  moreover have "length R < 2 ^ 64" using list_all2_lengthD [OF R] n ch(2) [OF len] by simp
  ultimately have wf: "wf_file ?f" using wfc by (simp add: wf_file_def)
  have "stored_as T d repo (map received_ref R) (map pc_raw seg)" using R st by (rule records_stored)
  then have "stored_as T d repo (chunks ?f) (map ch_data (chunkBytes_mode Fixed data))"
    by (simp add: raws chunkBytes_mode_def)
  then have "describes T d0 d repo Fixed s ?f"
    using node wf attrs unfolding describes_def
    by (intro conjI exI [of _ data] exI [of _ md]) simp_all
  then show ?thesis using grp same by metis
qed

lemma scan_distinct:
  assumes "scanRegularFiles d source = Inr ss"
  shows "distinct (map (\<lambda>s. join_path (sf_relative s)) ss)"
proof -
  note scan = scan_Inr [OF assms]
  have inj: "inj_on (\<lambda>s. join_path (sf_relative s)) (set ss)"
  proof (rule inj_onI)
    fix s t
    assume st: "s \<in> set ss" "t \<in> set ss" "join_path (sf_relative s) = join_path (sf_relative t)"
    then obtain k k' where k: "k \<in> set (source_places d source)" "s = scanned_at source k"
        "k' \<in> set (source_places d source)" "t = scanned_at source k'"
      unfolding scan(1) by blast
    have "sf_relative s = sf_relative t"
      using safeRelativePath_join [OF entry_place(2) [OF k(1)]] safeRelativePath_join [OF entry_place(2) [OF k(3)]] st(3)
      unfolding k(2,4) by (metis sum.inject(2))
    then show "s = t" using relative_names(1) [OF k(1)] relative_names(1) [OF k(3)] unfolding k(2,4) by metis
  qed
  have "inj_on (scanned_at source) (set (source_places d source))"
    by (rule inj_onI) (metis entry_place(1))
  then have "card (set ss) = length ss"
    unfolding scan(1,2) by (simp add: card_image distinct_card source_places_distinct)
  then have "distinct ss" by (rule card_distinct)
  then show ?thesis using inj by (simp add: distinct_map)
qed

lemma segment_paths:
  assumes "file_segment T d0 s seg" and "list_all2 chunk_record seg R"
  shows "\<forall>r \<in> set R. rc_relative_path r = join_path (sf_relative s)"
proof
  fix r
  assume "r \<in> set R"
  then obtain c where "c \<in> set seg" "chunk_record c r" using list_all2_mem [OF assms(2)] by blast
  then show "rc_relative_path r = join_path (sf_relative s)"
    using assms(1) by (auto simp: file_segment_def chunk_record_def)
qed

text \<open>When there is a record for every index, every chunk is stored.\<close>

lemma all_stored:
  assumes "inj_on pc_global_index (set cs)" and "set (map pc_global_index cs) \<subseteq> rc_global_index ` set rs"
    and "\<forall>r \<in> set rs. \<exists>c \<in> set cs. chunk_record c r \<and> chunk_stored T d repo c" and c: "c \<in> set cs"
  shows "chunk_stored T d repo c"
proof -
  have "pc_global_index c \<in> rc_global_index ` set rs" using assms(2) c by auto
  then obtain r c' where "r \<in> set rs" "rc_global_index r = pc_global_index c" "c' \<in> set cs" "chunk_record c' r"
      "chunk_stored T d repo c'"
    using assms(3) by (metis imageE)
  then show ?thesis using assms(1) c by (auto simp: inj_on_def chunk_record_def)
qed

lemma session_files:
  assumes prep: "prepareChunks T d0 source = Inr cs" and small: "small_source d0 source"
    and n: "length cs < 2 ^ 64" and all: "set (map pc_global_index cs) \<subseteq> rc_global_index ` set rs"
    and rec: "\<forall>r \<in> set rs. \<exists>c \<in> set cs. chunk_record c r \<and> chunk_stored T d repo c"
  shows "\<exists>ss. scanRegularFiles d0 source = Inr ss
    \<and> (\<forall>s \<in> set ss. \<exists>f. group_file (join_path (sf_relative s)) (latest_records rs) = Some f
          \<and> describes T d0 d repo Fixed s (sorted_file f))
    \<and> (\<forall>r \<in> set (latest_records rs). \<exists>s \<in> set ss. rc_relative_path r = join_path (sf_relative s))"
proof -
  obtain ss segs where ss: "scanRegularFiles d0 source = Inr ss" and cs: "cs = concat segs"
    and segs: "list_all2 (file_segment T d0) ss segs" and ixs: "map pc_global_index cs = map word_of_nat [0 ..< length cs]"
    using prepareChunks_run [OF prep] by blast
  have "distinct (map pc_global_index cs)"
    unfolding ixs using word_indices_sorted [of "length cs"] n by (simp add: strict_sorted_iff)
  then have inj: "inj_on pc_global_index (set cs)" by (simp add: distinct_map)
  have "list_all2 chunk_record cs (latest_records rs)" using latest_match [OF ixs n all] rec by blast
  then obtain Rs where latest: "latest_records rs = concat Rs" and Rs: "list_all2 (list_all2 chunk_record) segs Rs"
    unfolding cs using list_all2_segments by blast
  note stored = all_stored [OF inj all rec]
  have paths: "list_all2 (\<lambda>s R. \<forall>r \<in> set R. rc_relative_path r = join_path (sf_relative s)) ss Rs"
    using list_all2_trans [OF _ segs Rs, of "\<lambda>s R. \<forall>r \<in> set R. rc_relative_path r = join_path (sf_relative s)"] segment_paths by blast
  have lens: "length ss = length segs" "length segs = length Rs"
    using list_all2_lengthD [OF segs] list_all2_lengthD [OF Rs] by simp_all
  have one: "\<exists>f. group_file (join_path (sf_relative s)) (latest_records rs) = Some f
          \<and> describes T d0 d repo Fixed s (sorted_file f)" if s: "s \<in> set ss" for s
  proof -
    obtain i where i: "i < length ss" "s = ss ! i" using s by (metis in_set_conv_nth)
    have seg: "file_segment T d0 s (segs ! i)" using list_all2_nthD [OF segs] i by simp
    have R: "list_all2 chunk_record (segs ! i) (Rs ! i)" using list_all2_nthD [OF Rs] i lens by simp
    have "(s, Rs ! i) \<in> set (zip ss Rs)" using i lens by (auto simp: set_zip)
    from filter_segment [OF paths scan_distinct [OF ss] this]
    have flt: "filter (\<lambda>r. rc_relative_path r = join_path (sf_relative s)) (latest_records rs) = Rs ! i"
      unfolding latest .
    have "segs ! i \<in> set segs" using i lens by simp
    then have "\<forall>c \<in> set (segs ! i). chunk_stored T d repo c" using stored unfolding cs by auto
    moreover obtain k where "k \<in> set (source_places d0 source)" "s = scanned_at source k"
      using s unfolding scan_Inr(1) [OF ss] by blast
    then have "short_file d0 (walk (sf_absolute s)) \<and> safe_path (sf_relative s)"
      using small entry_place by (simp add: small_source_def)
    ultimately show ?thesis using segment_file [OF seg R _ _ _ flt] by blast
  qed
  have "\<exists>s \<in> set ss. rc_relative_path r = join_path (sf_relative s)" if r: "r \<in> set (latest_records rs)" for r
  proof -
    obtain R where R: "R \<in> set Rs" "r \<in> set R" using r unfolding latest by auto
    then show ?thesis using list_all2_mem [OF paths R(1)] by blast
  qed
  then show ?thesis using ss one by blast
qed

text \<open>The version holds the source: every file of one is in the other.\<close>

definition holds_source :: "third_party \<Rightarrow> fs \<Rightarrow> path \<Rightarrow> path \<Rightarrow> fs \<Rightarrow> manifest \<Rightarrow> bool" where
  "holds_source T d0 source repo d m \<longleftrightarrow>
     (\<forall>k \<in> set (source_places d0 source). \<exists>f \<in> set (files m). describes T d0 d repo Fixed (scanned_at source k) f)
     \<and> (\<forall>f \<in> set (files m). \<exists>k \<in> set (source_places d0 source). describes T d0 d repo Fixed (scanned_at source k) f)"

lemma session_manifest:
  assumes prep: "prepareChunks T d0 source = Inr cs" and small: "small_source d0 source" and n: "length cs < 2 ^ 64"
    and ix: "index_file repo sid ls d1" and m: "buildManifest d1 repo sid now v tc = Inr m"
    and all: "set (map pc_global_index cs) \<subseteq> rc_global_index ` set (chunks_of ls)"
    and rec: "\<forall>r \<in> set (chunks_of ls). \<exists>c \<in> set cs. chunk_record c r \<and> chunk_stored T d repo c"
  shows "holds_source T d0 source repo d m \<and> wf_manifest m"
proof -
  let ?rs = "latest_records (chunks_of ls)"
  obtain ss where ss: "scanRegularFiles d0 source = Inr ss"
    and files: "\<forall>s \<in> set ss. \<exists>f. group_file (join_path (sf_relative s)) ?rs = Some f
          \<and> describes T d0 d repo Fixed s (sorted_file f)"
    and paths: "\<forall>r \<in> set ?rs. \<exists>s \<in> set ss. rc_relative_path r = join_path (sf_relative s)"
    using session_files [OF prep small n all rec] by blast
  have built: "distinct (map relative_path (files m))"
      "set (files m) = {sorted_file f | f p. group_file p ?rs = Some f}"
    using buildManifest_index [OF ix, where now = now and version = v and total_chunks = tc] m by simp_all
  have there: "\<exists>f \<in> set (files m). describes T d0 d repo Fixed s f" if "s \<in> set ss" for s
    using files that unfolding built(2) by blast
  have origin: "\<exists>s \<in> set ss. describes T d0 d repo Fixed s f" if f: "f \<in> set (files m)" for f
  proof -
    obtain p f0 where f0: "group_file p ?rs = Some f0" "f = sorted_file f0" using f built(2) by blast
    then have "filter (\<lambda>r. rc_relative_path r = p) ?rs \<noteq> []" by (auto simp: group_file_def)
    then obtain r where "r \<in> set ?rs" "rc_relative_path r = p" by (auto simp: filter_empty_conv)
    then obtain s where "s \<in> set ss" "p = join_path (sf_relative s)" using paths by blast
    then show ?thesis using files f0 by force
  qed
  have holds: "holds_source T d0 source repo d m"
    using there origin unfolding holds_source_def scan_Inr(1) [OF ss] by blast
  have "list_all wf_file (files m)" using origin by (auto simp: list_all_iff describes_def)
  moreover have "length (files m) < 2 ^ 64"
  proof -
    have "set (map relative_path (files m)) \<subseteq> set (map (\<lambda>s. join_path (sf_relative s)) ss)"
      using origin by (fastforce simp: describes_def)
    then have "card (set (map relative_path (files m))) \<le> length ss"
      using card_mono [OF finite_set] card_length le_trans by (metis length_map)
    then show ?thesis
      using distinct_card [OF built(1)] scan_Inr(2) [OF ss] small by (simp add: small_source_def)
  qed
  moreover have "source_root m \<noteq> []" using m by (auto simp: buildManifest_def res_simps Let_def split: option.splits)
  ultimately show ?thesis using holds by (simp add: wf_manifest_def)
qed

lemma holds_source_verifies:
  assumes "load d repo v = Inr m" and "holds_source T d0 source repo d m"
  shows "verify T d repo v = Inr () \<or> collision T d repo (source_chunks Fixed d0 source)"
proof (rule disjCI)
  assume none: "\<not> collision T d repo (source_chunks Fixed d0 source)"
  have "\<exists>c. file_is T d repo f c" if "f \<in> set (files m)" for f
    using assms(2) that describes_file_is none unfolding holds_source_def by blast
  then show "verify T d repo v = Inr ()" using assms(1) by (auto simp: verify_iff)
qed

section \<open>The commit\<close>

lemma spares_handle_commit: "keeps (spares repo {} d0) (handle_commit repo p)"
  unfolding handle_commit_def writeCheckpoint_def
  by (auto intro!: keeps_intro spares_renameTmp spares_marker)

lemma commit_fields:
  assumes "sid \<noteq> []"
  shows "\<exists>kv. parseTextFields (payloadString (client_packet CommitSession sid (commit_text sid n))) ''DPC_COMMIT_V1'' = Inr kv
    \<and> rbind (field kv ''session_hex'') hexDecodeString = Inr sid
    \<and> (n < 2 ^ 64 \<longrightarrow> parseU64 kv ''total_chunks'' = Inr (word_of_nat n))"
proof -
  have body: "commit_text sid n = ''DPC_COMMIT_V1''
      @ concat (map field_line [(''session_hex'', hexEncodeString sid), (''total_chunks'', dec n)]) @ [nl]"
    by (simp add: commit_text_def field_line_def)
  have "token ''session_hex''" "token ''total_chunks''" "token ''DPC_COMMIT_V1''"
    by (simp_all add: token_def isspace_def char_code_def)
  then have "parseTextFields (commit_text sid n) ''DPC_COMMIT_V1''
      = Inr [''session_hex'' \<mapsto> hexEncodeString sid, ''total_chunks'' \<mapsto> dec n]"
    using parseTextFields_text [of "''DPC_COMMIT_V1''" "[(''session_hex'', hexEncodeString sid), (''total_chunks'', dec n)]" "[nl]"]
      hex_token [OF assms] token_dec [of n]
    unfolding body by simp
  then show ?thesis
    by (simp add: client_packet_def payloadString_def field_def str_hex.decode_enc parseU64_def stoull_dec)
qed

lemma prepared_good:
  assumes prep: "prepareChunks T d0 source = Inr cs" and small: "small_source d0 source" and sid: "sid \<noteq> []"
    and len: "\<forall>c \<in> set cs. length (pc_compressed c) < 2 ^ 64" and c: "c \<in> set cs"
  shows "good_chunk T sid c"
proof -
  obtain ss segs where ss: "scanRegularFiles d0 source = Inr ss" and cs: "cs = concat segs"
    and segs: "list_all2 (file_segment T d0) ss segs"
    using prepareChunks_run [OF prep] by blast
  obtain seg where seg: "seg \<in> set segs" "c \<in> set seg" using c unfolding cs by auto
  obtain s where s: "s \<in> set ss" "file_segment T d0 s seg" using list_all2_mem [OF segs seg(1)] by blast
  obtain k where k: "k \<in> set (source_places d0 source)" "s = scanned_at source k"
    using s(1) unfolding scan_Inr(1) [OF ss] by blast
  obtain data md where node: "node_at d0 (walk (sf_absolute s)) = Some (File data md)"
    and raws: "map pc_raw seg = map ch_data (fixed_chunkBytes kDefaultChunkSize data)"
    and each: "prepared T c" "pc_relative_path c = join_path (sf_relative s)" "sha256Hex T data = Inr (pc_file_sha256 c)"
    using s(2) seg(2) by (auto simp: file_segment_def)
  have short: "length data < 2 ^ 62"
    using small k node entry_place(1) [OF k(1)] by (auto simp: small_source_def short_file_def)
  have "pc_raw c \<in> set (map ch_data (fixed_chunkBytes kDefaultChunkSize data))"
    unfolding raws [symmetric] using seg(2) by simp
  then have "length (pc_raw c) < 2 ^ 62"
    using mode_chunks.chunk_size_le [of _ Fixed data] short by (fastforce simp: chunkBytes_mode_def)
  moreover have "join_path (sf_relative s) \<noteq> []"
    using safeRelativePath_join [OF entry_place(2) [OF k(1)]] by (auto simp: k(2) safeRelativePath_def)
  moreover have "token (pc_file_sha256 c)" using isSha256Hex_token sha256Hex_Inr [OF each(3)] by blast
  ultimately show ?thesis using sid len c each by (simp add: good_chunk_def sendable_def)
qed

lemma recorded_indices:
  "dom (foldl (\<lambda>m r. m(rc_global_index r \<mapsto> rc_sha256 r)) Map.empty rs) \<subseteq> rc_global_index ` set rs"
  by (induction rs rule: rev_induct) (auto simp del: fun_upd_apply)

section \<open>Properties\<close>

text \<open>C5: a whole upload. The client splits its source into chunks and sends those whose index the
  server's session does not record with their hash; a session that is resumed holds only chunks of
  this source. When the server handled these packets, and then the COMMIT_SESSION for all chunks,
  without an error, the version it committed loads, its files are exactly the regular files of the
  source on the client's disk (relative path, size, permission bits, SHA-256, and chunk references
  with their contents in the store), and it verifies, unless the store holds a SHA-256 collision.\<close>

theorem upload_complete:
  assumes "zstd_ok T" and "prepareChunks T d0 source = Inr cs" and "small_source d0 source"
    and "length cs < 2 ^ 64" and "\<forall>c \<in> set cs. length (pc_compressed c) < 2 ^ 64" and "sid \<noteq> []"
    and "index_file repo sid ls (disk w)"
    and "\<forall>r \<in> set (chunks_of ls). \<exists>c \<in> set cs. chunk_record c r \<and> chunk_stored T (disk w) repo c"
    and "known = foldl (\<lambda>m r. m(rc_global_index r \<mapsto> rc_sha256 r)) Map.empty (chunks_of ls)"
  shows "case handle_puts T repo sid (filter (\<lambda>c. \<not> recorded known c) cs) w of
      (Inl _, _) \<Rightarrow> True
    | (Inr _, w1) \<Rightarrow> (case handle_commit repo (client_packet CommitSession sid (commit_text sid (length cs))) w1 of
        (Inl _, _) \<Rightarrow> True
      | (Inr _, w') \<Rightarrow> \<exists>v m. nextVersion (disk w1) repo = Inr v \<and> load (disk w') repo v = Inr m
          \<and> holds_source T d0 source repo (disk w') m
          \<and> (verify T (disk w') repo v = Inr () \<or> collision T (disk w') repo (source_chunks Fixed d0 source)))"
proof -
  have goal: "\<exists>v m. nextVersion (disk w1) repo = Inr v \<and> load (disk w') repo v = Inr m
          \<and> holds_source T d0 source repo (disk w') m
          \<and> (verify T (disk w') repo v = Inr () \<or> collision T (disk w') repo (source_chunks Fixed d0 source))"
    if puts: "handle_puts T repo sid (filter (\<lambda>c. \<not> recorded known c) cs) w = (Inr u, w1)"
      and com: "handle_commit repo (client_packet CommitSession sid (commit_text sid (length cs))) w1 = (Inr u', w')"
    for u u' w1 w'
  proof -
    let ?I = "rc_global_index ` set (chunks_of ls)"
    let ?todo = "filter (\<lambda>c. \<not> recorded known c) cs"
    have start: "session_holds T repo sid cs (disk w) ?I" using assms(7,8) by (auto simp: session_holds_def)
    have good: "\<forall>c \<in> set ?todo. good_chunk T sid c" using prepared_good [OF assms(2,3,6,5)] by simp
    obtain ls1 where ls1: "index_file repo sid ls1 (disk w1)"
        "pc_global_index ` set ?todo \<union> ?I \<subseteq> rc_global_index ` set (chunks_of ls1)"
        "\<forall>r \<in> set (chunks_of ls1). \<exists>c \<in> set cs. chunk_record c r \<and> chunk_stored T (disk w1) repo c"
      using puts_run [OF assms(1) _ good puts start] unfolding session_holds_def by auto
    have "dom known \<subseteq> ?I"
      unfolding assms(9) by (rule recorded_indices)
    then have "pc_global_index ` set cs \<subseteq> pc_global_index ` set ?todo \<union> ?I" by (auto simp: recorded_def)
    then have all: "set (map pc_global_index cs) \<subseteq> rc_global_index ` set (chunks_of ls1)"
      using subset_trans [OF _ ls1(2)] by (simp only: set_map)
    obtain kv where kv: "parseTextFields (payloadString (client_packet CommitSession sid (commit_text sid (length cs)))) ''DPC_COMMIT_V1'' = Inr kv"
        "rbind (field kv ''session_hex'') hexDecodeString = Inr sid" "parseU64 kv ''total_chunks'' = Inr (word_of_nat (length cs))"
      using commit_fields [OF assms(6), of "length cs"] assms(4) by blast
    obtain v m now where v: "nextVersion (disk w1) repo = Inr v"
      and m: "buildManifest (disk w1) repo sid now v (word_of_nat (length cs)) = Inr m"
      and made: "load (disk w') repo v = parse (serialize m)"
      using commit_made [OF com kv ls1(1)] by blast
    have "kept (durable repo {}) (disk w1) (disk w')"
      using keepsD_eq [OF spares_handle_commit [of repo "disk w1"] _ com] by simp
    then have "\<forall>r \<in> set (chunks_of ls1). \<exists>c \<in> set cs. chunk_record c r \<and> chunk_stored T (disk w') repo c"
      using ls1(3) chunk_stored_kept by blast
    from session_manifest [OF assms(2,3,4) ls1(1) m all this]
    have holds: "holds_source T d0 source repo (disk w') m" and wf: "wf_manifest m" by blast+
    have loaded: "load (disk w') repo v = Inr m" unfolding made by (rule parse_serialize [OF wf])
    show ?thesis using v loaded holds holds_source_verifies [OF loaded holds] by blast
  qed
  show ?thesis using goal by (auto split: prod.splits sum.splits)
qed

text \<open>The source of one file, uploaded to a server with an empty repository.\<close>

lemma sample_prepared:
  "\<exists>c. prepareChunks toy sample_source [''s''] = Inr [c] \<and> length (pc_compressed c) = 3"
proof -
  let ?s = "scanned_at [''s''] [''s'', ''a'']"
  have ss: "scanRegularFiles sample_source [''s''] = Inr [?s]"
  proof -
    have "walk [''s''] = [''s'']" by (simp add: walk_def walk_step_def dot_def dotdot_def)
    then have "exists_path sample_source [''s''] \<and> is_dir sample_source [''s'']"
      by (simp add: exists_path_def is_dir_def sample_source_def node_at_def)
    then show ?thesis using sample_source_ok(4) by (simp add: scanRegularFiles_def source_places_def)
  qed
  have node: "node_at sample_source (walk (sf_absolute ?s)) = Some (File [1, 2, 3] 0x1a4)"
    using entry_place(1) [of "[''s'', ''a'']" sample_source "[''s'']"] sample_source_ok(4)
    by (simp add: sample_source_def node_at_def)
  have "fixed_chunkBytes kDefaultChunkSize [1, 2, 3] = [\<lparr>ch_index = 0, ch_data = [1, 2, 3]\<rparr>]"
    by (simp add: fixed_chunkBytes_def fixed_loop_Cons fixed_loop_Nil kDefaultChunkSize_def)
  then show ?thesis
    by (simp add: prepareChunks_def ss node sha256FileAt_def sha256File_eq sha256Hex_ok [OF toy_ok(2)] fileSize_def
        fileMode_def readFile_def compress_def checkZstd_def) (simp add: toy_def)
qed

theorem upload_complete_witness:
  "\<exists>cs. prepareChunks toy sample_source [''s''] = Inr cs \<and> length cs = 1
    \<and> (case handle_puts toy [''r''] ''x'' cs (quiet_world []) of
      (Inl _, _) \<Rightarrow> True
    | (Inr _, w1) \<Rightarrow> (case handle_commit [''r''] (client_packet CommitSession ''x'' (commit_text ''x'' 1)) w1 of
        (Inl _, _) \<Rightarrow> True
      | (Inr _, w') \<Rightarrow> \<exists>v m. nextVersion (disk w1) [''r''] = Inr v \<and> load (disk w') [''r''] v = Inr m
          \<and> holds_source toy sample_source [''s''] [''r''] (disk w') m
          \<and> (verify toy (disk w') [''r''] v = Inr ()
              \<or> collision toy (disk w') [''r''] (source_chunks Fixed sample_source [''s'']))))"
proof -
  obtain c where c: "prepareChunks toy sample_source [''s''] = Inr [c]" "length (pc_compressed c) = 3"
    using sample_prepared by blast
  have ix: "index_file [''r''] ''x'' [] (disk (quiet_world []))"
    by (simp add: index_file_def node_at_def walk_session)
  have todo: "filter (\<lambda>c. \<not> recorded Map.empty c) [c] = [c]" by (simp add: recorded_def)
  have one: "length [c] = 1" by simp
  show ?thesis
    using upload_complete [OF toy_ok(1) c(1) sample_source_ok(2) _ _ _ ix, where known = Map.empty] c
    unfolding todo one by (intro exI [of _ "[c]"]) simp
qed

end
