(* ===== verification/DPC_Queue.thy ===== *)
theory DPC_Queue
  imports DPC_Upload "HOL-Library.Multiset"
begin

text \<open>
  The bounded queue and the thread pool (src/include/dpc/concurrency/BoundedQueue.hpp,
  src/src/concurrency/ThreadPool.cpp). Every operation of the queue runs under its mutex, so it is
  one step up to its return or up to the wait of its condition variable; a thread that was notified,
  or woke up by itself, takes the mutex again and looks at the condition again. The pool is the step
  relation of its workers, of the threads that submit and of the one that shuts it down.
\<close>

section \<open>The queue (BoundedQueue.hpp)\<close>

record 'a bqueue =
  bq_capacity :: nat
  bq_items :: "'a list"
  bq_shutdown :: bool

definition bounded_queue :: "nat \<Rightarrow> 'a bqueue" where
  "bounded_queue capacity = \<lparr>bq_capacity = (if capacity = 0 then 1 else capacity), bq_items = [], bq_shutdown = False\<rparr>"

text \<open>\<open>None\<close>: the condition of the wait does not hold, the thread sleeps.\<close>

definition push :: "'a \<Rightarrow> 'a bqueue \<Rightarrow> (bool \<times> 'a bqueue) option" where
  "push x q =
     (if bq_shutdown q \<or> length (bq_items q) < bq_capacity q then
        (if bq_shutdown q then Some (False, q)
         else Some (True, q\<lparr>bq_items := bq_items q @ [x]\<rparr>))
      else None)"

definition pop :: "'a bqueue \<Rightarrow> ('a option \<times> 'a bqueue) option" where
  "pop q =
     (if bq_shutdown q \<or> bq_items q \<noteq> [] then
        (case bq_items q of
           [] \<Rightarrow> Some (None, q)
         | x # xs \<Rightarrow> Some (Some x, q\<lparr>bq_items := xs\<rparr>))
      else None)"

definition shutdown_queue :: "'a bqueue \<Rightarrow> 'a bqueue" where
  "shutdown_queue q = q\<lparr>bq_shutdown := True\<rparr>"

text \<open>
  What the users of the queue rely on: a channel that keeps its items in order, takes one unless it
  is closed or full, and gives one unless it has none.
\<close>

locale channel =
  fixes put :: "'a \<Rightarrow> 'q \<Rightarrow> (bool \<times> 'q) option"
    and take_one :: "'q \<Rightarrow> ('a option \<times> 'q) option"
    and shut :: "'q \<Rightarrow> 'q"
    and items :: "'q \<Rightarrow> 'a list"
    and closed :: "'q \<Rightarrow> bool"
    and limit :: "'q \<Rightarrow> nat"
  assumes put_closed: "closed q \<Longrightarrow> put x q = Some (False, q)"
    and put_full: "\<not> closed q \<Longrightarrow> limit q \<le> length (items q) \<Longrightarrow> put x q = None"
    and put_room: "\<not> closed q \<Longrightarrow> length (items q) < limit q \<Longrightarrow>
      \<exists>q'. put x q = Some (True, q') \<and> items q' = items q @ [x] \<and> \<not> closed q' \<and> limit q' = limit q"
    and take_item: "items q = x # xs \<Longrightarrow>
      \<exists>q'. take_one q = Some (Some x, q') \<and> items q' = xs \<and> closed q' = closed q \<and> limit q' = limit q"
    and take_end: "items q = [] \<Longrightarrow> closed q \<Longrightarrow> take_one q = Some (None, q)"
    and take_wait: "items q = [] \<Longrightarrow> \<not> closed q \<Longrightarrow> take_one q = None"
    and shut_items: "items (shut q) = items q" and shut_closed: "closed (shut q)" and shut_limit: "limit (shut q) = limit q"
begin

lemma put_accepts: "put x q = Some (True, q') \<Longrightarrow>
    \<not> closed q \<and> length (items q) < limit q \<and> items q' = items q @ [x] \<and> \<not> closed q' \<and> limit q' = limit q"
  using put_closed [of q x] put_full [of q x] put_room [of q x] by (cases "closed q"; cases "length (items q) < limit q") auto

lemma put_refuses: "put x q = Some (False, q') \<Longrightarrow> closed q \<and> q' = q"
  using put_closed [of q x] put_full [of q x] put_room [of q x] by (cases "closed q"; cases "length (items q) < limit q") auto

lemma put_sleeps: "put x q = None \<Longrightarrow> \<not> closed q \<and> limit q \<le> length (items q)"
  using put_closed [of q x] put_room [of q x] by (cases "closed q"; cases "length (items q) < limit q") auto

lemma take_gives: "take_one q = Some (Some x, q') \<Longrightarrow> items q = x # items q' \<and> closed q' = closed q \<and> limit q' = limit q"
  using take_item [of q] take_end [of q] take_wait [of q] by (cases "items q"; cases "closed q") fastforce+

lemma take_ends: "take_one q = Some (None, q') \<Longrightarrow> items q = [] \<and> closed q \<and> q' = q"
  using take_item [of q] take_end [of q] take_wait [of q] by (cases "items q"; cases "closed q") fastforce+

lemma take_sleeps: "take_one q = None \<Longrightarrow> items q = [] \<and> \<not> closed q"
  using take_item [of q] take_end [of q] by (cases "items q"; cases "closed q") fastforce+

lemmas inversion = put_accepts put_refuses put_sleeps take_gives take_ends take_sleeps
lemmas closing = shut_items shut_closed shut_limit

end

interpretation bq: channel push pop shutdown_queue bq_items bq_shutdown bq_capacity
  by unfold_locales (simp_all add: push_def pop_def shutdown_queue_def)

section \<open>The pool (ThreadPool.cpp)\<close>

text \<open>
  A worker is about to take the mutex in \<open>pop\<close>, sleeps there on \<open>not_empty_\<close>, runs a task, or has left
  its loop. A submitting thread is elsewhere, in \<open>submit\<close> before its look at \<open>stopped_\<close>, about to take
  the mutex in \<open>push\<close>, or sleeps there on \<open>not_full_\<close>. The thread that won the exchange in \<open>shutdown\<close>
  has yet to shut the queue down, to notify the ones asleep on either condition, or joins the workers; one
  that loses it returns at once (\<open>StopLoses\<close>).
\<close>

datatype 'a worker = AtPop | Asleep | Running 'a | Ended
datatype 'a submitter = Elsewhere | AtSubmit 'a | AtPush 'a | AwaitsRoom 'a
datatype stopper = Open | Exchanged | Closed | WokeWorkers | Joining nat

record 'a pool =
  tp_queue :: "'a bqueue"
  tp_stopped :: bool
  tp_workers :: "'a worker list"
  tp_submitters :: "'a submitter list"
  tp_stopper :: stopper

definition thread_pool :: "nat \<Rightarrow> nat \<Rightarrow> nat \<Rightarrow> 'a pool" where
  "thread_pool workers queue_capacity submitters =
     \<lparr>tp_queue = bounded_queue queue_capacity, tp_stopped = False,
      tp_workers = replicate (if workers = 0 then 1 else workers) AtPop,
      tp_submitters = replicate submitters Elsewhere, tp_stopper = Open\<rparr>"

definition asleep :: "'a worker \<Rightarrow> bool" where
  "asleep t \<longleftrightarrow> t = Asleep"

fun wake_worker :: "'a worker \<Rightarrow> 'a worker" where
  "wake_worker Asleep = AtPop"
| "wake_worker t = t"

fun awaits :: "'a submitter \<Rightarrow> bool" where
  "awaits (AwaitsRoom _) = True"
| "awaits _ = False"

fun wake_submitter :: "'a submitter \<Rightarrow> 'a submitter" where
  "wake_submitter (AwaitsRoom x) = AtPush x"
| "wake_submitter t = t"

text \<open>\<open>notify_one\<close> wakes some sleeper, if there is one.\<close>

inductive notify_one :: "('t \<Rightarrow> bool) \<Rightarrow> ('t \<Rightarrow> 't) \<Rightarrow> 't list \<Rightarrow> 't list \<Rightarrow> bool" for sleeps wake where
  nobody: "list_all (\<lambda>t. \<not> sleeps t) ts \<Longrightarrow> notify_one sleeps wake ts ts"
| somebody: "i < length ts \<Longrightarrow> sleeps (ts ! i) \<Longrightarrow> notify_one sleeps wake ts (ts[i := wake (ts ! i)])"

datatype 'a event =
    Call nat 'a | Accept nat 'a | Refuse nat 'a | Take nat 'a | Finish nat 'a | Leave nat
  | SleepPush nat | SleepPop nat | Enter nat | StopCalled | StopStep | StopLoses
  | WakePush nat | WakePop nat

inductive pool_step :: "'a pool \<Rightarrow> 'a event \<Rightarrow> 'a pool \<Rightarrow> bool" where
  call: "j < length (tp_submitters s) \<Longrightarrow> tp_submitters s ! j = Elsewhere \<Longrightarrow>
    pool_step s (Call j x) (s\<lparr>tp_submitters := (tp_submitters s)[j := AtSubmit x]\<rparr>)"
| submit_stopped: "j < length (tp_submitters s) \<Longrightarrow> tp_submitters s ! j = AtSubmit x \<Longrightarrow> tp_stopped s \<Longrightarrow>
    pool_step s (Refuse j x) (s\<lparr>tp_submitters := (tp_submitters s)[j := Elsewhere]\<rparr>)"
| submit_open: "j < length (tp_submitters s) \<Longrightarrow> tp_submitters s ! j = AtSubmit x \<Longrightarrow> \<not> tp_stopped s \<Longrightarrow>
    pool_step s (Enter j) (s\<lparr>tp_submitters := (tp_submitters s)[j := AtPush x]\<rparr>)"
| push_accepts: "j < length (tp_submitters s) \<Longrightarrow> tp_submitters s ! j = AtPush x \<Longrightarrow>
    push x (tp_queue s) = Some (True, q) \<Longrightarrow> notify_one asleep wake_worker (tp_workers s) ws \<Longrightarrow>
    pool_step s (Accept j x) (s\<lparr>tp_queue := q, tp_workers := ws, tp_submitters := (tp_submitters s)[j := Elsewhere]\<rparr>)"
| push_refuses: "j < length (tp_submitters s) \<Longrightarrow> tp_submitters s ! j = AtPush x \<Longrightarrow>
    push x (tp_queue s) = Some (False, q) \<Longrightarrow>
    pool_step s (Refuse j x) (s\<lparr>tp_queue := q, tp_submitters := (tp_submitters s)[j := Elsewhere]\<rparr>)"
| push_sleeps: "j < length (tp_submitters s) \<Longrightarrow> tp_submitters s ! j = AtPush x \<Longrightarrow> push x (tp_queue s) = None \<Longrightarrow>
    pool_step s (SleepPush j) (s\<lparr>tp_submitters := (tp_submitters s)[j := AwaitsRoom x]\<rparr>)"
| push_wakes: "j < length (tp_submitters s) \<Longrightarrow> tp_submitters s ! j = AwaitsRoom x \<Longrightarrow>
    pool_step s (WakePush j) (s\<lparr>tp_submitters := (tp_submitters s)[j := AtPush x]\<rparr>)"
| pop_gives: "i < length (tp_workers s) \<Longrightarrow> tp_workers s ! i = AtPop \<Longrightarrow> pop (tp_queue s) = Some (Some x, q) \<Longrightarrow>
    notify_one awaits wake_submitter (tp_submitters s) ss \<Longrightarrow>
    pool_step s (Take i x) (s\<lparr>tp_queue := q, tp_workers := (tp_workers s)[i := Running x], tp_submitters := ss\<rparr>)"
| pop_ends: "i < length (tp_workers s) \<Longrightarrow> tp_workers s ! i = AtPop \<Longrightarrow> pop (tp_queue s) = Some (None, q) \<Longrightarrow>
    pool_step s (Leave i) (s\<lparr>tp_queue := q, tp_workers := (tp_workers s)[i := Ended]\<rparr>)"
| pop_sleeps: "i < length (tp_workers s) \<Longrightarrow> tp_workers s ! i = AtPop \<Longrightarrow> pop (tp_queue s) = None \<Longrightarrow>
    pool_step s (SleepPop i) (s\<lparr>tp_workers := (tp_workers s)[i := Asleep]\<rparr>)"
| pop_wakes: "i < length (tp_workers s) \<Longrightarrow> tp_workers s ! i = Asleep \<Longrightarrow>
    pool_step s (WakePop i) (s\<lparr>tp_workers := (tp_workers s)[i := AtPop]\<rparr>)"
| task_done: "i < length (tp_workers s) \<Longrightarrow> tp_workers s ! i = Running x \<Longrightarrow>
    pool_step s (Finish i x) (s\<lparr>tp_workers := (tp_workers s)[i := AtPop]\<rparr>)"
| stop_exchange: "tp_stopper s = Open \<Longrightarrow> \<not> tp_stopped s \<Longrightarrow>
    pool_step s StopCalled (s\<lparr>tp_stopped := True, tp_stopper := Exchanged\<rparr>)"
| stop_loses: "tp_stopped s \<Longrightarrow> pool_step s StopLoses s"
| stop_close: "tp_stopper s = Exchanged \<Longrightarrow>
    pool_step s StopStep (s\<lparr>tp_queue := shutdown_queue (tp_queue s), tp_stopper := Closed\<rparr>)"
| stop_wake_workers: "tp_stopper s = Closed \<Longrightarrow>
    pool_step s StopStep (s\<lparr>tp_workers := map wake_worker (tp_workers s), tp_stopper := WokeWorkers\<rparr>)"
| stop_wake_submitters: "tp_stopper s = WokeWorkers \<Longrightarrow>
    pool_step s StopStep (s\<lparr>tp_submitters := map wake_submitter (tp_submitters s), tp_stopper := Joining 0\<rparr>)"
| stop_join: "tp_stopper s = Joining k \<Longrightarrow> k < length (tp_workers s) \<Longrightarrow> tp_workers s ! k = Ended \<Longrightarrow>
    pool_step s StopStep (s\<lparr>tp_stopper := Joining (k + 1)\<rparr>)"

inductive_cases pool_stepE: "pool_step s e s'"

inductive pool_run :: "'a pool \<Rightarrow> 'a event list \<Rightarrow> 'a pool \<Rightarrow> bool" where
  none: "pool_run s [] s"
| snoc: "pool_run s tr s1 \<Longrightarrow> pool_step s1 e s2 \<Longrightarrow> pool_run s (tr @ [e]) s2"

text \<open>\<open>shutdown\<close> has returned: every worker was joined.\<close>

definition shutdown_returned :: "'a pool \<Rightarrow> bool" where
  "shutdown_returned s \<longleftrightarrow> tp_stopper s = Joining (length (tp_workers s))"

section \<open>Counting threads\<close>

definition count_if :: "('t \<Rightarrow> bool) \<Rightarrow> 't list \<Rightarrow> nat" where
  "count_if P ts = length (filter P ts)"

lemma count_if_update:
  "i < length ts \<Longrightarrow>
    count_if P (ts[i := t]) = (if P t then 1 else 0) + count_if P ts - (if P (ts ! i) then 1 else 0)"
proof -
  assume i: "i < length ts"
  have "count_if P ts = count_if P (take i ts @ ts ! i # drop (Suc i) ts)" using id_take_nth_drop [OF i] by simp
  then show ?thesis by (simp add: count_if_def upd_conv_take_nth_drop [OF i])
qed

lemma count_if_pos: "0 < count_if P ts \<longleftrightarrow> (\<exists>t \<in> set ts. P t)"
  by (auto simp: count_if_def filter_empty_conv)

lemma count_if_nth: "i < length ts \<Longrightarrow> P (ts ! i) \<Longrightarrow> 0 < count_if P ts"
  unfolding count_if_pos using nth_mem by blast

lemma notify_one_iff:
  "notify_one sleeps wake ts ts' \<longleftrightarrow>
     count_if sleeps ts = 0 \<and> ts' = ts \<or> (\<exists>i < length ts. sleeps (ts ! i) \<and> ts' = ts[i := wake (ts ! i)])"
  by (auto simp: notify_one.simps count_if_def list_all_iff filter_empty_conv)

lemma notify_one_some: "\<exists>ts'. notify_one sleeps wake ts ts'"
  unfolding notify_one_iff using count_if_pos [of sleeps ts] by (metis gr0I in_set_conv_nth)

lemma notify_one_length: "notify_one sleeps wake ts ts' \<Longrightarrow> length ts' = length ts"
  by (auto simp: notify_one_iff)

definition at_pop :: "'a worker \<Rightarrow> bool" where "at_pop t \<longleftrightarrow> t = AtPop"
definition ended :: "'a worker \<Rightarrow> bool" where "ended t \<longleftrightarrow> t = Ended"
definition at_push :: "'a submitter \<Rightarrow> bool" where "at_push t \<longleftrightarrow> (\<exists>x. t = AtPush x)"

lemma worker_states [simp]:
  "asleep Asleep" "\<not> asleep AtPop" "\<not> asleep (Running x)" "\<not> asleep Ended"
  "at_pop AtPop" "\<not> at_pop Asleep" "\<not> at_pop (Running x)" "\<not> at_pop Ended"
  "ended Ended" "\<not> ended AtPop" "\<not> ended Asleep" "\<not> ended (Running x)"
  by (simp_all add: asleep_def at_pop_def ended_def)

lemma submitter_states [simp]:
  "at_push (AtPush x)" "\<not> at_push Elsewhere" "\<not> at_push (AtSubmit x)" "\<not> at_push (AwaitsRoom x)"
  by (simp_all add: at_push_def)

lemma awaits_iff: "awaits t \<longleftrightarrow> (\<exists>x. t = AwaitsRoom x)"
  by (cases t) simp_all

text \<open>Waking a worker moves one from the sleepers to those that look at the queue.\<close>

lemma notify_worker:
  assumes "notify_one asleep wake_worker ws ws'"
  shows "(count_if asleep ws = 0 \<and> ws' = ws
    \<or> count_if asleep ws = Suc (count_if asleep ws') \<and> count_if at_pop ws' = Suc (count_if at_pop ws))
    \<and> count_if ended ws' = count_if ended ws"
  using assms count_if_nth [of _ ws asleep] by (auto simp: notify_one_iff asleep_def count_if_update)

lemma notify_submitter:
  assumes "notify_one awaits wake_submitter ss ss'"
  shows "count_if awaits ss = 0 \<and> ss' = ss
    \<or> count_if awaits ss = Suc (count_if awaits ss') \<and> count_if at_push ss' = Suc (count_if at_push ss)"
  using assms count_if_nth [of _ ss awaits] by (auto simp: notify_one_iff awaits_iff count_if_update)

lemma map_wake:
  "count_if asleep (map wake_worker ws) = 0" "count_if ended (map wake_worker ws) = count_if ended ws"
  "count_if awaits (map wake_submitter ss) = 0"
proof -
  have "\<not> asleep (wake_worker t)" "ended (wake_worker t) = ended t" for t :: "'a worker" by (cases t; simp)+
  moreover have "\<not> awaits (wake_submitter t)" for t :: "'b submitter" by (cases t) simp_all
  ultimately show "count_if asleep (map wake_worker ws) = 0" "count_if ended (map wake_worker ws) = count_if ended ws"
    "count_if awaits (map wake_submitter ss) = 0"
    by (simp_all add: count_if_def filter_map o_def)
qed

section \<open>The invariant of the pool\<close>

text \<open>
  The queue is within its capacity. No wakeup is lost: while a worker sleeps there are as many others
  about to look at the queue as it has items, and while a submitter sleeps on an open queue as many
  others about to push as it has room. A worker only leaves a queue that is shut down and empty.
\<close>

definition queue_ok :: "'a pool \<Rightarrow> bool" where
  "queue_ok s \<longleftrightarrow> 0 < bq_capacity (tp_queue s) \<and> length (bq_items (tp_queue s)) \<le> bq_capacity (tp_queue s)
     \<and> tp_workers s \<noteq> []"

definition workers_ok :: "'a pool \<Rightarrow> bool" where
  "workers_ok s \<longleftrightarrow>
     (0 < count_if asleep (tp_workers s) \<longrightarrow> length (bq_items (tp_queue s)) \<le> count_if at_pop (tp_workers s))
     \<and> (0 < count_if ended (tp_workers s) \<longrightarrow> bq_shutdown (tp_queue s) \<and> bq_items (tp_queue s) = [])"

definition submitters_ok :: "'a pool \<Rightarrow> bool" where
  "submitters_ok s \<longleftrightarrow> (0 < count_if awaits (tp_submitters s) \<longrightarrow> bq_shutdown (tp_queue s)
     \<or> bq_capacity (tp_queue s) \<le> length (bq_items (tp_queue s)) + count_if at_push (tp_submitters s))"

fun stage :: "stopper \<Rightarrow> nat" where
  "stage Open = 0"
| "stage Exchanged = 1"
| "stage Closed = 2"
| "stage WokeWorkers = 3"
| "stage (Joining _) = 4"

definition stopper_ok :: "'a pool \<Rightarrow> bool" where
  "stopper_ok s \<longleftrightarrow> (tp_stopped s \<longleftrightarrow> 1 \<le> stage (tp_stopper s))
     \<and> (bq_shutdown (tp_queue s) \<longleftrightarrow> 2 \<le> stage (tp_stopper s))
     \<and> (3 \<le> stage (tp_stopper s) \<longrightarrow> count_if asleep (tp_workers s) = 0)
     \<and> (4 \<le> stage (tp_stopper s) \<longrightarrow> count_if awaits (tp_submitters s) = 0)"

definition joined_ok :: "'a pool \<Rightarrow> bool" where
  "joined_ok s \<longleftrightarrow> (\<forall>k. tp_stopper s = Joining k \<longrightarrow> k \<le> length (tp_workers s) \<and> (\<forall>i < k. tp_workers s ! i = Ended))"

lemma queue_ok_step: "pool_step s e s' \<Longrightarrow> queue_ok s \<Longrightarrow> queue_ok s'"
  by (erule pool_stepE)
    (auto simp: queue_ok_def bq.closing dest!: bq.inversion dest: notify_one_length)

lemma workers_ok_step: "pool_step s e s' \<Longrightarrow> workers_ok s \<Longrightarrow> workers_ok s'"
  by (erule pool_stepE)
    (auto simp: workers_ok_def bq.closing count_if_update map_wake dest!: bq.inversion notify_worker)

lemma submitters_ok_step: "pool_step s e s' \<Longrightarrow> submitters_ok s \<Longrightarrow> submitters_ok s'"
  by (erule pool_stepE)
    (auto simp: submitters_ok_def bq.closing count_if_update map_wake dest!: bq.inversion notify_submitter)

lemma stopper_ok_step: "pool_step s e s' \<Longrightarrow> stopper_ok s \<Longrightarrow> stopper_ok s'"
  by (erule pool_stepE)
    (auto simp: stopper_ok_def bq.closing count_if_update map_wake dest!: bq.inversion notify_submitter notify_worker)

lemma ended_stays: "notify_one asleep wake_worker ws ws' \<Longrightarrow> ws ! i = Ended \<Longrightarrow> ws' ! i = Ended"
  by (auto simp: notify_one_iff asleep_def nth_list_update)

lemma joined_ok_step:
  assumes "pool_step s e s'" and "joined_ok s"
  shows "joined_ok s'"
  using assms
proof (cases rule: pool_step.cases)
  case (push_accepts j x q ws)
  show ?thesis
    using assms(2) ended_stays [OF push_accepts(6)] notify_one_length [OF push_accepts(6)]
    unfolding joined_ok_def push_accepts(2) by simp
next
  case (stop_join k)
  then show ?thesis using assms(2) by (auto simp: joined_ok_def less_Suc_eq)
qed (use assms(2) in \<open>auto simp: joined_ok_def nth_list_update\<close>)

definition pool_inv :: "'a pool \<Rightarrow> bool" where
  "pool_inv s \<longleftrightarrow> queue_ok s \<and> workers_ok s \<and> submitters_ok s \<and> stopper_ok s \<and> joined_ok s"

lemma pool_inv_step: "pool_step s e s' \<Longrightarrow> pool_inv s \<Longrightarrow> pool_inv s'"
  unfolding pool_inv_def
  by (blast intro: queue_ok_step workers_ok_step submitters_ok_step stopper_ok_step joined_ok_step)

lemma pool_inv_start: "pool_inv (thread_pool n c m)"
  by (auto simp: pool_inv_def thread_pool_def bounded_queue_def queue_ok_def workers_ok_def submitters_ok_def
      stopper_ok_def joined_ok_def count_if_def)

lemma pool_inv_run: "pool_run s tr s' \<Longrightarrow> pool_inv s \<Longrightarrow> pool_inv s'"
  by (induction rule: pool_run.induct) (blast intro: pool_inv_step)+

section \<open>What happens to the tasks\<close>

fun accepted_of :: "'a event \<Rightarrow> 'a list" where
  "accepted_of (Accept _ x) = [x]"
| "accepted_of _ = []"

fun taken_of :: "'a event \<Rightarrow> 'a list" where
  "taken_of (Take _ x) = [x]"
| "taken_of _ = []"

fun finished_of :: "'a event \<Rightarrow> 'a list" where
  "finished_of (Finish _ x) = [x]"
| "finished_of _ = []"

fun running_of :: "'a worker \<Rightarrow> 'a list" where
  "running_of (Running x) = [x]"
| "running_of _ = []"

definition accepted :: "'a event list \<Rightarrow> 'a list" where "accepted tr = concat (map accepted_of tr)"
definition taken :: "'a event list \<Rightarrow> 'a list" where "taken tr = concat (map taken_of tr)"
definition finished :: "'a event list \<Rightarrow> 'a list" where "finished tr = concat (map finished_of tr)"

definition running :: "'a worker list \<Rightarrow> 'a multiset" where "running ws = mset (concat (map running_of ws))"

lemma running_update:
  assumes "i < length ws"
  shows "running (ws[i := t]) + mset (running_of (ws ! i)) = running ws + mset (running_of t)"
proof -
  have "running ws = running (take i ws @ ws ! i # drop (Suc i) ws)" using id_take_nth_drop [OF assms] by simp
  then show ?thesis by (simp add: running_def upd_conv_take_nth_drop [OF assms])
qed

lemma running_of_wake: "running_of (wake_worker t) = running_of t"
  by (cases t) simp_all

lemma running_wake: "running (map wake_worker ws) = running ws"
  by (simp add: running_def running_of_wake o_def)

lemma running_notify:
  assumes "notify_one asleep wake_worker ws ws'"
  shows "running ws' = running ws"
  using assms unfolding notify_one_iff
proof (elim disjE exE conjE)
  fix i
  assume "i < length ws" and "ws' = ws[i := wake_worker (ws ! i)]"
  then show "running ws' = running ws"
    using running_update [of i ws "wake_worker (ws ! i)"] by (simp add: running_of_wake)
qed simp

lemma fifo_step:
  assumes "pool_step s e s'"
  shows "bq_items (tp_queue s) @ accepted_of e = taken_of e @ bq_items (tp_queue s')"
    and "bq_capacity (tp_queue s') = bq_capacity (tp_queue s)"
  using assms by (cases rule: pool_step.cases; auto simp: bq.closing dest!: bq.inversion)+

lemma running_step:
  assumes "pool_step s e s'"
  shows "running (tp_workers s) + mset (taken_of e) = mset (finished_of e) + running (tp_workers s')"
  using assms
proof (cases rule: pool_step.cases)
  case (push_accepts j x q ws)
  then show ?thesis using running_notify [OF push_accepts(6)] by simp
next
  case (pop_gives i x q ss)
  then show ?thesis using running_update [OF pop_gives(3), of "Running x"] by simp
next
  case (task_done i x)
  then show ?thesis using running_update [OF task_done(3), of AtPop] by simp
next
  case (pop_ends i q)
  then show ?thesis using running_update [OF pop_ends(3), of Ended] by simp
next
  case (pop_sleeps i)
  then show ?thesis using running_update [OF pop_sleeps(3), of Asleep] by simp
next
  case (pop_wakes i)
  then show ?thesis using running_update [OF pop_wakes(3), of AtPop] by simp
next
  case stop_wake_workers
  then show ?thesis by (simp add: running_wake)
qed simp_all

lemma tasks_run:
  assumes "pool_run (thread_pool n c m) tr s"
  shows "accepted tr = taken tr @ bq_items (tp_queue s)"
    and "mset (taken tr) = mset (finished tr) + running (tp_workers s)"
    and "bq_capacity (tp_queue s) = (if c = 0 then 1 else c)"
proof -
  have "accepted tr = taken tr @ bq_items (tp_queue s) \<and> mset (taken tr) = mset (finished tr) + running (tp_workers s)
      \<and> bq_capacity (tp_queue s) = (if c = 0 then 1 else c)"
    using assms
  proof (induction "thread_pool n c m :: 'a pool" tr s rule: pool_run.induct)
    case none
    have "concat (map running_of (replicate k (AtPop :: 'a worker))) = []" for k by (induction k) simp_all
    then show ?case by (simp add: thread_pool_def bounded_queue_def accepted_def taken_def finished_def running_def)
  next
    case (snoc tr s1 e s2)
    then show ?case
      using fifo_step [OF snoc(3)] running_step [OF snoc(3)]
      by (simp add: accepted_def taken_def finished_def add.assoc)
  qed
  then show "accepted tr = taken tr @ bq_items (tp_queue s)"
    "mset (taken tr) = mset (finished tr) + running (tp_workers s)"
    "bq_capacity (tp_queue s) = (if c = 0 then 1 else c)" by blast+
qed

section \<open>No wakeup is lost\<close>

text \<open>
  The steps the pool makes by itself: not the calls from outside, and not a wait that returns
  without having been notified.
\<close>

fun own :: "'a event \<Rightarrow> bool" where
  "own (Call _ _) = False"
| "own StopCalled = False"
| "own StopLoses = False"
| "own (WakePush _) = False"
| "own (WakePop _) = False"
| "own _ = True"

definition stuck :: "'a pool \<Rightarrow> bool" where
  "stuck s \<longleftrightarrow> (\<forall>e s'. own e \<longrightarrow> \<not> pool_step s e s')"

lemma stuckD: "stuck s \<Longrightarrow> pool_step s e s' \<Longrightarrow> own e \<Longrightarrow> False"
  by (auto simp: stuck_def)

lemma stuck_workers:
  assumes "stuck s" and "t \<in> set (tp_workers s)"
  shows "t = Asleep \<or> t = Ended"
proof (cases t)
  case AtPop
  obtain i where i: "i < length (tp_workers s)" "tp_workers s ! i = AtPop"
    using assms(2) AtPop by (metis in_set_conv_nth)
  obtain ss where ss: "notify_one awaits wake_submitter (tp_submitters s) ss" using notify_one_some by blast
  show ?thesis
  proof (cases "pop (tp_queue s)")
    case None
    then show ?thesis using stuckD [OF assms(1) pop_sleeps [OF i]] by simp
  next
    case (Some r)
    obtain o' q where r: "r = (o', q)" by (rule prod.exhaust)
    show ?thesis
    proof (cases o')
      case None
      then show ?thesis using stuckD [OF assms(1) pop_ends [OF i]] Some r by fastforce
    next
      case (Some x)
      then show ?thesis using stuckD [OF assms(1) pop_gives [OF i _ ss]] \<open>pop (tp_queue s) = Some r\<close> r by fastforce
    qed
  qed
next
  case (Running x)
  then obtain i where "i < length (tp_workers s)" "tp_workers s ! i = Running x"
    using assms(2) by (metis in_set_conv_nth)
  from stuckD [OF assms(1) task_done [OF this]] show ?thesis by simp
qed simp_all

lemma stuck_submitters:
  assumes "stuck s" and "t \<in> set (tp_submitters s)"
  shows "t = Elsewhere \<or> (\<exists>x. t = AwaitsRoom x)"
proof (cases t)
  case (AtSubmit x)
  obtain j where j: "j < length (tp_submitters s)" "tp_submitters s ! j = AtSubmit x"
    using assms(2) AtSubmit by (metis in_set_conv_nth)
  show ?thesis
    using stuckD [OF assms(1) submit_stopped [OF j]] stuckD [OF assms(1) submit_open [OF j]]
    by (cases "tp_stopped s") simp_all
next
  case (AtPush x)
  obtain j where j: "j < length (tp_submitters s)" "tp_submitters s ! j = AtPush x"
    using assms(2) AtPush by (metis in_set_conv_nth)
  obtain ws where ws: "notify_one asleep wake_worker (tp_workers s) ws" using notify_one_some by blast
  show ?thesis
  proof (cases "push x (tp_queue s)")
    case None
    then show ?thesis using stuckD [OF assms(1) push_sleeps [OF j]] by simp
  next
    case (Some r)
    obtain b q where "r = (b, q)" by (rule prod.exhaust)
    then show ?thesis
      using stuckD [OF assms(1) push_accepts [OF j _ ws]] stuckD [OF assms(1) push_refuses [OF j]] Some
      by (cases b) fastforce+
  qed
qed simp_all

text \<open>The pool has nothing to do: it waits for tasks, or has ended.\<close>

definition idle :: "'a pool \<Rightarrow> bool" where
  "idle s \<longleftrightarrow> tp_stopper s = Open \<and> bq_items (tp_queue s) = []
     \<and> list_all (\<lambda>t. t = Asleep) (tp_workers s) \<and> list_all (\<lambda>t. t = Elsewhere) (tp_submitters s)"

definition stopped :: "'a pool \<Rightarrow> bool" where
  "stopped s \<longleftrightarrow> shutdown_returned s \<and> bq_items (tp_queue s) = []
     \<and> list_all (\<lambda>t. t = Ended) (tp_workers s) \<and> list_all (\<lambda>t. t = Elsewhere) (tp_submitters s)"

lemma count_if_none: "count_if P ts = 0 \<longleftrightarrow> (\<forall>t \<in> set ts. \<not> P t)"
  using count_if_pos [of P ts] by auto

lemma stuck_iff_done:
  assumes inv: "pool_inv s" and stuck: "stuck s"
  shows "idle s \<or> stopped s"
proof -
  note w = stuck_workers [OF stuck] and b = stuck_submitters [OF stuck]
  have ready: "count_if at_pop (tp_workers s) = 0" "count_if at_push (tp_submitters s) = 0"
    using w b by (fastforce simp: count_if_none)+
  show ?thesis
  proof (cases "tp_stopper s")
    case Open
    then have open_queue: "\<not> bq_shutdown (tp_queue s)" using inv by (simp add: pool_inv_def stopper_ok_def)
    then have "count_if ended (tp_workers s) = 0" using inv by (simp add: pool_inv_def workers_ok_def)
    then have sleep: "\<forall>t \<in> set (tp_workers s). t = Asleep" using w by (fastforce simp: count_if_none)
    moreover have "tp_workers s \<noteq> []" using inv by (simp add: pool_inv_def queue_ok_def)
    ultimately have "0 < count_if asleep (tp_workers s)" by (cases "tp_workers s") (simp_all add: count_if_def)
    then have empty: "bq_items (tp_queue s) = []" using inv ready by (simp add: pool_inv_def workers_ok_def)
    then have "count_if awaits (tp_submitters s) = 0"
      using inv ready open_queue by (auto simp: pool_inv_def submitters_ok_def queue_ok_def)
    then have "\<forall>t \<in> set (tp_submitters s). t = Elsewhere" using b by (fastforce simp: count_if_none)
    then show ?thesis using Open empty sleep by (simp add: idle_def list_all_iff)
  next
    case (Joining k)
    then have "\<forall>t \<in> set (tp_workers s). t = Ended" "\<forall>t \<in> set (tp_submitters s). t = Elsewhere"
      using inv w b by (fastforce simp: pool_inv_def stopper_ok_def count_if_none)+
    moreover have "tp_workers s \<noteq> []" "k \<le> length (tp_workers s)"
      using inv Joining by (simp_all add: pool_inv_def queue_ok_def joined_ok_def)
    moreover from calculation have "0 < count_if ended (tp_workers s)" by (cases "tp_workers s") (simp_all add: count_if_def)
    then have "bq_items (tp_queue s) = []" using inv by (simp add: pool_inv_def workers_ok_def)
    moreover have "\<not> k < length (tp_workers s)"
      using stuckD [OF stuck stop_join [OF Joining]] calculation(1) nth_mem by fastforce
    ultimately show ?thesis using Joining by (simp add: stopped_def shutdown_returned_def list_all_iff)
  qed (use stuckD [OF stuck stop_close] stuckD [OF stuck stop_wake_workers] stuckD [OF stuck stop_wake_submitters] in auto)
qed

section \<open>The pool comes to rest\<close>

fun worker_work :: "'a worker \<Rightarrow> nat" where
  "worker_work (Running _) = 3"
| "worker_work AtPop = 2"
| "worker_work Asleep = 1"
| "worker_work Ended = 0"

fun submitter_work :: "'a submitter \<Rightarrow> nat" where
  "submitter_work (AtSubmit _) = 6"
| "submitter_work (AtPush _) = 5"
| "submitter_work (AwaitsRoom _) = 4"
| "submitter_work Elsewhere = 0"

fun stop_work :: "nat \<Rightarrow> nat \<Rightarrow> stopper \<Rightarrow> nat" where
  "stop_work n m Open = 0"
| "stop_work n m Exchanged = 3 + 2 * n + m"
| "stop_work n m Closed = 2 + 2 * n + m"
| "stop_work n m WokeWorkers = 1 + n + m"
| "stop_work n m (Joining k) = n - k"

definition pool_work :: "'a pool \<Rightarrow> nat" where
  "pool_work s = 3 * length (bq_items (tp_queue s)) + sum_list (map worker_work (tp_workers s))
     + sum_list (map submitter_work (tp_submitters s))
     + stop_work (length (tp_workers s)) (length (tp_submitters s)) (tp_stopper s)"

lemma sum_update:
  fixes f :: "'t \<Rightarrow> nat"
  assumes "i < length ts"
  shows "sum_list (map f (ts[i := t])) + f (ts ! i) = sum_list (map f ts) + f t"
proof -
  have "sum_list (map f ts) = sum_list (map f (take i ts @ ts ! i # drop (Suc i) ts))" using id_take_nth_drop [OF assms] by simp
  then show ?thesis by (simp add: upd_conv_take_nth_drop [OF assms])
qed

lemma sum_notify_worker:
  "notify_one asleep wake_worker ws ws' \<Longrightarrow> sum_list (map worker_work ws') \<le> sum_list (map worker_work ws) + 1"
  using sum_update [of _ ws worker_work AtPop] by (fastforce simp: notify_one_iff asleep_def)

lemma sum_notify_submitter:
  "notify_one awaits wake_submitter ss ss' \<Longrightarrow> sum_list (map submitter_work ss') \<le> sum_list (map submitter_work ss) + 1"
  using sum_update [of _ ss submitter_work "AtPush _"] by (fastforce simp: notify_one_iff awaits_iff)

lemma sum_map_le:
  fixes f :: "'t \<Rightarrow> nat"
  assumes "\<And>t. f (g t) \<le> Suc (f t)"
  shows "sum_list (map f (map g ts)) \<le> sum_list (map f ts) + length ts"
proof (induction ts)
  case (Cons t ts)
  then show ?case using assms [of t] by simp
qed simp

lemma sum_wake:
  "sum_list (map worker_work (map wake_worker ws)) \<le> sum_list (map worker_work ws) + length ws"
  "sum_list (map submitter_work (map wake_submitter ss)) \<le> sum_list (map submitter_work ss) + length ss"
proof -
  have "worker_work (wake_worker t) \<le> Suc (worker_work t)" for t :: "'a worker" by (cases t) simp_all
  then show "sum_list (map worker_work (map wake_worker ws)) \<le> sum_list (map worker_work ws) + length ws"
    by (rule sum_map_le)
  have "submitter_work (wake_submitter t) \<le> Suc (submitter_work t)" for t :: "'b submitter" by (cases t) simp_all
  then show "sum_list (map submitter_work (map wake_submitter ss)) \<le> sum_list (map submitter_work ss) + length ss"
    by (rule sum_map_le)
qed

lemma pool_work_step:
  assumes "pool_step s e s'" and "own e"
  shows "pool_work s' < pool_work s"
  using assms(1)
proof (cases rule: pool_step.cases)
  case (submit_stopped j x)
  then show ?thesis using sum_update [OF submit_stopped(3), of submitter_work Elsewhere] by (simp add: pool_work_def)
next
  case (submit_open j x)
  then show ?thesis using sum_update [OF submit_open(3), of submitter_work "AtPush x"] by (simp add: pool_work_def)
next
  case (push_accepts j x q ws)
  then have "bq_items q = bq_items (tp_queue s) @ [x]" by (auto dest: bq.inversion)
  then show ?thesis
    using push_accepts sum_update [OF push_accepts(3), of submitter_work Elsewhere] sum_notify_worker [OF push_accepts(6)]
      notify_one_length [OF push_accepts(6)]
    by (simp add: pool_work_def)
next
  case (push_refuses j x q)
  then have "q = tp_queue s" by (auto dest: bq.inversion)
  then show ?thesis
    using push_refuses sum_update [OF push_refuses(3), of submitter_work Elsewhere] by (simp add: pool_work_def)
next
  case (push_sleeps j x)
  then show ?thesis using sum_update [OF push_sleeps(3), of submitter_work "AwaitsRoom x"] by (simp add: pool_work_def)
next
  case (pop_gives i x q ss)
  then have "bq_items (tp_queue s) = x # bq_items q" by (auto dest: bq.inversion)
  then show ?thesis
    using pop_gives sum_update [OF pop_gives(3), of worker_work "Running x"] sum_notify_submitter [OF pop_gives(6)]
      notify_one_length [OF pop_gives(6)]
    by (simp add: pool_work_def)
next
  case (pop_ends i q)
  then have "q = tp_queue s" by (auto dest: bq.inversion)
  then show ?thesis using pop_ends sum_update [OF pop_ends(3), of worker_work Ended] by (simp add: pool_work_def)
next
  case (pop_sleeps i)
  then show ?thesis using sum_update [OF pop_sleeps(3), of worker_work Asleep] by (simp add: pool_work_def)
next
  case (task_done i x)
  then show ?thesis using sum_update [OF task_done(3), of worker_work AtPop] by (simp add: pool_work_def)
next
  case stop_close
  then show ?thesis by (simp add: pool_work_def bq.closing)
next
  case stop_wake_workers
  then show ?thesis using sum_wake(1) [of "tp_workers s"] by (simp add: pool_work_def del: map_map)
next
  case stop_wake_submitters
  then show ?thesis using sum_wake(2) [of "tp_submitters s"] by (simp add: pool_work_def del: map_map)
next
  case (stop_join k)
  then show ?thesis by (simp add: pool_work_def)
qed (use assms(2) in simp_all)

lemma pool_work_run:
  "pool_run s tr s' \<Longrightarrow> list_all own tr \<Longrightarrow> length tr + pool_work s' \<le> pool_work s"
proof (induction rule: pool_run.induct)
  case (snoc s tr s1 e s2)
  then show ?case using pool_work_step [OF snoc.hyps(2)] by simp
qed simp

lemma stopper_moves_on: "pool_step s e s' \<Longrightarrow> tp_stopper s \<noteq> Open \<Longrightarrow> tp_stopper s' \<noteq> Open"
  by (erule pool_stepE) simp_all

lemma stopper_run: "pool_run s tr s' \<Longrightarrow> tp_stopper s \<noteq> Open \<Longrightarrow> tp_stopper s' \<noteq> Open"
  by (induction rule: pool_run.induct) (blast dest: stopper_moves_on)+

lemma pool_run_append: "pool_run s1 tr' s2 \<Longrightarrow> pool_run s tr s1 \<Longrightarrow> pool_run s (tr @ tr') s2"
proof (induction rule: pool_run.induct)
  case (snoc s1 tr' s2 e s3)
  then show ?case unfolding append_assoc [symmetric] by (blast intro: pool_run.snoc)
qed simp

lemma pool_rests: "\<exists>tr s'. pool_run s tr s' \<and> list_all own tr \<and> stuck s'"
proof (induction "pool_work s" arbitrary: s rule: less_induct)
  case less
  show ?case
  proof (cases "stuck s")
    case False
    then obtain e s1 where step: "own e" "pool_step s e s1" by (auto simp: stuck_def)
    obtain tr s' where tr: "pool_run s1 tr s'" "list_all own tr" "stuck s'"
      using less [OF pool_work_step [OF step(2,1)]] by blast
    have "pool_run s ([] @ [e]) s1" by (rule pool_run.snoc [OF pool_run.none step(2)])
    from pool_run_append [OF tr(1) this] show ?thesis using tr step(1) by (intro exI [of _ "[e] @ tr"]) auto
  next
    case True
    then show ?thesis using pool_run.none [of s] by (intro exI [of _ "[]"] exI [of _ s]) simp
  qed
qed

lemma stopping_ends:
  assumes "pool_inv s" and "tp_stopped s" and "pool_run s tr s'" and "stuck s'"
  shows "stopped s'"
proof -
  have "tp_stopper s \<noteq> Open" using assms(1,2) by (auto simp: pool_inv_def stopper_ok_def)
  then have "tp_stopper s' \<noteq> Open" using stopper_run [OF assms(3)] by blast
  then show ?thesis using stuck_iff_done [OF pool_inv_run [OF assms(3,1)] assms(4)] by (auto simp: idle_def)
qed

lemma returned_ends:
  assumes "pool_inv s" and "shutdown_returned s"
  shows "list_all (\<lambda>t. t = Ended) (tp_workers s) \<and> bq_items (tp_queue s) = [] \<and> running (tp_workers s) = {#}"
proof -
  have all: "\<forall>t \<in> set (tp_workers s). t = Ended"
    using assms by (auto simp: pool_inv_def joined_ok_def shutdown_returned_def in_set_conv_nth)
  moreover have "tp_workers s \<noteq> []" using assms(1) by (simp add: pool_inv_def queue_ok_def)
  ultimately have "0 < count_if ended (tp_workers s)" by (cases "tp_workers s") (simp_all add: count_if_def)
  then have "bq_items (tp_queue s) = []" using assms(1) by (simp add: pool_inv_def workers_ok_def)
  moreover have "concat (map running_of (tp_workers s)) = []" using all by auto
  ultimately show ?thesis using all by (simp add: running_def list_all_iff)
qed

section \<open>Properties\<close>

text \<open>C16: the pool runs tasks in order and loses none. In every run of a pool, whatever its threads do,
  the queue never holds more than its capacity, and the tasks whose \<open>submit\<close> returned true, in the
  order they were accepted, are those the workers have taken, in the order they were taken, followed
  by those in the queue.\<close>

theorem queue_fifo:
  assumes "pool_run (thread_pool workers capacity submitters) tr s"
  shows "length (bq_items (tp_queue s)) \<le> (if capacity = 0 then 1 else capacity)
    \<and> accepted tr = taken tr @ bq_items (tp_queue s)"
  using tasks_run [OF assms] pool_inv_run [OF assms pool_inv_start] by (auto simp: pool_inv_def queue_ok_def)

text \<open>C13: no wakeup is lost. In every state a pool can reach, some thread can go on without a call from
  outside and without a wait that returns by itself, or the pool is idle (open, with an empty queue,
  all workers asleep and nobody submitting), or it has ended (\<open>shutdown\<close> returned, all workers have
  left, and the queue is empty).\<close>

theorem pool_never_stuck:
  assumes "pool_run (thread_pool workers capacity submitters) tr s"
  shows "(\<exists>e s'. own e \<and> pool_step s e s') \<or> idle s \<or> stopped s"
  using stuck_iff_done [OF pool_inv_run [OF assms pool_inv_start]] by (auto simp: stuck_def)

text \<open>C15: a shutdown loses no task. When \<open>shutdown\<close> has returned, every worker has left its loop, and the
  tasks that have finished are the tasks that were accepted, each as often.\<close>

theorem shutdown_runs_all:
  assumes "pool_run (thread_pool workers capacity submitters) tr s" and "shutdown_returned s"
  shows "list_all (\<lambda>t. t = Ended) (tp_workers s) \<and> taken tr = accepted tr \<and> mset (finished tr) = mset (accepted tr)"
  using tasks_run [OF assms(1)] returned_ends [OF pool_inv_run [OF assms(1) pool_inv_start] assms(2)] by simp

text \<open>C14: a shutdown returns. From every state of a pool in which \<open>shutdown\<close> was called, the threads make a
  bounded number of steps (without new calls from outside and waits that return by themselves, every
  task being one that returns), whatever their order, and where no more is possible \<open>shutdown\<close> has
  returned and all workers have left.\<close>

theorem shutdown_terminates:
  assumes "pool_run (thread_pool workers capacity submitters) tr s" and "tp_stopped s"
  shows "(\<forall>tr' s'. pool_run s tr' s' \<longrightarrow> list_all own tr' \<longrightarrow>
      length tr' \<le> pool_work s \<and> (stopped s' \<or> (\<exists>e s2. own e \<and> pool_step s' e s2)))
    \<and> (\<exists>tr' s'. pool_run s tr' s' \<and> list_all own tr' \<and> stopped s')"
proof (intro conjI allI impI)
  note inv = pool_inv_run [OF assms(1) pool_inv_start]
  show "length tr' \<le> pool_work s" if "pool_run s tr' s'" "list_all own tr'" for tr' s'
    using pool_work_run [OF that] by simp
  show "stopped s' \<or> (\<exists>e s2. own e \<and> pool_step s' e s2)" if "pool_run s tr' s'" "list_all own tr'" for tr' s'
    using stopping_ends [OF inv assms(2) that(1)] by (auto simp: stuck_def)
  show "\<exists>tr' s'. pool_run s tr' s' \<and> list_all own tr' \<and> stopped s'"
    using pool_rests [of s] stopping_ends [OF inv assms(2)] by blast
qed

text \<open>The pool of the server (BackupServer.cpp, the constructor).\<close>

definition server_pool :: "nat \<Rightarrow> nat \<Rightarrow> 'a pool" where
  "server_pool workers submitters = thread_pool (if workers = 0 then 1 else workers) 128 submitters"

lemma server_pool_eq: "server_pool workers submitters = thread_pool workers 128 submitters"
  by (simp add: server_pool_def thread_pool_def)

text \<open>A pool of one worker, with room for one task, that takes a task, runs it and is shut down.\<close>

definition small_pool :: "string worker \<Rightarrow> string submitter \<Rightarrow> string list \<Rightarrow> stopper \<Rightarrow> string pool" where
  "small_pool t b xs st = \<lparr>tp_queue = \<lparr>bq_capacity = 1, bq_items = xs, bq_shutdown = 2 \<le> stage st\<rparr>,
     tp_stopped = (1 \<le> stage st), tp_workers = [t], tp_submitters = [b], tp_stopper = st\<rparr>"

lemma small_pool_start: "thread_pool 0 0 1 = small_pool AtPop Elsewhere [] Open"
  by (simp add: small_pool_def thread_pool_def bounded_queue_def)

lemma small_notify:
  "notify_one asleep wake_worker [AtPop] [AtPop]" "notify_one awaits wake_submitter [Elsewhere] [Elsewhere]"
  by (auto intro: notify_one.nobody)

lemma small_steps:
  "pool_step (small_pool AtPop Elsewhere [] Open) (Call 0 ''t'') (small_pool AtPop (AtSubmit ''t'') [] Open)"
  "pool_step (small_pool AtPop (AtSubmit ''t'') [] Open) (Enter 0) (small_pool AtPop (AtPush ''t'') [] Open)"
  "pool_step (small_pool AtPop (AtPush ''t'') [] Open) (Accept 0 ''t'') (small_pool AtPop Elsewhere [''t''] Open)"
  "pool_step (small_pool AtPop Elsewhere [''t''] Open) (Take 0 ''t'') (small_pool (Running ''t'') Elsewhere [] Open)"
  "pool_step (small_pool (Running ''t'') Elsewhere [] Open) StopCalled (small_pool (Running ''t'') Elsewhere [] Exchanged)"
  "pool_step (small_pool (Running ''t'') Elsewhere [] Exchanged) StopStep (small_pool (Running ''t'') Elsewhere [] Closed)"
  "pool_step (small_pool (Running ''t'') Elsewhere [] Closed) StopStep (small_pool (Running ''t'') Elsewhere [] WokeWorkers)"
  "pool_step (small_pool (Running ''t'') Elsewhere [] WokeWorkers) StopStep (small_pool (Running ''t'') Elsewhere [] (Joining 0))"
  "pool_step (small_pool (Running ''t'') Elsewhere [] (Joining 0)) (Finish 0 ''t'') (small_pool AtPop Elsewhere [] (Joining 0))"
  "pool_step (small_pool AtPop Elsewhere [] (Joining 0)) (Leave 0) (small_pool Ended Elsewhere [] (Joining 0))"
  "pool_step (small_pool Ended Elsewhere [] (Joining 0)) StopStep (small_pool Ended Elsewhere [] (Joining 1))"
  by (auto simp: pool_step.simps small_pool_def push_def pop_def shutdown_queue_def small_notify)

lemma small_run:
  "pool_run (thread_pool 0 0 1) [Call 0 ''t'', Enter 0, Accept 0 ''t''] (small_pool AtPop Elsewhere [''t''] Open)"
  "pool_run (thread_pool 0 0 1) [Call 0 ''t'', Enter 0, Accept 0 ''t'', Take 0 ''t'', StopCalled]
     (small_pool (Running ''t'') Elsewhere [] Exchanged)"
  "pool_run (thread_pool 0 0 1) [Call 0 ''t'', Enter 0, Accept 0 ''t'', Take 0 ''t'', StopCalled, StopStep, StopStep,
     StopStep, Finish 0 ''t'', Leave 0, StopStep] (small_pool Ended Elsewhere [] (Joining 1))"
proof -
  note go = pool_run.snoc [OF _ small_steps(1)] pool_run.snoc [OF _ small_steps(2)] pool_run.snoc [OF _ small_steps(3)]
    pool_run.snoc [OF _ small_steps(4)] pool_run.snoc [OF _ small_steps(5)] pool_run.snoc [OF _ small_steps(6)]
    pool_run.snoc [OF _ small_steps(7)] pool_run.snoc [OF _ small_steps(8)] pool_run.snoc [OF _ small_steps(9)]
    pool_run.snoc [OF _ small_steps(10)] pool_run.snoc [OF _ small_steps(11)]
  have "pool_run (thread_pool 0 0 1) [] (small_pool AtPop Elsewhere [] Open)"
    unfolding small_pool_start by (rule pool_run.none)
  note r3 = go(3) [OF go(2) [OF go(1) [OF this]]]
  note r5 = go(5) [OF go(4) [OF r3]]
  note r11 = go(11) [OF go(10) [OF go(9) [OF go(8) [OF go(7) [OF go(6) [OF r5]]]]]]
  show "pool_run (thread_pool 0 0 1) [Call 0 ''t'', Enter 0, Accept 0 ''t''] (small_pool AtPop Elsewhere [''t''] Open)"
    using r3 by simp
  show "pool_run (thread_pool 0 0 1) [Call 0 ''t'', Enter 0, Accept 0 ''t'', Take 0 ''t'', StopCalled]
     (small_pool (Running ''t'') Elsewhere [] Exchanged)"
    using r5 by simp
  show "pool_run (thread_pool 0 0 1) [Call 0 ''t'', Enter 0, Accept 0 ''t'', Take 0 ''t'', StopCalled, StopStep, StopStep,
     StopStep, Finish 0 ''t'', Leave 0, StopStep] (small_pool Ended Elsewhere [] (Joining 1))"
    using r11 by simp
qed

theorem queue_fifo_witness:
  "length (bq_items (tp_queue (small_pool AtPop Elsewhere [''t''] Open))) \<le> 1
    \<and> accepted [Call 0 ''t'', Enter 0, Accept 0 ''t'']
        = taken [Call 0 ''t'', Enter 0, Accept 0 ''t''] @ bq_items (tp_queue (small_pool AtPop Elsewhere [''t''] Open))"
  using queue_fifo [OF small_run(1)] by simp

theorem pool_never_stuck_witness:
  "\<exists>e s'. own e \<and> pool_step (small_pool AtPop Elsewhere [''t''] Open) e s'"
  using pool_never_stuck [OF small_run(1)] by (auto simp: idle_def stopped_def small_pool_def)

theorem shutdown_runs_all_witness:
  "mset (finished [Call 0 ''t'', Enter 0, Accept 0 ''t'', Take 0 ''t'', StopCalled, StopStep, StopStep,
     StopStep, Finish 0 ''t'', Leave 0, StopStep]) = {#''t''#}"
  using shutdown_runs_all [OF small_run(3)] by (simp add: shutdown_returned_def small_pool_def accepted_def)

theorem shutdown_terminates_witness:
  "\<exists>tr' s'. pool_run (small_pool (Running ''t'') Elsewhere [] Exchanged) tr' s' \<and> list_all own tr' \<and> stopped s'"
  using shutdown_terminates [OF small_run(2)] by (simp add: small_pool_def)

end
