(* ===== verification/DPC_Copy.thy ===== *)
theory DPC_Copy
  imports DPC_Restore "HOL-Library.Multiset"
begin

text \<open>
  What a backup and a restore make of a directory when nothing was in the way: the same directory
  (src/src/core/BackupEngine.cpp, RestoreEngine.cpp), byte for byte, as the self-check of
  src/src/bench/backup_bench_main.cpp compares them.
\<close>

section \<open>Comparing directories (backup_bench_main.cpp)\<close>

text \<open>The regular files below a directory, as relative paths in the order of \<open>std::filesystem::path\<close>.\<close>

definition regularFilesUnder :: "fs \<Rightarrow> path \<Rightarrow> path list res" where
  "regularFilesUnder d root =
     (if \<not> is_dir d root then Inl (StdException ''recursive directory iterator cannot open directory'')
      else Inr (sort_key (map (map char_code))
             (map (drop (length (walk root))) (filter (is_file_place d) (recursive_entries d root)))))"

fun require_same_files :: "fs \<Rightarrow> path \<Rightarrow> path \<Rightarrow> path list \<Rightarrow> unit res" where
  "require_same_files d expected actual [] = Inr ()"
| "require_same_files d expected actual (rel # rels) =
     rbind (readFile d (expected @ rel)) (\<lambda>expected_data.
     rbind (readFile d (actual @ rel)) (\<lambda>actual_data.
     if expected_data \<noteq> actual_data
     then Inl (DpcError (''benchmark restore content mismatch: '' @ path_string rel))
     else require_same_files d expected actual rels))"

definition requireDirectoriesEqual :: "fs \<Rightarrow> path \<Rightarrow> path \<Rightarrow> unit res" where
  "requireDirectoriesEqual d expected actual =
     rbind (regularFilesUnder d expected) (\<lambda>expected_files.
     rbind (regularFilesUnder d actual) (\<lambda>actual_files.
     if expected_files \<noteq> actual_files then Inl (DpcError ''benchmark restore file list mismatch'')
     else require_same_files d expected actual expected_files))"

section \<open>What an atomic write changes\<close>

lemma same_elsewhere_trans:
  "untouched K d0 d1 \<Longrightarrow> untouched K' d1 d2 \<Longrightarrow> untouched (K \<inter> K') d0 d2"
  unfolding untouched_def by blast

lemma untouched_fewer: "untouched K d0 d \<Longrightarrow> K' \<subseteq> K \<Longrightarrow> untouched K' d0 d"
  unfolding untouched_def by blast

lemma makeTempPath_disk: "makeTempPath p w = (r, w') \<Longrightarrow> disk w' = disk w"
  by (auto simp: makeTempPath_def)

lemma rename_call_cases:
  "rename_call a b d = Inr d' \<Longrightarrow> a = b \<and> d' = d \<or> a \<noteq> b \<and> (\<exists>v. d' = AList.delete a (AList.update b v d))"
  by (auto simp: rename_call_def split: option.splits node.splits if_splits)

lemma chmod_call_cases: "chmod_call k mode d = Inr d' \<Longrightarrow> d' = d \<or> (\<exists>v. d' = AList.update k v d)"
  by (auto simp: chmod_call_def split: option.splits node.splits)

text \<open>When it returned, the file it was asked to write is the only one that is new or changed.\<close>

lemma writeFileAtomic_only:
  assumes "writeFileAtomic p data mode w = (Inr u, w')"
  shows "untouched (- {walk p}) (disk w) (disk w')"
proof -
  obtain w1 t w2 um w3 w4 w5 w6 where
    dir: "ensureDirectory (butlast p) w = (Inr (), w1)"
    and t: "makeTempPath p w1 = (Inr t, w2)"
    and creat: "sys (''open temp file failed: '' @ path_string t) (creat_excl_call (walk t) (mode AND NOT um)) w2 = (Inr (), w3)"
    and wr: "(if data \<noteq> [] then writeAll (walk t) data else io_return ()) w3 = (Inr (), w4)"
    and sync: "fsyncFd (path_string t) w4 = (Inr (), w5)"
    and ren: "sys_try (rename_call (walk t) (walk p)) w5 = (Inr None, w6)"
    and fin: "fsyncDirectory (butlast p) w6 = (Inr u, w')"
    using assms unfolding writeFileAtomic_def
    by (auto simp: res_simps split: option.splits)
  have d1: "untouched UNIV (disk w) (disk w1)"
    using keepsD_eq [OF keeps_ensureDirectory_untouched _ dir] by simp
  have d2: "disk w2 = disk w1" by (rule makeTempPath_disk [OF t])
  have none: "node_at (disk w2) (walk t) = None"
    and d3: "disk w3 = AList.update (walk t) (File [] (mode AND NOT um)) (disk w2)"
    using sys_Inr [OF creat] by (auto simp: creat_excl_call_def split: if_splits)
  have d4: "node_at (disk w4) k = node_at (disk w3) k" if "k \<noteq> walk t" for k
    using wr that by (auto dest: writeAll_ok split: if_splits)
  have d5: "disk w5 = disk w4" by (rule fsyncFd_disk [OF sync])
  have d7: "disk w' = disk w6"
    using keepsD_eq [OF keeps_fsyncDirectory [of "\<lambda>d. d = disk w6"] _ fin] by simp
  have "rename_call (walk t) (walk p) (disk w5) = Inr (disk w6)" using sys_try_Inr_None [OF ren] by auto
  then have d6: "walk t = walk p \<and> disk w6 = disk w5
      \<or> walk t \<noteq> walk p \<and> (\<exists>v. disk w6 = AList.delete (walk t) (AList.update (walk p) v (disk w5)))"
    by (rule rename_call_cases)
  have "node_at (disk w') k = Some (File c m) \<longleftrightarrow> node_at (disk w2) k = Some (File c m)" if "k \<noteq> walk p" for k c m
  proof (cases "k = walk t")
    case True
    then have "k \<noteq> [] \<and> k \<noteq> [[slash]]" using node_at_None_root [OF none] by simp
    then show ?thesis using True that d6 d7 none by (auto simp: node_at_delete_same)
  next
    case False
    then have "node_at (disk w') k = node_at (disk w5) k" using d6 d7 that by auto
    also have "\<dots> = node_at (disk w2) k" using d3 d4 [OF False] d5 False by simp
    finally show ?thesis by simp
  qed
  then have "untouched (- {walk p}) (disk w1) (disk w')" by (simp add: untouched_def d2)
  then show ?thesis using same_elsewhere_trans [OF d1] by simp
qed

lemma restore_file_only:
  assumes "restore_file T repo target f w = (Inr u, w')"
  shows "untouched (- {target_place target f}) (disk w) (disk w')"
proof -
  obtain c p w1 where c: "assemble T (disk w) repo f = Inr c"
    and p: "safeRelativePath (relative_path f) ''manifest relative_path'' = Inr p"
    and wrt: "writeFileAtomic (target @ p) c (file_mode f) w = (Inr (), w1)"
    and md: "setFileMode (target @ p) (file_mode f) w1 = (Inr u, w')"
    using assms by (auto simp: restore_file_def res_simps)
  have "untouched (- {walk (target @ p)}) (disk w1) (disk w')"
  proof -
    have "chmod_call (walk (target @ p)) (file_mode f) (disk w1) = Inr (disk w')"
      using md by (auto simp: setFileMode_def dest: sys_Inr)
    from chmod_call_cases [OF this] show ?thesis
      using untouched_update [OF untouched_refl, of "walk (target @ p)" "- {walk (target @ p)}"] by auto
  qed
  from same_elsewhere_trans [OF writeFileAtomic_only [OF wrt] this]
  show ?thesis by (simp add: target_place_def p)
qed

lemma restore_files_only:
  "io_foreach (restore_file T repo target) fs w = (Inr u, w') \<Longrightarrow>
     untouched (- target_place target ` set fs) (disk w) (disk w')"
proof (induction fs arbitrary: w)
  case (Cons f fs)
  obtain w1 where one: "restore_file T repo target f w = (Inr (), w1)"
    and rest: "io_foreach (restore_file T repo target) fs w1 = (Inr u, w')"
    using Cons.prems by (auto simp: res_simps)
  have "- target_place target ` set (f # fs) = - {target_place target f} \<inter> - target_place target ` set fs" by auto
  then show ?case using same_elsewhere_trans [OF restore_file_only [OF one] Cons.IH [OF rest]] by simp
qed simp

section \<open>A copy that is exact\<close>

lemma pieces_unique: "pieces T d repo refs xs \<Longrightarrow> pieces T d repo refs ys \<Longrightarrow> xs = ys"
proof (induction refs arbitrary: xs ys)
  case (Cons r refs)
  then show ?case by (auto simp: pieces_def list_all2_Cons1)
qed (simp add: pieces_def)

lemma file_is_unique: "file_is T d repo f c \<Longrightarrow> file_is T d repo f c' \<Longrightarrow> c = c'"
  unfolding file_is_def using pieces_unique by blast

lemma restore_file_exact:
  assumes run: "restore_file T repo target f w = (Inr u, w')" and f: "file_is T (disk w) repo f c"
  shows "node_at (disk w') (target_place target f) = Some (File c (file_mode f AND 0xfff))"
proof -
  obtain x p w1 where x: "assemble T (disk w) repo f = Inr x"
    and p: "safeRelativePath (relative_path f) ''manifest relative_path'' = Inr p"
    and wrt: "writeFileAtomic (target @ p) x (file_mode f) w = (Inr (), w1)"
    and md: "setFileMode (target @ p) (file_mode f) w1 = (Inr u, w')"
    using run by (auto simp: restore_file_def res_simps)
  have c: "x = c" using x f file_is_unique by (auto simp: assemble_iff)
  have "survives_write (\<lambda>_. True) (target @ p) x" by (simp add: survives_write_def)
  from writeFileAtomic_ok [OF this _ wrt]
  obtain m where m: "node_at (disk w1) (walk (target @ p)) = Some (File x m)" by blast
  then have "disk w' = AList.update (walk (target @ p)) (File x (file_mode f AND 0xfff)) (disk w1)"
    using md by (auto simp: setFileMode_def chmod_call_def dest!: sys_Inr)
  then show ?thesis using node_at_File_root [OF m] by (simp add: node_at_update_same c target_place_def p)
qed

lemma durable_apart:
  assumes "apart target repo"
  shows "durable repo V \<subseteq> outside_of target"
proof
  fix k
  assume "k \<in> durable repo V"
  then obtain xs where k: "k = walk repo @ xs" by (auto simp: durable_def object_place_def)
  show "k \<in> outside_of target"
  proof (rule ccontr)
    assume "k \<notin> outside_of target"
    then have t: "take (length (walk target)) k = walk target" by (simp add: outside_of_def)
    show False
    proof (cases "length (walk target) \<le> length (walk repo)")
      case True
      then show False using t assms by (simp add: k apart_def)
    next
      case False
      then have "take (length (walk repo)) (take (length (walk target)) k) = walk repo" by (simp add: k)
      then show False using assms unfolding t by (simp add: apart_def)
    qed
  qed
qed

lemma kept_if_untouched: "untouched K d0 d \<Longrightarrow> kept K d0 d"
  unfolding untouched_def kept_def by blast

lemma restore_files_exact:
  assumes "io_foreach (restore_file T repo target) fs w = (Inr u, w')" and apart: "apart target repo"
    and "\<forall>i < length fs. \<forall>j < i. clear_of target (fs ! i) (fs ! j)"
    and "\<forall>f \<in> set fs. file_is T (disk w) repo f (cont f)"
  shows "\<forall>f \<in> set fs. node_at (disk w') (target_place target f) = Some (File (cont f) (file_mode f AND 0xfff))"
  using assms(1,3,4)
proof (induction fs arbitrary: u w' rule: rev_induct)
  case (snoc g fs)
  obtain w1 where pre: "io_foreach (restore_file T repo target) fs w = (Inr (), w1)"
    and last: "restore_file T repo target g w1 = (Inr u, w')"
    using snoc.prems(1) by (auto simp: io_foreach_snoc)
  have "clear_of target (fs ! i) (fs ! j)" if "i < length fs" "j < i" for i j
    using snoc.prems(2) [rule_format, of i j] that by (simp add: nth_append)
  then have old: "\<forall>f \<in> set fs. node_at (disk w1) (target_place target f) = Some (File (cont f) (file_mode f AND 0xfff))"
    using snoc.IH [OF pre] snoc.prems(3) by simp
  have clear: "clear_of target g f" if "f \<in> set fs" for f
    using that snoc.prems(2) [rule_format, of "length fs"] by (auto simp: in_set_conv_nth nth_append)
  have same: "node_at (disk w') (target_place target f) = Some (File (cont f) (file_mode f AND 0xfff))" if "f \<in> set fs" for f
    using keepsD_eq [OF restore_file_keeps [OF clear [OF that], of "disk w1"] _ last] old that
    by (auto dest: keptD)
  have "keeps (stays_in target (disk w)) (io_foreach (restore_file T repo target) fs)"
    by (intro keeps_foreach stays_restore_file)
  from keepsD_eq [OF this _ pre] have "kept (durable repo {}) (disk w) (disk w1)"
    using kept_mono [OF kept_if_untouched durable_apart [OF apart]] by simp
  then have "file_is T (disk w1) repo g (cont g)" using file_is_kept snoc.prems(3) by simp
  then show ?case using restore_file_exact [OF last] same by simp
qed simp

section \<open>Directories that stay\<close>

lemma survives_dir:
  assumes "\<not> temp_of p k" and "k \<noteq> walk p"
  shows "survives_write (\<lambda>d. node_at d k = Some Directory) p data"
proof -
  have dirs: "node_at (AList.update k' Directory d) k = Some Directory" if "node_at d k = Some Directory" "node_at d k' = None" for k' d
    using that by (cases "k = k'") simp_all
  have "k \<noteq> t" if "temp_of p t" for t using that assms(1) by blast
  then show ?thesis unfolding survives_write_def using assms(2) dirs by (intro conjI allI impI) simp_all
qed

lemma safe_below:
  assumes "safe_path p"
  shows "\<exists>cs. cs \<noteq> [] \<and> walk (target @ p) = walk target @ cs"
    and "temp_of (target @ p) t \<Longrightarrow> \<exists>cs. cs \<noteq> [] \<and> t = walk target @ cs"
proof -
  obtain cs where cs: "cs \<noteq> []" "list_all plain_name cs" "p = cs \<or> p = cs @ [[]]"
    using assms by (auto simp: safe_path_def)
  show "\<exists>cs. cs \<noteq> [] \<and> walk (target @ p) = walk target @ cs"
    using safe_path_walk [OF assms, of target] by auto
  assume t: "temp_of (target @ p) t"
  show "\<exists>cs. cs \<noteq> [] \<and> t = walk target @ cs"
    using cs(3)
  proof
    assume "p = cs @ [[]]"
    then obtain process tick where "t = walk (target @ cs @ [temp_name [] process tick])"
      using t by (auto simp: temp_of_def butlast_append)
    moreover have "list_all plain_name (cs @ [temp_name [] process tick])"
      using cs(2) temp_name_plain [of "[]"] by simp
    ultimately show ?thesis by (auto simp: walk_plain)
  qed (use t temp_of_plain [of cs target t] cs in auto)
qed

lemma restore_keeps_dir:
  assumes k: "\<And>cs. cs \<noteq> [] \<Longrightarrow> k \<noteq> walk target @ cs"
  shows "keeps (on_disk (\<lambda>d. node_at d k = Some Directory)) (restore_file T repo target f)"
proof (cases "safeRelativePath (relative_path f) ''manifest relative_path''")
  case (Inr p)
  note safe = safe_below [OF safeRelativePath_safe [OF Inr], of target]
  have off: "k \<noteq> walk (target @ p)" "\<not> temp_of (target @ p) k" using safe k by metis+
  have "keeps (on_disk (\<lambda>d. node_at d k = Some Directory)) (writeFileAtomic (target @ p) data mode)" for data mode
    using off by (intro keeps_writeFileAtomic survives_dir)
  moreover have "keeps (on_disk (\<lambda>d. node_at d k = Some Directory)) (setFileMode (target @ p) mode)" for mode
    unfolding setFileMode_def using off(1)
    by (intro keeps_sys) (auto simp: chmod_call_def split: option.splits node.splits)
  ultimately show ?thesis unfolding restore_file_def Inr io_lift_steps by (intro keeps_intro)
qed (simp add: restore_file_def io_lift_steps keeps_bind keeps_query keeps_throw)

lemma inside_repo_dir:
  assumes "walk p \<in> outside_of repo"
  shows "inside_repo repo (\<lambda>d. is_dir d p)"
proof
  fix d :: fs and k :: path
  assume "is_dir d p" and "node_at d k = None"
  then show "is_dir (AList.update k Directory d) p" by (cases "k = walk p") (simp_all add: is_dir_def)
next
  fix d :: fs and cs :: path and c m
  assume d: "is_dir d p"
  have "walk p \<noteq> walk repo @ cs" using assms by (auto simp: outside_of_def)
  then show "is_dir (AList.update (walk repo @ cs) (File c m) d) p" and "is_dir (AList.delete (walk repo @ cs) d) p"
    using d by (simp_all add: is_dir_def)
qed

lemma apart_places:
  assumes "apart a b"
  shows "walk a \<in> outside_of b" and "walk b \<in> outside_of a" and "apart b a"
  using assms by (auto simp: apart_def outside_of_def)

section \<open>A restored directory\<close>

lemma restore_copies:
  assumes created: "created_as T d0 source repo mode (disk w) r m" and load: "load (disk w) repo (br_version r) = Inr m"
    and run: "restore T repo (br_version r) target w = (Inr u, w')" and apart: "apart target repo"
    and clash: "no_temp_clash d0 source target" and none: "\<not> collision T (disk w) repo (source_chunks mode d0 source)"
  shows "\<forall>k \<in> set (source_places d0 source). \<forall>c md. node_at d0 k = Some (File c md) \<longrightarrow>
      node_at (disk w') (walk target @ drop (length (walk source)) k) = Some (File c (md AND 0x1ff))"
    and "untouched (- (\<lambda>k. walk target @ drop (length (walk source)) k) ` set (source_places d0 source)) (disk w) (disk w')"
    and "node_at (disk w') (walk target) = Some Directory"
proof -
  obtain ks where ks: "set ks = set (source_places d0 source)" "length ks = length (source_places d0 source)"
    and desc: "list_all2 (\<lambda>k f. describes T d0 (disk w) repo mode (scanned_at source k) f) ks (files m)"
    using created by (auto simp: created_as_def)
  obtain w1 where dir: "ensureDirectory target w = (Inr (), w1)"
    and fold: "io_foreach (restore_file T repo target) (files m) w1 = (Inr u, w')"
    using run load by (auto simp: restore_def res_simps)
  have rel: "sf_relative (scanned_at source k) = drop (length (walk source)) k" for k by (simp add: scanned_at_def Let_def)
  have same: "untouched UNIV (disk w) (disk w1)" using keepsD_eq [OF keeps_ensureDirectory_untouched _ dir] by simp
  have there: "\<exists>c md. node_at d0 k = Some (File c md) \<and> file_is T (disk w) repo f c"
    if "k \<in> set ks" "describes T d0 (disk w) repo mode (scanned_at source k) f" for k f
    using describes_file_is [OF that(2)] that(1) none ks(1) by blast
  define cont where "cont = (\<lambda>f. SOME c. file_is T (disk w) repo f c)"
  have cont: "cont f = c" if "file_is T (disk w) repo f c" for f c
    unfolding cont_def using that file_is_unique by (intro some_equality) blast+
  have "file_is T (disk w1) repo f (cont f)" if f: "f \<in> set (files m)" for f
  proof -
    obtain k where "k \<in> set ks" "describes T d0 (disk w) repo mode (scanned_at source k) f"
      using list_all2_mem [OF desc f] by blast
    then obtain c where "file_is T (disk w) repo f c" using there by blast
    then show ?thesis
      using cont file_is_kept [OF kept_mono [OF kept_if_untouched [OF same]], of repo "{}"] by simp
  qed
  then have all: "\<forall>f \<in> set (files m). node_at (disk w') (target_place target f) = Some (File (cont f) (file_mode f AND 0xfff))"
    using created_clear [OF desc ks clash] by (intro restore_files_exact [OF fold apart]) blast+
  have mode: "(md AND 0x1ff) AND 0xfff = md AND (0x1ff :: u32)" for md by (simp add: and.assoc)
  show "\<forall>k \<in> set (source_places d0 source). \<forall>c md. node_at d0 k = Some (File c md) \<longrightarrow>
      node_at (disk w') (walk target @ drop (length (walk source)) k) = Some (File c (md AND 0x1ff))"
  proof (intro ballI allI impI)
    fix k c md
    assume k: "k \<in> set (source_places d0 source)" and node: "node_at d0 k = Some (File c md)"
    obtain f where f: "f \<in> set (files m)" "describes T d0 (disk w) repo mode (scanned_at source k) f"
      using list_all2_mem1 [OF desc] k ks(1) by auto
    have "file_is T (disk w) repo f c" using there [OF _ f(2)] k ks(1) node by auto
    then have "cont f = c" by (rule cont)
    moreover have "file_mode f = md AND 0x1ff" using f(2) node entry_place(1) [OF k] by (auto simp: describes_def)
    ultimately show "node_at (disk w') (walk target @ drop (length (walk source)) k) = Some (File c (md AND 0x1ff))"
      using all [rule_format, OF f(1)] unfolding describes_place(2) [OF f(2) k] rel by (simp add: mode)
  qed
  have "target_place target ` set (files m) \<subseteq> (\<lambda>k. walk target @ drop (length (walk source)) k) ` set (source_places d0 source)"
  proof (rule image_subsetI)
    fix f
    assume "f \<in> set (files m)"
    then obtain k where k: "k \<in> set ks" "describes T d0 (disk w) repo mode (scanned_at source k) f"
      using list_all2_mem [OF desc] by blast
    then show "target_place target f \<in> (\<lambda>k. walk target @ drop (length (walk source)) k) ` set (source_places d0 source)"
      using describes_place(2) [OF k(2)] ks(1) rel by auto
  qed
  then show "untouched (- (\<lambda>k. walk target @ drop (length (walk source)) k) ` set (source_places d0 source)) (disk w) (disk w')"
    using untouched_fewer [OF same_elsewhere_trans [OF same restore_files_only [OF fold]]] by simp
  have "keeps (on_disk (\<lambda>d. node_at d (walk target) = Some Directory)) (io_foreach (restore_file T repo target) (files m))"
    by (intro keeps_foreach restore_keeps_dir) simp
  from keepsD_eq [OF this _ fold] show "node_at (disk w') (walk target) = Some Directory"
    using ensureDirectory_ok [OF dir] by simp
qed

section \<open>Equal directories\<close>

lemma place_split:
  assumes "k \<in> set (source_places d root)"
  shows "k = walk root @ drop (length (walk root)) k" and "drop (length (walk root)) k \<noteq> []"
    and "list_all plain_name (drop (length (walk root)) k)"
  using assms append_take_drop_id [of "length (walk root)" k]
  by (auto simp: source_places_iff list_all_iff entry_name_def)

lemma regularFilesUnder_places:
  "is_dir d root \<Longrightarrow> regularFilesUnder d root
     = Inr (sort_key (map (map char_code)) (map (drop (length (walk root))) (source_places d root)))"
  by (simp add: regularFilesUnder_def source_places_def)

lemma relative_distinct: "distinct (map (drop (length (walk root))) (source_places d root))"
proof -
  have "inj_on (drop (length (walk root))) (set (source_places d root))"
    by (rule inj_onI) (metis place_split(1))
  then show ?thesis by (simp add: distinct_map source_places_distinct)
qed

lemma path_key_inj: "inj (map (map char_code))"
proof -
  have "inj char_code" by (rule injI) (auto simp: char_code_def)
  then show ?thesis by simp
qed

lemma same_files_equal:
  assumes "is_dir d a" and "is_dir d b"
    and "drop (length (walk a)) ` set (source_places d a) = drop (length (walk b)) ` set (source_places d b)"
  shows "regularFilesUnder d a = regularFilesUnder d b"
proof -
  let ?xs = "map (drop (length (walk a))) (source_places d a)" and ?ys = "map (drop (length (walk b))) (source_places d b)"
  have "mset ?xs = mset ?ys"
    using assms(3) relative_distinct [of a d] relative_distinct [of b d] by (simp only: set_eq_iff_mset_eq_distinct [symmetric] set_map)
  then have "sort_key (map (map char_code)) ?xs = sort_key (map (map char_code)) ?ys"
    using path_key_inj by (intro sort_key_inj_key_eq) (auto intro: inj_on_subset)
  then show ?thesis using assms(1,2) by (simp only: regularFilesUnder_places)
qed

lemma require_same_files_ok:
  "\<forall>rel \<in> set rels. \<exists>c. readFile d (a @ rel) = Inr c \<and> readFile d (b @ rel) = Inr c \<Longrightarrow>
     require_same_files d a b rels = Inr ()"
  by (induction rels) auto

lemma copied_equal:
  assumes dirs: "is_dir d source" "is_dir d target"
    and places: "set (source_places d source) = set (source_places d0 source)"
    and same: "\<forall>k \<in> set (source_places d0 source). \<exists>c m m'. node_at d k = Some (File c m)
        \<and> node_at d (walk target @ drop (length (walk source)) k) = Some (File c m')"
    and only: "set (source_places d target) \<subseteq> (\<lambda>k. walk target @ drop (length (walk source)) k) ` set (source_places d0 source)"
  shows "requireDirectoriesEqual d source target = Inr ()"
proof -
  let ?n = "length (walk source)"
  have there: "walk target @ drop ?n k \<in> set (source_places d target)" if k: "k \<in> set (source_places d0 source)" for k
    using same k unfolding source_places_iff by (fastforce simp: source_places_iff)
  have image: "set (source_places d target) = (\<lambda>k. walk target @ drop ?n k) ` set (source_places d0 source)"
    using there only by blast
  have "drop (length (walk target)) ` set (source_places d target) = drop ?n ` set (source_places d source)"
    unfolding image places image_image by simp
  then have files: "regularFilesUnder d target = regularFilesUnder d source" using same_files_equal dirs by blast
  have "\<exists>c. readFile d (source @ drop ?n k) = Inr c \<and> readFile d (target @ drop ?n k) = Inr c"
    if k: "k \<in> set (source_places d source)" for k
  proof -
    note split = place_split [OF k]
    have w: "walk (source @ drop ?n k) = k" "walk (target @ drop ?n k) = walk target @ drop ?n k"
      using walk_plain [OF split(3)] split(1) by simp_all
    show ?thesis using same k unfolding places readFile_Inr w by blast
  qed
  then have "require_same_files d source target (sort_key (map (map char_code)) (map (drop ?n) (source_places d source))) = Inr ()"
    by (intro require_same_files_ok) simp
  then show ?thesis
    unfolding requireDirectoriesEqual_def files unfolding regularFilesUnder_places [OF dirs(1)] by simp
qed

lemma copy_run:
  assumes run: "create T cwd source repo mode faults w = (Inr r, w1)" "restore T repo (br_version r) target w1' = (Inr u, w2)"
    and between: "disk w1' = disk w1"
    and T: "zstd_ok T" and apart: "apart source repo" "apart target repo" "apart target source"
    and source: "is_dir (disk w) source" "small_source (disk w) source"
    and target: "no_temp_clash (disk w) source target" "source_places (disk w) target = []"
    and none: "\<not> collision T (disk w1) repo (source_chunks mode (disk w) source)"
  shows "requireDirectoriesEqual (disk w2) source target = Inr ()"
proof -
  let ?P = "source_places (disk w) source"
  obtain m where m: "load (disk w1) repo (br_version r) = Inr m" "created_as T (disk w) source repo mode (disk w1) r m"
    using create_run [OF run(1) T apart(1) source(2)] by blast
  note copies = restore_copies [where w = w1', unfolded between, OF m(2,1) run(2) apart(2) target(1) none]
  have u1: "untouched (outside_of repo) (disk w) (disk w1)" using keepsD_eq [OF stays.whole_backup _ run(1)] by simp
  have u2: "untouched (outside_of target) (disk w1) (disk w2)" using keepsD_eq [OF stays_restore _ run(2)] between by simp
  have dir: "is_dir (disk w1) source"
    using keepsD_eq [OF inside_repo.whole_backup [OF inside_repo_dir] _ run(1)] source(1) apart_places [OF apart(1)] by simp
  have "walk source \<noteq> walk target @ cs" for cs using apart_places(2) [OF apart(3)] by (auto simp: outside_of_def)
  then have "keeps (on_disk (\<lambda>d. node_at d (walk source) = Some Directory)) (restore T repo (br_version r) target)"
    unfolding restore_def
    by (intro keeps_bind keeps_seq keeps_query keeps_foreach restore_keeps_dir keeps_ensureDirectory)
      (metis node_at_update_other option.distinct(1))+
  from keepsD_eq [OF this _ run(2)] dir between have dirs: "is_dir (disk w2) source" "is_dir (disk w2) target"
    using copies(3) by (simp_all add: is_dir_def)
  have p1: "set (source_places (disk w1) source) = set ?P" by (rule source_places_untouched(1) [OF apart(1) u1])
  have p2: "set (source_places (disk w2) source) = set ?P"
    using source_places_untouched(1) [OF apart_places(3) [OF apart(3)] u2] p1 by simp
  have t1: "source_places (disk w1) target = []"
    using source_places_untouched(2) [OF apart(2) u1] target(2) by simp
  have "\<exists>c m m'. node_at (disk w2) k = Some (File c m)
        \<and> node_at (disk w2) (walk target @ drop (length (walk source)) k) = Some (File c m')" if k: "k \<in> set ?P" for k
  proof -
    obtain c md where c: "node_at (disk w) k = Some (File c md)" using k by (auto simp: source_places_iff)
    have "node_at (disk w1) k = Some (File c md)"
      using untouched_node [OF u1 apart_outside [OF apart(1) k]] c by simp
    then have "node_at (disk w2) k = Some (File c md)"
      using untouched_node [OF u2 apart_outside [OF apart_places(3) [OF apart(3)] k]] by simp
    then show ?thesis using copies(1) k c by blast
  qed
  moreover have "set (source_places (disk w2) target) \<subseteq> (\<lambda>k. walk target @ drop (length (walk source)) k) ` set ?P"
  proof (rule subsetI, rule ccontr)
    fix k
    assume k: "k \<in> set (source_places (disk w2) target)"
      and "k \<notin> (\<lambda>k. walk target @ drop (length (walk source)) k) ` set ?P"
    then have "k \<in> set (source_places (disk w1) target)"
      using untouched_node [OF copies(2), of k] by (auto simp: source_places_iff)
    then show False using t1 by simp
  qed
  ultimately show ?thesis by (intro copied_equal [OF dirs p2]) blast+
qed

section \<open>Properties\<close>

text \<open>C3: a restored directory is the source, byte for byte. When \<open>create\<close> returned, and then \<open>restore\<close> of
  its version into a place without files, the comparison of the benchmark accepts: the two
  directories have the same regular files under the same names, with the same contents, unless the
  store holds an object with the SHA-256 of a chunk of the source and other contents.\<close>

theorem restored_copy_equal:
  assumes "zstd_ok T" and "apart source repo" and "apart target repo" and "apart target source"
    and "is_dir (disk w) source" and "small_source (disk w) source"
    and "no_temp_clash (disk w) source target" and "source_places (disk w) target = []"
  shows "case create T cwd source repo mode faults w of
      (Inl _, _) \<Rightarrow> True
    | (Inr r, w1) \<Rightarrow> (case restore T repo (br_version r) target w1 of
          (Inl _, _) \<Rightarrow> True
        | (Inr _, w2) \<Rightarrow> requireDirectoriesEqual (disk w2) source target = Inr ()
            \<or> collision T (disk w1) repo (source_chunks mode (disk w) source))"
  using copy_run [OF _ _ refl assms] by (auto split: prod.splits sum.splits)

theorem restored_copy_equal_witness:
  "case create toy [] [''s''] [''r''] Fixed NoFault (quiet_world sample_source) of
      (Inl _, _) \<Rightarrow> True
    | (Inr r, w1) \<Rightarrow> (case restore toy [''r''] (br_version r) [''t''] w1 of
          (Inl _, _) \<Rightarrow> True
        | (Inr _, w2) \<Rightarrow> requireDirectoriesEqual (disk w2) [''s''] [''t''] = Inr ()
            \<or> collision toy (disk w1) [''r''] (source_chunks Fixed sample_source [''s'']))"
proof -
  have w: "walk [''s''] = [''s'']" "walk [''r''] = [''r'']" "walk [''t''] = [''t'']"
    by (simp_all add: walk_def walk_step_def dot_def dotdot_def)
  have apart: "apart [''t''] [''r'']" "apart [''t''] [''s'']" by (simp_all add: apart_def w)
  have dir: "is_dir sample_source [''s'']" by (simp add: is_dir_def w sample_source_def node_at_def)
  have free: "source_places sample_source [''t''] = []"
    by (simp add: source_places_def recursive_entries_def w sample_source_def)
  show ?thesis
    by (rule restored_copy_equal [OF toy_ok(1) sample_source_ok(1) apart, where w = "quiet_world sample_source"
        and cwd = "[]" and mode = Fixed and faults = NoFault, unfolded disk_quiet,
        OF dir sample_source_ok(2,3) free])
qed

end
