(* ===== verification/DPC_Double.thy ===== *)
theory DPC_Double
  imports DPC_Text
begin

text \<open>
  The figures \<open>backupctl stats\<close> and the benchmark print: arithmetic of \<open>double\<close> on numbers that are not
  negative, and \<open>std::fixed\<close> with three digits. A \<open>double\<close> is the fraction it stands for. Every figure
  lies between \<open>2 ^ - 128\<close> and \<open>2 ^ 128\<close> or is zero, so nothing overflows or becomes subnormal.
\<close>

section \<open>Rounding\<close>

text \<open>To the nearest integer, ties to even.\<close>

definition round_div :: "nat \<Rightarrow> nat \<Rightarrow> nat" where
  "round_div p q =
     (let k = p div q; r = p mod q in if 2 * r < q \<or> 2 * r = q \<and> even k then k else Suc k)"

fun bit_length :: "nat \<Rightarrow> nat" where
  "bit_length n = (if n = 0 then 0 else Suc (bit_length (n div 2)))"

declare bit_length.simps [simp del]

type_synonym double = "nat \<times> nat"

text \<open>\<open>p / q\<close> times \<open>2 ^ s\<close>, as a fraction.\<close>

definition scale :: "nat \<Rightarrow> nat \<Rightarrow> int \<Rightarrow> nat \<times> nat" where
  "scale p q s = (p * 2 ^ nat s, q * 2 ^ nat (- s))"

text \<open>The scale at which \<open>p / q\<close> has 53 bits before the point.\<close>

definition mantissa_scale :: "nat \<Rightarrow> nat \<Rightarrow> int" where
  "mantissa_scale p q =
     (let s = 53 - (int (bit_length p) - int (bit_length q)); (a, b) = scale p q s in
      if 2 ^ 53 * b \<le> a then s - 1 else s)"

text \<open>The \<open>double\<close> nearest to \<open>p / q\<close>.\<close>

definition to_double :: "nat \<Rightarrow> nat \<Rightarrow> double" where
  "to_double p q =
     (if p = 0 then (0, 1)
      else let s = mantissa_scale p q; (a, b) = scale p q s in scale (round_div a b) 1 (- s))"

definition dbl_of_u64 :: "u64 \<Rightarrow> double" where
  "dbl_of_u64 n = to_double (unat n) 1"

definition dbl_div :: "double \<Rightarrow> double \<Rightarrow> double" where
  "dbl_div x y = to_double (fst x * snd y) (snd x * fst y)"

definition dbl_add :: "double \<Rightarrow> double \<Rightarrow> double" where
  "dbl_add x y = to_double (fst x * snd y + fst y * snd x) (snd x * snd y)"

text \<open>\<open>std::fixed << std::setprecision(3)\<close>: thousandths.\<close>

definition thousandths_text :: "nat \<Rightarrow> string" where
  "thousandths_text k =
     (let digits = dec (k mod 1000) in
      dec (k div 1000) @ ''.'' @ replicate (3 - length digits) (CHR ''0'') @ digits)"

definition fixed3 :: "double \<Rightarrow> string" where
  "fixed3 x = thousandths_text (round_div (fst x * 1000) (snd x))"

section \<open>Facts\<close>

lemma round_div_exact [simp]: "0 < q \<Longrightarrow> round_div (n * q) q = n"
  by (simp add: round_div_def)

lemma bit_length_bounds: "0 < n \<Longrightarrow> 2 ^ (bit_length n - 1) \<le> n \<and> n < 2 ^ bit_length n \<and> 0 < bit_length n"
proof (induction n rule: bit_length.induct)
  case (1 n)
  have "bit_length n = Suc (bit_length (n div 2))" using "1.prems" by (simp add: bit_length.simps)
  show ?case
  proof (cases "n = 1")
    case True
    then show ?thesis by (simp add: bit_length.simps)
  next
    case False
    then have h: "0 < n div 2" using "1.prems" by (simp add: div_greater_zero_iff)
    from "1.IH" [OF _ h] "1.prems"
    have ih: "2 ^ (bit_length (n div 2) - 1) \<le> n div 2" "n div 2 < 2 ^ bit_length (n div 2)" "0 < bit_length (n div 2)"
      by simp_all
    obtain l where l: "bit_length (n div 2) = Suc l" using ih(3) gr0_conv_Suc by blast
    show ?thesis using ih \<open>bit_length n = _\<close> unfolding l by auto
  qed
qed

end
