(* ===== verification/DPC_Cli.thy ===== *)
theory DPC_Cli
  imports DPC_Queue DPC_Copy DPC_Double
begin

text \<open>
  The command line programs (src/src/cli/backupctl_main.cpp, backup_client_main.cpp,
  backup_server_main.cpp): their options, the commands they run, what they print and their exit
  codes. An argument list is \<open>argv\<close> without the name of the program.
\<close>

section \<open>Options\<close>

type_synonym options = "string \<rightharpoonup> string"

text \<open>\<open>key.rfind("--", 0) == 0\<close>.\<close>

definition is_key :: "string \<Rightarrow> bool" where
  "is_key key \<longleftrightarrow> take 2 key = ''--''"

fun parseOptions_loop :: "string list \<Rightarrow> options \<Rightarrow> options res" where
  "parseOptions_loop [] out = Inr out"
| "parseOptions_loop (key # rest) out =
     (if \<not> is_key key then Inl (DpcError (''unexpected argument: '' @ key))
      else case rest of
        [] \<Rightarrow> Inl (DpcError (''missing value for argument: '' @ key))
      | val # rest' \<Rightarrow> parseOptions_loop rest' (out(key \<mapsto> val)))"

definition parseOptions :: "string list \<Rightarrow> options res" where
  "parseOptions args = parseOptions_loop args Map.empty"

text \<open>The variant of the client and the server, with one message.\<close>

fun parseOptions_net :: "string list \<Rightarrow> options \<Rightarrow> options res" where
  "parseOptions_net [] out = Inr out"
| "parseOptions_net (key # rest) out =
     (if \<not> is_key key \<or> rest = [] then Inl (DpcError (''invalid argument: '' @ key))
      else case rest of
        [] \<Rightarrow> Inl (DpcError (''invalid argument: '' @ key))
      | val # rest' \<Rightarrow> parseOptions_net rest' (out(key \<mapsto> val)))"

text \<open>\<open>option\<close>; no fallback is the empty string, as in the code.\<close>

definition get_option :: "options \<Rightarrow> string \<Rightarrow> string \<Rightarrow> string res" where
  "get_option opts key fallback =
     (case opts key of
        Some val \<Rightarrow> Inr val
      | None \<Rightarrow> (if fallback \<noteq> [] then Inr fallback else Inl (DpcError (''missing required argument: '' @ key))))"

definition parseVersion :: "options \<Rightarrow> u64 res" where
  "parseVersion opts = rbind (get_option opts ''--version'' []) stoull"

text \<open>
  \<open>std::filesystem::path\<close> of a text: slashes that follow each other count once, one at the end gives
  an empty last component.
\<close>

definition path_of :: "string \<Rightarrow> path" where
  "path_of s =
     (let names = filter (\<lambda>c. c \<noteq> []) (split_slash s) in
      (if is_absolute s then [[slash]] else []) @ names
        @ (if names \<noteq> [] \<and> last s = slash then [[]] else []))"

text \<open>\<open>std::stoi\<close>: \<open>strtol\<close> and the range of an \<open>int\<close>.\<close>

definition stoi :: "string \<Rightarrow> int res" where
  "stoi s =
     (let (neg, u) = sign_of (skipws s); ds = takeWhile isdigit u;
          v = (if neg then - int (dec_val ds) else int (dec_val ds)) in
      if ds = [] then Inl (StdException ''stoi'')
      else if v < - (2 ^ 31) \<or> 2 ^ 31 \<le> v then Inl (StdException ''stoi'')
      else Inr v)"

section \<open>backupctl\<close>

record repo_stats =
  rs_versions :: nat
  rs_objects :: store_stats
  rs_total_input :: u64
  rs_total_chunks :: u64
  rs_unique_chunks :: u64
  rs_duplicate_chunks :: u64

text \<open>The loop over the versions: \<open>total_chunks\<close>, \<open>total_input\<close> and \<open>unique_hashes\<close>.\<close>

fun count_versions :: "fs \<Rightarrow> path \<Rightarrow> u64 list \<Rightarrow> u64 \<times> u64 \<times> string set \<Rightarrow> (u64 \<times> u64 \<times> string set) res" where
  "count_versions d repo [] st = Inr st"
| "count_versions d repo (v # vs) (total_chunks, total_input, unique_hashes) =
     rbind (load d repo v) (\<lambda>m.
       let cs = concat (map chunks (files m)) in
       count_versions d repo vs (total_chunks + word_of_nat (length cs), total_input + total_input_bytes m,
         unique_hashes \<union> set (map chunk_sha256 cs)))"

definition repository_stats :: "fs \<Rightarrow> path \<Rightarrow> repo_stats res" where
  "repository_stats d repo =
     rbind (listCommittedVersions d repo) (\<lambda>versions.
     rbind (object_stats d repo) (\<lambda>os.
     rbind (count_versions d repo versions (0, 0, {})) (\<lambda>(total_chunks, total_input, unique_hashes).
     let unique_chunks = word_of_nat (card unique_hashes) in
     Inr \<lparr>rs_versions = length versions, rs_objects = os, rs_total_input = total_input,
          rs_total_chunks = total_chunks, rs_unique_chunks = unique_chunks,
          rs_duplicate_chunks = (if unique_chunks < total_chunks then total_chunks - unique_chunks else 0)\<rparr>)))"

definition field_text :: "string \<Rightarrow> string \<Rightarrow> string" where
  "field_text name val = name @ '': '' @ val @ [nl]"

definition dedup_ratio :: "repo_stats \<Rightarrow> double" where
  "dedup_ratio s =
     (if rs_total_chunks s = 0 then to_double 1 1
      else dbl_div (dbl_of_u64 (rs_total_chunks s)) (dbl_of_u64 (if rs_unique_chunks s = 0 then 1 else rs_unique_chunks s)))"

definition compression_ratio :: "repo_stats \<Rightarrow> double" where
  "compression_ratio s =
     (if rs_total_input s = 0 then to_double 1 1
      else dbl_div (dbl_of_u64 (stored_bytes (rs_objects s))) (dbl_of_u64 (rs_total_input s)))"

definition stats_text :: "repo_stats \<Rightarrow> string" where
  "stats_text s =
     field_text ''versions'' (dec (rs_versions s)) @ field_text ''objects'' (dec_word (object_count (rs_objects s)))
     @ field_text ''object_bytes'' (dec_word (stored_bytes (rs_objects s)))
     @ field_text ''total_input_bytes'' (dec_word (rs_total_input s))
     @ field_text ''total_chunks'' (dec_word (rs_total_chunks s))
     @ field_text ''unique_chunks'' (dec_word (rs_unique_chunks s))
     @ field_text ''duplicate_chunks'' (dec_word (rs_duplicate_chunks s))
     @ field_text ''dedup_ratio'' (fixed3 (dedup_ratio s))
     @ field_text ''compression_ratio'' (fixed3 (compression_ratio s))"

definition created_text :: "backup_result \<Rightarrow> string" where
  "created_text r =
     field_text ''created_version'' (dec_word (br_version r)) @ field_text ''files'' (dec_word (br_file_count r))
     @ field_text ''total_input_bytes'' (dec_word (br_total_input_bytes r))
     @ field_text ''stored_bytes'' (dec_word (br_total_stored_bytes r))
     @ field_text ''total_chunks'' (dec_word (br_total_chunks r))
     @ field_text ''unique_chunks'' (dec_word (br_unique_chunks r))
     @ field_text ''duplicate_chunks'' (dec_word (br_duplicate_chunks r))"

definition version_line :: "u64 \<Rightarrow> manifest \<Rightarrow> string" where
  "version_line v m =
     ''version: '' @ dec_word v @ '' files: '' @ dec (length (files m))
     @ '' input_bytes: '' @ dec_word (total_input_bytes m)
     @ '' stored_bytes: '' @ dec_word (total_stored_bytes m)
     @ '' chunking: '' @ mode_toString (chunking m) @ [nl]"

text \<open>
  A command gives what it printed, and its exit code or the exception that ended it: \<open>list\<close> prints
  the lines before a manifest it cannot load.
\<close>

type_synonym outcome = "console \<times> int res"

fun list_versions :: "fs \<Rightarrow> path \<Rightarrow> u64 list \<Rightarrow> string \<Rightarrow> outcome" where
  "list_versions d repo [] out = (said out, Inr 0)"
| "list_versions d repo (v # vs) out =
     (case load d repo v of
        Inl e \<Rightarrow> (said out, Inl e)
      | Inr m \<Rightarrow> list_versions d repo vs (out @ version_line v m))"

definition ctl_create :: "third_party \<Rightarrow> path \<Rightarrow> options \<Rightarrow> outcome act" where
  "ctl_create T cwd opts =
     io_bind (io_lift (get_option opts ''--chunking'' ''fixed'')) (\<lambda>chunking.
     io_bind (io_lift (rbind (get_option opts ''--fault-stage'' ''none'') fault_parse)) (\<lambda>fault.
     io_bind (io_lift (get_option opts ''--source'' [])) (\<lambda>source.
     io_bind (io_lift (get_option opts ''--repo'' [])) (\<lambda>repo.
     io_bind (create T cwd (path_of source) (path_of repo) (chunkingModeFromString chunking) fault) (\<lambda>r.
     io_return (said (created_text r), Inr 0))))))"

definition ctl_list :: "path \<Rightarrow> outcome act" where
  "ctl_list repo =
     io_bind (io_query (\<lambda>w. listCommittedVersions (disk w) repo)) (\<lambda>versions.
     io_get (\<lambda>w. if versions = [] then (said (''no committed versions'' @ [nl]), Inr 0)
                  else list_versions (disk w) repo versions []))"

definition ctl_restore :: "third_party \<Rightarrow> path \<Rightarrow> options \<Rightarrow> outcome act" where
  "ctl_restore T repo opts =
     io_bind (io_lift (parseVersion opts)) (\<lambda>version.
     io_bind (io_lift (get_option opts ''--target'' [])) (\<lambda>target.
     io_seq (restore T repo version (path_of target)) (io_return (said (''restore_ok'' @ [nl]), Inr 0))))"

definition ctl_verify :: "third_party \<Rightarrow> path \<Rightarrow> options \<Rightarrow> outcome act" where
  "ctl_verify T repo opts =
     io_bind (io_lift (parseVersion opts)) (\<lambda>version.
     io_seq (io_query (\<lambda>w. verify T (disk w) repo version)) (io_return (said (''verify_ok'' @ [nl]), Inr 0)))"

definition ctl_checkpoint :: "path \<Rightarrow> outcome act" where
  "ctl_checkpoint repo =
     io_bind (io_query (\<lambda>w. listCommittedVersions (disk w) repo)) (\<lambda>versions.
     io_seq (checkpoint_write repo \<lparr>latest_committed_version = latest_of versions, committed_versions = versions\<rparr>)
       (io_return (said (''checkpoint_ok latest_committed_version='' @ dec_word (latest_of versions) @ [nl]), Inr 0)))"

definition ctl_usage :: string where
  "ctl_usage =
     ''usage:'' @ [nl]
     @ ''  backupctl create --source <path> --repo <path> [--chunking fixed|cdc] [--fault-stage <stage>]'' @ [nl]
     @ ''  backupctl list --repo <path>'' @ [nl]
     @ ''  backupctl restore --repo <path> --version <n> --target <path>'' @ [nl]
     @ ''  backupctl verify --repo <path> --version <n>'' @ [nl]
     @ ''  backupctl stats --repo <path>'' @ [nl]
     @ ''  backupctl recover --repo <path>'' @ [nl]
     @ ''  backupctl checkpoint --repo <path>'' @ [nl]
     @ ''  backupctl compact --repo <path>'' @ [nl]"

text \<open>The dispatch of \<open>main\<close>; an unknown command prints the usage, on standard error.\<close>

definition ctl_command :: "third_party \<Rightarrow> path \<Rightarrow> string \<Rightarrow> options \<Rightarrow> outcome act" where
  "ctl_command T cwd command opts =
     (if command = ''create'' then ctl_create T cwd opts
      else
        io_bind (io_lift (get_option opts ''--repo'' [])) (\<lambda>r.
        let repo = path_of r in
        if command = ''list'' then ctl_list repo
        else if command = ''restore'' then ctl_restore T repo opts
        else if command = ''verify'' then ctl_verify T repo opts
        else if command = ''stats'' then
          io_bind (io_query (\<lambda>w. repository_stats (disk w) repo)) (\<lambda>s. io_return (said (stats_text s), Inr 0))
        else if command = ''recover'' then
          io_bind (recover repo) (\<lambda>report. io_return (said (rr_message report @ [nl]), Inr 0))
        else if command = ''checkpoint'' then ctl_checkpoint repo
        else if command = ''compact'' then io_seq (compact repo) (io_return (said (''compact_ok'' @ [nl]), Inr 0))
        else io_return (complained ctl_usage, Inr 2)))"

fun exit_code :: "exn \<Rightarrow> int" where
  "exit_code (FaultInjectedCrash _) = 86"
| "exit_code _ = 1"

text \<open>\<open>main\<close>: every exception becomes an exit code; a process that is killed has none.\<close>

definition backupctl :: "third_party \<Rightarrow> path \<Rightarrow> string list \<Rightarrow> (console \<times> int) act" where
  "backupctl T cwd args w =
     (case args of
        [] \<Rightarrow> (Inr (complained ctl_usage, 2), w)
      | command # rest \<Rightarrow>
          if command = ''--help'' \<or> command = ''-h'' then (Inr (complained ctl_usage, 0), w)
          else case io_bind (io_lift (parseOptions rest)) (ctl_command T cwd command) w of
            (Inl e, w') \<Rightarrow> (if e = Killed then (Inl Killed, w') else (Inr (logger_error (what e) (said []), exit_code e), w'))
          | (Inr (out, Inl e), w') \<Rightarrow> (Inr (logger_error (what e) out, exit_code e), w')
          | (Inr (out, Inr code), w') \<Rightarrow> (Inr (out, code), w'))"

section \<open>backup-client and backup-server\<close>

definition parseServer :: "string \<Rightarrow> (string \<times> int) res" where
  "parseServer val =
     (if CHR '':'' \<notin> set val then Inl (DpcError ''server must be host:port'')
      else
        (let port = rev (takeWhile (\<lambda>c. c \<noteq> CHR '':'') (rev val)) in
         rbind (stoi port) (\<lambda>p. Inr (take (length val - length port - 1) val, p))))"

definition client_usage :: string where
  "client_usage = ''usage: backup-client upload --source <path> --server <host:port> --session <id> [--exit-after-chunks <n>]'' @ [nl]"

text \<open>Each program has its own copy of \<open>parseOptions\<close> and \<open>option\<close>.\<close>

definition client_option :: "options \<Rightarrow> string \<Rightarrow> string \<Rightarrow> string res" where
  "client_option opts key fallback = get_option opts key fallback"

definition server_parseOptions :: "string list \<Rightarrow> options res" where
  "server_parseOptions args = parseOptions_net args Map.empty"

definition server_option :: "options \<Rightarrow> string \<Rightarrow> string \<Rightarrow> string res" where
  "server_option opts key fallback = get_option opts key fallback"

text \<open>\<open>connect\<close> is \<open>connectTo\<close> of DPC_Descriptors, where \<open>client_program\<close> puts it in.\<close>

definition backup_client :: "third_party \<Rightarrow> (string \<Rightarrow> int \<Rightarrow> unit res) \<Rightarrow> string list \<Rightarrow> (console \<times> int) act" where
  "backup_client T connect args w =
     (if args = [''--help''] \<or> args = [''-h''] then (Inr (said client_usage, 0), w)
      else if length args < 2 \<or> hd args \<noteq> ''upload'' then (Inr (said client_usage, 2), w)
      else case
        io_bind (io_lift (parseOptions_net (tl args) Map.empty)) (\<lambda>opts.
        io_bind (io_lift (rbind (client_option opts ''--server'' []) parseServer)) (\<lambda>(host, port).
        io_bind (io_lift (rbind (client_option opts ''--exit-after-chunks'' ''0'') stoull)) (\<lambda>exit_after.
        io_bind (io_lift (client_option opts ''--source'' [])) (\<lambda>source.
        io_bind (io_lift (client_option opts ''--session'' [])) (\<lambda>session.
        upload T (path_of source) (connect host port) session (unat exit_after)))))) w of
          (Inl e, w') \<Rightarrow> (if e = Killed then (Inl Killed, w') else (Inr (logger_error (what e) (said []), 1), w'))
        | (Inr (code, shown), w') \<Rightarrow> (Inr (shown, code), w'))"

text \<open>What the server's \<open>main\<close> makes of its arguments: repository, port and number of workers.\<close>

definition server_arguments :: "string list \<Rightarrow> (path \<times> int \<times> nat) res" where
  "server_arguments args =
     rbind (server_parseOptions args) (\<lambda>opts.
     rbind (server_option opts ''--repo'' []) (\<lambda>repo.
     rbind (rbind (server_option opts ''--port'' []) stoi) (\<lambda>port.
     rbind (rbind (server_option opts ''--threads'' ''4'') stoull) (\<lambda>threads.
     Inr (path_of repo, port, unat threads)))))"

section \<open>What the commands leave alone\<close>

lemma disk_run: "keeps (on_disk D) m \<Longrightarrow> D (disk w) \<Longrightarrow> m w = (r, w') \<Longrightarrow> D (disk w')"
  using keepsD [of "on_disk D" m w] by simp

lemma keeps_ctl_list: "keeps (on_disk D) (ctl_list repo)"
  unfolding ctl_list_def by (intro keeps_intro)

lemma keeps_ctl_verify: "keeps (on_disk D) (ctl_verify T repo opts)"
  unfolding ctl_verify_def by (intro keeps_intro)

lemma restore_keeps_durable:
  assumes "apart target repo"
  shows "kept (durable repo V) (disk w) (disk (snd (restore T r v target w)))"
  using keepsD [OF stays_restore [of target "disk w" T r v], of w]
    kept_mono [OF kept_if_untouched durable_apart [OF assms]] by simp

text \<open>After a step that looks at the world only, the next one runs in the same world.\<close>

lemma io_lift_then: "io_bind (io_lift r) f w = (case r of Inl e \<Rightarrow> (Inl e, w) | Inr a \<Rightarrow> f a w)"
  by (cases r) (simp_all add: io_bind_def io_lift_def)

lemma snd_bind_return: "snd (io_bind m (\<lambda>a. io_return (f a)) w) = snd (m w)" "snd (io_seq m (io_return b) w) = snd (m w)"
  by (simp_all add: io_seq_def io_bind_def io_return_def split: prod.splits sum.splits)

lemma ctl_create_keeps:
  assumes "opts ''--repo'' = Some r"
  shows "kept (durable (path_of r) (committed (disk w) (path_of r))) (disk w) (disk (snd (ctl_create T cwd opts w)))"
  using assms spares_create [of "path_of r" w T cwd]
  by (simp add: ctl_create_def io_lift_then snd_bind_return get_option_def [of opts "''--repo''"] split: sum.splits)

lemma ctl_restore_keeps:
  assumes "\<forall>t. opts ''--target'' = Some t \<longrightarrow> apart (path_of t) repo"
  shows "kept (durable repo V) (disk w) (disk (snd (ctl_restore T repo opts w)))"
  using assms restore_keeps_durable [of _ repo V w T repo]
  by (auto simp: ctl_restore_def io_lift_then snd_bind_return get_option_def [of opts "''--target''"] split: sum.splits option.splits)

lemma ctl_other_keeps:
  assumes "command \<noteq> ''create''" and "command \<noteq> ''restore''" and "opts ''--repo'' = Some r"
  shows "keeps (on_disk (kept (durable (path_of r) V) d0)) (ctl_command T cwd command opts)"
  using assms unfolding ctl_command_def ctl_checkpoint_def
  by (auto simp: get_option_def io_lift_steps Let_def intro!: keeps_intro keeps_ctl_list keeps_ctl_verify keeps_recover keeps_compact)

lemma ctl_command_keeps:
  assumes r: "opts ''--repo'' = Some r"
    and t: "command = ''restore'' \<longrightarrow> (\<forall>t. opts ''--target'' = Some t \<longrightarrow> apart (path_of t) (path_of r))"
  shows "kept (durable (path_of r) (committed (disk w) (path_of r))) (disk w)
    (disk (snd (ctl_command T cwd command opts w)))"
proof (cases "command = ''create'' \<or> command = ''restore''")
  case True
  then show ?thesis
    using ctl_create_keeps [where opts = opts, OF r, of w T cwd] ctl_restore_keeps [of opts "path_of r" _ w T] t
    by (auto simp: ctl_command_def get_option_def r io_lift_steps)
next
  case False
  then have "keeps (on_disk (kept (durable (path_of r) V) d0)) (ctl_command T cwd command opts)" for V d0
    using r by (intro ctl_other_keeps) simp_all
  from keepsD [OF this, of _ "disk w" w] show ?thesis by simp
qed

lemma backupctl_disk:
  assumes "parseOptions rest = Inr opts"
  shows "disk (snd (backupctl T cwd (command # rest) w)) = disk w
    \<or> disk (snd (backupctl T cwd (command # rest) w)) = disk (snd (ctl_command T cwd command opts w))"
  by (auto simp: backupctl_def assms io_lift_steps split: prod.splits sum.splits)

section \<open>Properties\<close>

text \<open>C19: no command of \<open>backupctl\<close> loses a version. Whatever the command does, however it ends and
  whatever its other arguments are, a version that was committed in the repository it names still
  loads as the same manifest, and verifies if it did; for \<open>restore\<close>, when the target and the
  repository are not inside of each other. (Version numbers below one million.)\<close>

theorem ctl_keeps_versions:
  assumes "parseOptions rest = Inr opts" and "opts ''--repo'' = Some r"
    and "command = ''restore'' \<longrightarrow> (\<forall>t. opts ''--target'' = Some t \<longrightarrow> apart (path_of t) (path_of r))"
    and "is_regular (disk w) (commitPath (path_of r) v)" and "unat v < 10 ^ 6" and "load (disk w) (path_of r) v = Inr m"
  shows "load (disk (snd (backupctl T cwd (command # rest) w))) (path_of r) v = Inr m
    \<and> (verify T (disk w) (path_of r) v = Inr () \<longrightarrow>
         verify T (disk (snd (backupctl T cwd (command # rest) w))) (path_of r) v = Inr ())"
proof -
  have "kept (durable (path_of r) (committed (disk w) (path_of r))) (disk w) (disk (snd (backupctl T cwd (command # rest) w)))"
    using backupctl_disk [OF assms(1), of T cwd command w] ctl_command_keeps [where opts = opts and command = command and w = w and T = T and cwd = cwd, OF assms(2,3)] by auto
  from version_survives_kept [OF this assms(4-6)] show ?thesis by blast
qed

lemma path_of_r: "path_of ''r'' = [''r'']"
  by (simp add: path_of_def is_absolute_def)

theorem ctl_keeps_versions_witness:
  "load (disk (snd (backupctl toy [] [''recover'', ''--repo'', ''r''] (quiet_world one_version)))) [''r''] 1 = Inr empty_manifest
   \<and> verify toy (disk (snd (backupctl toy [] [''recover'', ''--repo'', ''r''] (quiet_world one_version)))) [''r''] 1 = Inr ()"
proof -
  have opts: "parseOptions [''--repo'', ''r''] = Inr [''--repo'' \<mapsto> ''r'']" by (simp add: parseOptions_def is_key_def)
  show ?thesis
    using ctl_keeps_versions [where r = "''r''" and command = "''recover''" and w = "quiet_world one_version" and v = 1
        and m = empty_manifest and T = toy and cwd = "[]", OF opts, unfolded path_of_r disk_quiet] one_version_loads by simp
qed

text \<open>C20: the exit code of \<open>backupctl verify\<close> tells the truth. For every repository and version number the
  command changes nothing, and exits with 0 exactly when the version verifies.\<close>

theorem ctl_verify_exit:
  assumes "n < 2 ^ 64"
  shows "case backupctl T cwd [''verify'', ''--repo'', r, ''--version'', dec n] w of
      (Inl _, w') \<Rightarrow> w' = w \<and> verify T (disk w) (path_of r) (word_of_nat n) \<noteq> Inr ()
    | (Inr (out, code), w') \<Rightarrow> w' = w \<and> (code = 0 \<longleftrightarrow> verify T (disk w) (path_of r) (word_of_nat n) = Inr ())"
proof -
  have opts: "parseOptions [''--repo'', r, ''--version'', dec n] = Inr [''--repo'' \<mapsto> r, ''--version'' \<mapsto> dec n]"
    by (simp add: parseOptions_def is_key_def)
  have code: "exit_code e \<noteq> 0" for e by (cases e) simp_all
  have run: "ctl_command T cwd ''verify'' [''--repo'' \<mapsto> r, ''--version'' \<mapsto> dec n] w =
      (case verify T (disk w) (path_of r) (word_of_nat n) of
         Inl e \<Rightarrow> (Inl e, w) | Inr _ \<Rightarrow> (Inr (said (''verify_ok'' @ [nl]), Inr 0), w))"
    using assms
    by (simp add: ctl_command_def ctl_verify_def get_option_def io_lift_steps parseVersion_def stoull_dec
        io_seq_def io_bind_def io_query_def io_return_def split: sum.split)
  show ?thesis
    by (auto simp: backupctl_def opts io_lift_steps run code split: sum.splits)
qed

theorem ctl_verify_exit_witness:
  "case backupctl toy [] [''verify'', ''--repo'', ''r'', ''--version'', dec 1] (quiet_world one_version) of
      (Inl _, w') \<Rightarrow> False
    | (Inr (out, code), w') \<Rightarrow> w' = quiet_world one_version \<and> code = 0"
  using ctl_verify_exit [where n = 1 and T = toy and cwd = "[]" and r = "''r''" and w = "quiet_world one_version"] one_version_loads(3)
  by (simp add: path_of_r split: prod.splits sum.splits)

end
