(* ===== verification/DPC_Tools.thy ===== *)
theory DPC_Tools
  imports DPC_Cli
begin

text \<open>
  The tool that appends garbage to the log of a repository (src/src/tools/corrupt_repo_main.cpp), for
  the tests of recovery, and what the log's reader makes of it.
\<close>

section \<open>corrupt-repo\<close>

fun corrupt_options :: "string list \<Rightarrow> options \<Rightarrow> options res" where
  "corrupt_options [] out = Inr out"
| "corrupt_options (key # rest) out =
     (if key = ''--wal-garbage'' then corrupt_options rest (out(key \<mapsto> ''1''))
      else if \<not> is_key key \<or> rest = [] then Inl (DpcError (''invalid argument: '' @ key))
      else case rest of
        [] \<Rightarrow> Inl (DpcError (''invalid argument: '' @ key))
      | val # rest' \<Rightarrow> corrupt_options rest' (out(key \<mapsto> val)))"

text \<open>The stream is not looked at after the write, so a write that failed is not noticed.\<close>

definition append_garbage :: "path \<Rightarrow> unit act" where
  "append_garbage repo =
     io_bind (io_get umask) (\<lambda>um.
     io_bind (sys_try (open_append_call (walk (walPath repo)) (0x1b6 AND NOT um))) (\<lambda>r. case r of
         Some _ \<Rightarrow> io_throw (DpcError ''open wal failed for corruption'')
       | None \<Rightarrow> io_bind (stream_write (walPath repo) ''garbage'') (\<lambda>ignored. io_return ())))"

definition corrupt_repo :: "string list \<Rightarrow> (console \<times> int) act" where
  "corrupt_repo args w =
     (case
        io_bind (io_lift (corrupt_options args Map.empty)) (\<lambda>opts.
        io_bind (io_lift (case opts ''--repo'' of Some r \<Rightarrow> Inr (path_of r) | None \<Rightarrow> Inl (StdException ''map::at''))) (\<lambda>repo.
        append_garbage repo)) w of
        (Inl e, w') \<Rightarrow> (if e = Killed then (Inl Killed, w') else (Inr (logger_error (what e) (said []), 1), w'))
      | (Inr _, w') \<Rightarrow> (Inr (said (''corrupted wal'' @ [nl]), 0), w'))"

section \<open>The log's reader notices\<close>

lemma junk_refused:
  assumes "readAll d repo = Inr rs" and "node_at d (walk (walPath repo)) \<noteq> Some Directory"
    and "node_at d' (walk (walPath repo)) = Some (File (log_bytes d repo @ junk) m)"
    and "junk \<noteq> []" and "length junk < kWalHeaderSize"
  shows "readAll d' repo = Inl (DpcError ''wal truncated in record header'')"
proof -
  let ?c = "log_bytes d repo"
  have "list_all small_record rs \<and> ?c = concat (map encoding rs)"
    using assms(1) readAll_log_bytes [OF assms(2)] by (simp add: readAll_loop_iff)
  then have "readAll_loop (?c @ junk) 0 [] = readAll_loop (?c @ junk) (length ?c) rs"
    using readAll_loop_encodings [of 0 "?c @ junk" rs junk "[]"] by simp
  also have "\<dots> = Inl (DpcError ''wal truncated in record header'')"
    using assms(4,5) by (subst readAll_loop.simps) simp
  finally have "readAll_loop (log_bytes d' repo) 0 [] = Inl (DpcError ''wal truncated in record header'')"
    using assms(3) by (simp add: log_bytes_def)
  then show ?thesis using assms(3) by (subst readAll_log_bytes) simp_all
qed

lemma sys_try_killed_disk: "sys_try f w = (Inl e, w') \<Longrightarrow> disk w' = disk w"
  unfolding sys_try_def by (cases "script w"; cases "hd (script w)"; cases "f (disk w)"; clarsimp)

text \<open>However the append ends, the log is as it was, or it has a beginning of the garbage at its end.\<close>

lemma append_garbage_log:
  assumes "append_garbage repo w = (r, w')"
  shows "disk w' = disk w \<or> (\<exists>m written rest. bytes_of_string ''garbage'' = written @ rest
    \<and> node_at (disk w') (walk (walPath repo)) = Some (File (log_bytes (disk w) repo @ written) m))"
proof -
  obtain o' w1 where open_log: "sys_try (open_append_call (walk (walPath repo)) (0x1b6 AND NOT (umask w))) w = (o', w1)"
    by (rule prod.exhaust)
  show ?thesis
  proof (cases "o' = Inr None")
    case True
    obtain m where m: "node_at (disk w1) (walk (walPath repo)) = Some (File (log_bytes (disk w) repo) m)"
      using sys_try_Inr_None [OF open_log [unfolded True]] open_append_log by blast
    have "disk w' = disk (snd (writeAll (walk (walPath repo)) (bytes_of_string ''garbage'') w1))"
      using assms open_log True
      by (auto simp: append_garbage_def io_bind_def io_get_def io_return_def stream_write_def split: prod.splits sum.splits if_splits)
    then show ?thesis
      using writeAll_prefix [of "bytes_of_string ''garbage''" "walk (walPath repo)" w1] append_bytes_same [OF m] by metis
  next
    case False
    have "disk w1 = disk w"
    proof (cases o')
      case (Inl e)
      then show ?thesis using open_log sys_try_killed_disk by blast
    next
      case (Inr x)
      then show ?thesis using open_log False sys_try_Inr_Some by (cases x) auto
    qed
    moreover have "w' = w1"
      using assms open_log False
      by (auto simp: append_garbage_def io_bind_def io_get_def io_throw_def split: sum.splits option.splits)
    ultimately show ?thesis by simp
  qed
qed

lemma corrupt_repo_noticed:
  assumes "readAll (disk w) repo = Inr rs" and "node_at (disk w) (walk (walPath repo)) \<noteq> Some Directory"
    and "append_garbage repo w = (r, w')"
  shows "readAll (disk w') repo = Inr rs \<or> readAll (disk w') repo = Inl (DpcError ''wal truncated in record header'')"
  using append_garbage_log [OF assms(3)]
proof (elim disjE exE conjE)
  fix m written rest
  assume g: "bytes_of_string ''garbage'' = written @ rest"
    and node: "node_at (disk w') (walk (walPath repo)) = Some (File (log_bytes (disk w) repo @ written) m)"
  have "length written \<le> 7" using arg_cong [OF g, of length] by (simp add: bytes_of_string_def)
  then have short: "length written < kWalHeaderSize" by (simp add: kWalHeaderSize_def)
  show ?thesis
  proof (cases "written = []")
    case True
    have "readAll (disk w') repo = readAll_loop (log_bytes (disk w) repo) 0 []"
      using node True by (subst readAll_log_bytes) (simp_all add: log_bytes_def)
    then show ?thesis using assms(1) readAll_log_bytes [OF assms(2)] by simp
  next
    case False
    then show ?thesis using junk_refused [OF assms(1,2) node _ short] by simp
  qed
qed (use assms(1) in simp)

end
