(* ===== verification/DPC_Bench.thy ===== *)
theory DPC_Bench
  imports DPC_Tools
begin

text \<open>
  The benchmark (src/src/bench/backup_bench_main.cpp): its options, the files it makes, the operations it
  measures on them, the figures it prints and the removal of what it made.
\<close>

section \<open>Options\<close>

definition bench_parseOptions :: "string list \<Rightarrow> options res" where
  "bench_parseOptions args = parseOptions_net args Map.empty"

definition bench_option :: "options \<Rightarrow> string \<Rightarrow> string \<Rightarrow> string" where
  "bench_option opts key fallback = (case opts key of None \<Rightarrow> fallback | Some val \<Rightarrow> val)"

definition parseSize :: "string \<Rightarrow> u64 res" where
  "parseSize s =
     (if s = [] then Inr 0
      else let suffix = last s;
               (number, multiplier) =
                 (if suffix = CHR ''K'' \<or> suffix = CHR ''k'' then (butlast s, 1024)
                  else if suffix = CHR ''M'' \<or> suffix = CHR ''m'' then (butlast s, 1024 * 1024)
                  else if suffix = CHR ''G'' \<or> suffix = CHR ''g'' then (butlast s, 1024 * 1024 * 1024)
                  else (s, 1)) in
           rbind (stoull number) (\<lambda>n. Inr (n * multiplier)))"

section \<open>The files it makes\<close>

definition kPatternBuffer :: nat where
  "kPatternBuffer = 64 * 1024"

definition pattern_buffer :: "byte \<Rightarrow> bytes" where
  "pattern_buffer seed = map (\<lambda>i. word_of_nat ((i + unat seed) mod 251)) [0 ..< kPatternBuffer]"

text \<open>The bytes that the writes of the loop send, one buffer or what remains of it at a time.\<close>

function pattern_bytes :: "byte \<Rightarrow> nat \<Rightarrow> bytes" where
  "pattern_bytes seed remaining =
     (if remaining = 0 then []
      else let n = min remaining kPatternBuffer in
           take n (pattern_buffer seed) @ pattern_bytes seed (remaining - n))"
  by pat_completeness auto
termination
  by (relation "measure snd") (auto simp: kPatternBuffer_def)

declare pattern_bytes.simps [simp del]

definition open_truncate_call :: "path \<Rightarrow> u32 \<Rightarrow> fs \<Rightarrow> string + fs" where
  "open_truncate_call k mode d =
     (case node_at d k of
        Some Directory \<Rightarrow> Inl ''Is a directory''
      | Some (File _ m) \<Rightarrow> Inr (AList.update k (File [] m) d)
      | None \<Rightarrow> (if node_at d (butlast k) \<noteq> Some Directory then Inl ''No such file or directory''
                 else Inr (AList.update k (File [] mode) d)))"

text \<open>The stream is not looked at after the writes.\<close>

definition writePatternFile :: "path \<Rightarrow> u64 \<Rightarrow> byte \<Rightarrow> unit act" where
  "writePatternFile p sz seed =
     io_seq (ensureDirectory (butlast p)) (
     io_bind (io_get umask) (\<lambda>um.
     io_bind (sys_try (open_truncate_call (walk p) (0x1b6 AND NOT um))) (\<lambda>r. case r of
         Some _ \<Rightarrow> io_throw (DpcError (''open benchmark file failed: '' @ path_string p))
       | None \<Rightarrow> io_bind (stream_write p (string_of_bytes (pattern_bytes seed (unat sz))))
           (\<lambda>ignored. io_return ()))))"

definition make_small_files :: "path \<Rightarrow> int \<Rightarrow> u64 \<Rightarrow> unit act" where
  "make_small_files source n each =
     io_foreach (\<lambda>i. writePatternFile (source @ [''file-'' @ dec i @ ''.bin'']) each (word_of_nat i))
       [0 ..< nat n]"

definition make_workload :: "options \<Rightarrow> string \<Rightarrow> path \<Rightarrow> unit act" where
  "make_workload opts workload source =
     (if workload = ''small-files'' then
        io_bind (io_lift (stoi (bench_option opts ''--files'' ''1000''))) (\<lambda>n.
        io_bind (io_lift (parseSize (bench_option opts ''--file-size'' ''4096''))) (\<lambda>each.
        make_small_files source n each))
      else if workload = ''duplicated'' then
        io_bind (io_lift (parseSize (bench_option opts ''--size'' ''64M''))) (\<lambda>sz.
        io_seq (writePatternFile (source @ [''a.bin'']) (sz div 2) 7)
          (writePatternFile (source @ [''b.bin'']) (sz div 2) 7))
      else if workload = ''modified'' then
        io_bind (io_lift (parseSize (bench_option opts ''--base-size'' ''64M''))) (\<lambda>sz.
        io_seq (writePatternFile (source @ [''base.bin'']) sz 11)
          (writePatternFile (source @ [''modified.bin'']) (sz + max 1 (sz div 100)) 12))
      else
        io_bind (io_lift (parseSize (bench_option opts ''--size'' ''64M''))) (\<lambda>sz.
        writePatternFile (source @ [''large.bin'']) sz 3))"

section \<open>The run\<close>

text \<open>\<open>Clock::now\<close>, in nanoseconds.\<close>

definition now :: "nat act" where
  "now w = (Inr (case steady_clock w of [] \<Rightarrow> 0 | t # _ \<Rightarrow> t), w\<lparr>steady_clock := tl (steady_clock w)\<rparr>)"

text \<open>The result of the backup, and when backup, verification and restore started and ended.\<close>

record measured =
  ms_result :: backup_result
  ms_backup :: "nat \<times> nat"
  ms_verify :: "nat \<times> nat"
  ms_restore :: "nat \<times> nat"

definition measure_run :: "third_party \<Rightarrow> path \<Rightarrow> path \<Rightarrow> path \<Rightarrow> path \<Rightarrow> chunking_mode \<Rightarrow> measured act" where
  "measure_run T cwd source repo target mode =
     io_bind now (\<lambda>backup_start.
     io_bind (create T cwd source repo mode NoFault) (\<lambda>result.
     io_bind now (\<lambda>backup_end.
     io_bind now (\<lambda>verify_start.
     io_seq (io_query (\<lambda>w. verify T (disk w) repo (br_version result))) (
     io_bind now (\<lambda>verify_end.
     io_bind now (\<lambda>restore_start.
     io_seq (restore T repo (br_version result) target) (
     io_bind now (\<lambda>restore_end.
     io_return \<lparr>ms_result = result, ms_backup = (backup_start, backup_end),
                ms_verify = (verify_start, verify_end), ms_restore = (restore_start, restore_end)\<rparr>)))))))))"

text \<open>The run with its self-check.\<close>

definition bench_run :: "third_party \<Rightarrow> path \<Rightarrow> path \<Rightarrow> path \<Rightarrow> path \<Rightarrow> chunking_mode \<Rightarrow> measured act" where
  "bench_run T cwd source repo target mode =
     io_bind (measure_run T cwd source repo target mode) (\<lambda>ms.
     io_seq (io_query (\<lambda>w. requireDirectoriesEqual (disk w) source target)) (io_return ms))"

section \<open>The figures\<close>

text \<open>\<open>std::chrono::duration<double>\<close> of a number of nanoseconds.\<close>

definition seconds :: "nat \<times> nat \<Rightarrow> double" where
  "seconds span = dbl_div (to_double (snd span - fst span) 1) (to_double 1000000000 1)"

definition throughput :: "double \<Rightarrow> double \<Rightarrow> double" where
  "throughput input_mb s = (if fst s = 0 then to_double 0 1 else dbl_div input_mb s)"

definition ratio_or_one :: "bool \<Rightarrow> u64 \<Rightarrow> u64 \<Rightarrow> double" where
  "ratio_or_one one p q = (if one then to_double 1 1 else dbl_div (dbl_of_u64 p) (dbl_of_u64 q))"

definition bench_text :: "string \<Rightarrow> chunking_mode \<Rightarrow> measured \<Rightarrow> store_stats \<Rightarrow> string" where
  "bench_text workload mode ms os =
     (let r = ms_result ms;
          backup_s = seconds (ms_backup ms); verify_s = seconds (ms_verify ms); restore_s = seconds (ms_restore ms);
          input_mb = dbl_div (dbl_of_u64 (br_total_input_bytes r)) (to_double (1024 * 1024) 1) in
      field_text ''workload'' workload @ field_text ''chunking mode'' (mode_toString mode)
      @ field_text ''total input size'' (dec_word (br_total_input_bytes r))
      @ field_text ''stored object size'' (dec_word (stored_bytes os))
      @ field_text ''dedup ratio'' (fixed3 (ratio_or_one (br_unique_chunks r = 0) (br_total_chunks r) (br_unique_chunks r)))
      @ field_text ''compression ratio''
          (fixed3 (ratio_or_one (br_total_input_bytes r = 0) (stored_bytes os) (br_total_input_bytes r)))
      @ field_text ''backup throughput MB/s'' (fixed3 (throughput input_mb backup_s))
      @ field_text ''restore throughput MB/s'' (fixed3 (throughput input_mb restore_s))
      @ field_text ''verify throughput MB/s'' (fixed3 (throughput input_mb verify_s))
      @ field_text ''file count'' (dec_word (br_file_count r)) @ field_text ''chunk count'' (dec_word (br_total_chunks r))
      @ field_text ''unique chunk count'' (dec_word (br_unique_chunks r))
      @ field_text ''duplicate chunk count'' (dec_word (br_duplicate_chunks r))
      @ field_text ''elapsed time'' (fixed3 (dbl_add (dbl_add backup_s verify_s) restore_s)))"

section \<open>Removing what it made\<close>

definition rmdir_call :: "path \<Rightarrow> fs \<Rightarrow> string + fs" where
  "rmdir_call k d =
     (case node_at d k of
        Some Directory \<Rightarrow>
          (if list_ex (\<lambda>k'. k' \<noteq> [] \<and> butlast k' = k) (map fst d) then Inl ''Directory not empty''
           else Inr (AList.delete k d))
      | _ \<Rightarrow> Inl ''No such file or directory'')"

definition remove_one :: "path \<Rightarrow> unit act" where
  "remove_one k =
     io_bind (io_get (\<lambda>w. node_at (disk w) k)) (\<lambda>n.
     if n = None then io_return ()
     else io_bind (sys_try (if n = Some Directory then rmdir_call k else unlink_call k)) (\<lambda>r. case r of
         None \<Rightarrow> io_return ()
       | Some m \<Rightarrow> io_throw (StdException (''cannot remove all: '' @ m))))"

text \<open>\<open>std::filesystem::remove_all\<close>: what is in a directory is removed before the directory.\<close>

definition remove_all :: "path \<Rightarrow> unit act" where
  "remove_all root =
     io_bind (io_get (\<lambda>w. rev (sort_key (map (map char_code)) (recursive_entries (disk w) root)) @ [walk root]))
       (io_foreach remove_one)"

section \<open>The program\<close>

definition bench_root :: "path \<Rightarrow> nat \<Rightarrow> path" where
  "bench_root tmp process = tmp @ [''dpc-bench-'' @ dec process]"

text \<open>From the making of the source to the figures.\<close>

definition bench_work :: "third_party \<Rightarrow> path \<Rightarrow> options \<Rightarrow> string \<Rightarrow> chunking_mode \<Rightarrow> path \<Rightarrow> string act" where
  "bench_work T cwd opts workload mode root =
     (let source = root @ [''source'']; repo = root @ [''repo''] in
      io_seq (ensureDirectory source) (
      io_seq (make_workload opts workload source) (
      io_bind (bench_run T cwd source repo (root @ [''restore'']) mode) (\<lambda>ms.
      io_bind (io_query (\<lambda>w. object_stats (disk w) repo)) (\<lambda>os.
      io_return (bench_text workload mode ms os))))))"

text \<open>Up to the figures, with the directory to remove; \<open>tmp\<close> is the directory for temporary files.\<close>

definition bench_body :: "third_party \<Rightarrow> path \<Rightarrow> path \<Rightarrow> string list \<Rightarrow> (path \<times> string) act" where
  "bench_body T tmp cwd args =
     io_bind (io_lift (bench_parseOptions args)) (\<lambda>opts.
     let workload = bench_option opts ''--workload'' ''large-file'';
         chunking_text = bench_option opts ''--chunking'' ''fixed'' in
     if chunking_text \<noteq> ''fixed'' \<and> chunking_text \<noteq> ''cdc''
     then io_throw (DpcError (''invalid chunking mode: '' @ chunking_text))
     else
       io_bind (io_get pid) (\<lambda>process.
       let root = bench_root tmp process in
       io_bind (bench_work T cwd opts workload (chunkingModeFromString chunking_text) root) (\<lambda>figures.
       io_return (root, figures))))"

definition benchmark :: "third_party \<Rightarrow> path \<Rightarrow> path \<Rightarrow> string list \<Rightarrow> (console \<times> int) act" where
  "benchmark T tmp cwd args w =
     (case bench_body T tmp cwd args w of
        (Inl e, w1) \<Rightarrow> (if e = Killed then (Inl Killed, w1) else (Inr (logger_error (what e) (said []), 1), w1))
      | (Inr (root, figures), w1) \<Rightarrow>
          (case remove_all root w1 of
             (Inl e, w2) \<Rightarrow> (if e = Killed then (Inl Killed, w2) else (Inr (logger_error (what e) (said figures), 1), w2))
           | (Inr _, w2) \<Rightarrow> (Inr (said figures, 0), w2)))"

section \<open>Sizes and contents\<close>

lemma length_pattern_buffer [simp]: "length (pattern_buffer seed) = kPatternBuffer"
  by (simp add: pattern_buffer_def)

lemma nth_pattern_buffer:
  "i < kPatternBuffer \<Longrightarrow> pattern_buffer seed ! i = word_of_nat ((i + unat seed) mod 251)"
  by (simp add: pattern_buffer_def)

lemma kPatternBuffer_pos: "0 < kPatternBuffer"
  by (simp add: kPatternBuffer_def)

lemma length_pattern_bytes [simp]: "length (pattern_bytes seed n) = n"
proof (induction seed n rule: pattern_bytes.induct)
  case (1 seed n)
  then show ?case by (subst pattern_bytes.simps) (simp add: Let_def)
qed

text \<open>The pattern starts again with every buffer.\<close>

lemma nth_pattern_bytes:
  "i < n \<Longrightarrow> pattern_bytes seed n ! i = word_of_nat ((i mod kPatternBuffer + unat seed) mod 251)"
proof (induction seed n arbitrary: i rule: pattern_bytes.induct)
  case (1 seed n)
  let ?m = "min n kPatternBuffer"
  have n: "n \<noteq> 0" using "1.prems" by simp
  have bytes: "pattern_bytes seed n = take ?m (pattern_buffer seed) @ pattern_bytes seed (n - ?m)"
    using n by (subst pattern_bytes.simps) (simp add: Let_def)
  show ?case
  proof (cases "i < ?m")
    case True
    then show ?thesis by (simp add: bytes nth_append nth_pattern_buffer)
  next
    case False
    then have i: "kPatternBuffer \<le> i" and m: "?m = kPatternBuffer" using "1.prems" by auto
    have "pattern_bytes seed n ! i = pattern_bytes seed (n - ?m) ! (i - ?m)"
      using False i by (simp only: bytes nth_append length_take length_pattern_buffer m min.idem if_False)
    also have "\<dots> = word_of_nat (((i - kPatternBuffer) mod kPatternBuffer + unat seed) mod 251)"
      using "1.IH" [OF n refl, of "i - ?m"] "1.prems" i m by simp
    also have "(i - kPatternBuffer) mod kPatternBuffer = i mod kPatternBuffer"
      using i by (simp add: le_mod_geq)
    finally show ?thesis .
  qed
qed

text \<open>A suffix multiplies modulo \<open>2 ^ 64\<close>: a size that is too large is taken for another one.\<close>

lemma parseSize_suffix:
  assumes "n < 2 ^ 64"
  shows "parseSize (dec n @ ''K'') = Inr (word_of_nat n * 1024)"
    and "parseSize (dec n @ ''M'') = Inr (word_of_nat n * 1048576)"
    and "parseSize (dec n @ ''G'') = Inr (word_of_nat n * 1073741824)"
  using stoull_dec [OF assms] by (simp_all add: parseSize_def)

lemma parseSize_wraps: "parseSize (dec (2 ^ 34) @ ''G'') = Inr 0"
  by (subst parseSize_suffix(3)) simp_all

section \<open>The self-check\<close>

lemma disk_now [simp]: "disk (snd (now w)) = disk w"
  by (simp add: now_def)

lemma now_run: "now w = (r, w') \<Longrightarrow> disk w' = disk w"
  by (auto simp: now_def)

text \<open>It cannot fail on its own: what was restored is the source, or the store has a collision.\<close>

lemma bench_passes:
  assumes "measure_run T cwd source repo target mode w = (Inr ms, w2)"
    and "zstd_ok T" and "apart source repo" and "apart target repo" and "apart target source"
    and "is_dir (disk w) source" and "small_source (disk w) source"
    and "no_temp_clash (disk w) source target" and "source_places (disk w) target = []"
  shows "bench_run T cwd source repo target mode w = (Inr ms, w2)
    \<or> (\<exists>d. collision T d repo (source_chunks mode (disk w) source))"
proof -
  obtain w0 w1 w1' w2a u where start: "disk w0 = disk w"
    and run: "create T cwd source repo mode NoFault w0 = (Inr (ms_result ms), w1)"
      "restore T repo (br_version (ms_result ms)) target w1' = (Inr u, w2a)" and between: "disk w1' = disk w1" "disk w2 = disk w2a"
    using assms(1) unfolding measure_run_def
    by (fastforce simp: io_bind_Inr io_seq_Inr io_query_def io_return_def dest!: now_run)
  show ?thesis
  proof (cases "collision T (disk w1) repo (source_chunks mode (disk w) source)")
    case False
    note equal = copy_run [OF run between(1) assms(2-4), unfolded start, OF assms(5-9) False]
    then show ?thesis
      using assms(1) between(2) by (simp add: bench_run_def io_bind_def io_seq_def io_query_def io_return_def)
  qed blast
qed

section \<open>What is removed\<close>

lemma remove_one_ok:
  assumes "remove_one k w = (Inr u, w')" and "k \<noteq> []" and "k \<noteq> [[slash]]"
  shows "node_at (disk w') k = None \<and> (\<forall>k'. k' \<noteq> k \<longrightarrow> node_at (disk w') k' = node_at (disk w) k')"
proof -
  have call: "disk w' = AList.delete k (disk w)" if "rmdir_call k (disk w) = Inr (disk w') \<or> unlink_call k (disk w) = Inr (disk w')"
    using that by (auto simp: rmdir_call_def unlink_call_def split: option.splits node.splits if_splits)
  have "node_at (disk w) k = None \<and> disk w' = disk w \<or> disk w' = AList.delete k (disk w)"
    using assms(1) call
    by (auto simp: remove_one_def io_bind_Inr io_get_def io_return_def io_throw_def
        dest!: sys_try_Inr_None split: if_splits option.splits)
  then show ?thesis using assms(2,3) by (auto simp: node_at_delete_same)
qed

lemma remove_each_ok:
  assumes "io_foreach remove_one ks w = (Inr u, w')" and "list_all (\<lambda>k. k \<noteq> [] \<and> k \<noteq> [[slash]]) ks"
  shows "(\<forall>k \<in> set ks. node_at (disk w') k = None) \<and> (\<forall>k. k \<notin> set ks \<longrightarrow> node_at (disk w') k = node_at (disk w) k)"
  using assms
proof (induction ks arbitrary: w)
  case (Cons k ks)
  obtain w1 u1 where first: "remove_one k w = (Inr u1, w1)" and rest: "io_foreach remove_one ks w1 = (Inr u, w')"
    using Cons.prems(1) by (auto simp: io_seq_Inr)
  note one = remove_one_ok [OF first] and all = Cons.IH [OF rest]
  then show ?case using Cons.prems(2) by (simp add: list_all_iff) metis
qed (simp add: io_return_def)

text \<open>Nothing is left, neither the directory nor a file or a directory in it, and nothing else is touched.\<close>

lemma remove_all_ok:
  assumes "remove_all root w = (Inr u, w')" and "walk root \<noteq> []" and "walk root \<noteq> [[slash]]"
  shows "list_all entry_name cs \<Longrightarrow> node_at (disk w') (walk root @ cs) = None"
    and "k \<in> outside_of root \<Longrightarrow> node_at (disk w') k = node_at (disk w) k"
proof -
  let ?ks = "rev (sort_key (map (map char_code)) (recursive_entries (disk w) root)) @ [walk root]"
  have run: "io_foreach remove_one ?ks w = (Inr u, w')"
    using assms(1) by (auto simp: remove_all_def io_bind_Inr io_get_def)
  have "k \<noteq> [] \<and> k \<noteq> [[slash]]" if "k \<in> set (recursive_entries (disk w) root)" for k
  proof -
    have "length (walk root) < length k" using that by (simp only: recursive_entries_def set_filter mem_Collect_eq)
    moreover have "0 < length (walk root)" using assms(2) by simp
    ultimately have "1 < length k" by linarith
    then show ?thesis by auto
  qed
  then have "list_all (\<lambda>k. k \<noteq> [] \<and> k \<noteq> [[slash]]) ?ks" using assms(2,3) by (auto simp: list_all_iff)
  note ok = remove_each_ok [OF run this]
  show "node_at (disk w') (walk root @ cs) = None" if cs: "list_all entry_name cs"
  proof (cases "walk root @ cs \<in> set ?ks")
    case False
    then have "cs \<noteq> []" and "walk root @ cs \<notin> fst ` set (disk w)" using cs by (auto simp: recursive_entries_def)
    moreover have "walk root @ cs \<noteq> [[slash]]" using \<open>cs \<noteq> []\<close> assms(2) by (cases "walk root") auto
    ultimately have "node_at (disk w) (walk root @ cs) = None"
      by (auto simp: node_at_def map_of_eq_None_iff)
    then show ?thesis using ok False by metis
  qed (use ok in blast)
  show "node_at (disk w') k = node_at (disk w) k" if "k \<in> outside_of root"
  proof -
    have "k \<notin> set ?ks" using that by (auto simp: outside_of_def recursive_entries_def)
    then show ?thesis using ok by blast
  qed
qed

text \<open>The benchmark writes below its own directory only.\<close>

lemma dec_plain: "slash \<notin> set (dec n)"
  using dec_isdigit [of slash n] by (auto simp: isdigit_def char_code_def)

lemma bench_names: "plain_name (''dpc-bench-'' @ dec n)" "plain_name (''file-'' @ dec n @ ''.bin'')"
  using dec_plain [of n] by (simp_all add: plain_name_def dot_def dotdot_def)

lemma below_inside: "list_all plain_name cs \<Longrightarrow> walk (root @ cs) @ cs' \<notin> outside_of root"
  using inside [of root "cs @ cs'"] by (simp add: walk_plain)

lemma stays_pattern_file:
  assumes "list_all plain_name cs"
  shows "keeps (stays_in root d0) (writePatternFile (root @ cs) sz seed)"
proof -
  have "walk (root @ cs) \<notin> outside_of root" using below_inside [OF assms, of root "[]"] by simp
  then have put: "untouched (outside_of root) d0 d \<Longrightarrow>
      untouched (outside_of root) d0 (AList.update (walk (root @ cs)) (File c m) d)" for d c m
    by (intro untouched_update) simp_all
  have "keeps (stays_in root d0) (sys_try (open_truncate_call (walk (root @ cs)) mode))" for mode
    by (intro keeps_sys_try) (auto simp: open_truncate_call_def intro: put split: option.splits node.splits if_splits)
  then show ?thesis
    unfolding writePatternFile_def
    by (intro keeps_seq keeps_bind keeps_get keeps_option keeps_return keeps_throw keeps_ensureDirectory_untouched
        keeps_stream_write put)
qed

lemma stays_workload: "plain_name c \<Longrightarrow> keeps (stays_in root d0) (make_workload opts workload (root @ [c]))"
  unfolding make_workload_def make_small_files_def append_assoc
  by (intro keeps_if keeps_bind keeps_seq keeps_intro stays_pattern_file keeps_foreach)
    (simp_all add: plain_name_def dot_def dotdot_def dec_plain)

lemma inside_of_inside:
  assumes "list_all plain_name cs"
  shows "inside_repo (root @ cs) (untouched (outside_of root) d0)"
  using below_inside [OF assms] by unfold_locales (auto intro: untouched_mkdir untouched_update untouched_delete)

lemma stays_restore_below:
  assumes "list_all plain_name cs"
  shows "keeps (stays_in root d0) (restore T repo v (root @ cs))"
proof (rule keepsI)
  fix w :: world assume before: "untouched (outside_of root) d0 (disk w)"
  have "untouched (outside_of (root @ cs)) (disk w) (disk (snd (restore T repo v (root @ cs) w)))"
    by (rule keepsD [OF stays_restore]) simp
  moreover have "outside_of root \<subseteq> outside_of (root @ cs)"
    unfolding outside_of_def walk_plain [OF assms] by (auto dest: arg_cong [of _ _ "take (length (walk root))"])
  ultimately show "untouched (outside_of root) d0 (disk (snd (restore T repo v (root @ cs) w)))"
    using same_elsewhere_trans [OF before] untouched_fewer by blast
qed

lemma keeps_now [keeps_intro]: "keeps (on_disk D) now"
  by (simp add: keeps_def now_def)

lemma stays_bench_run:
  assumes "plain_name repo" and "plain_name target"
  shows "keeps (stays_in root d0) (bench_run T cwd source (root @ [repo]) (root @ [target]) mode)"
  unfolding bench_run_def measure_run_def using assms
  by (intro keeps_intro stays_restore_below inside_repo.whole_backup [OF inside_of_inside]) simp_all

lemma stays_remove_all: "keeps (stays_in root d0) (remove_all root)"
proof -
  have "keeps (stays_in root d0) (remove_one k)" if "k \<notin> outside_of root" for k
    unfolding remove_one_def using that
    by (intro keeps_intro keeps_sys_try)
      (auto simp: rmdir_call_def unlink_call_def intro: untouched_delete split: option.splits node.splits if_splits)
  moreover have "k \<notin> outside_of root" if "k \<in> set (recursive_entries d root @ [walk root])" for k d
    using that by (auto simp: outside_of_def recursive_entries_def)
  ultimately show ?thesis
    unfolding remove_all_def by (intro keeps_get_bind keeps_foreach) auto
qed

lemma stays_work: "keeps (stays_in root d0) (bench_work T cwd opts workload mode root)"
  unfolding bench_work_def Let_def
  by (intro keeps_seq keeps_bind keeps_query keeps_return keeps_ensureDirectory_untouched stays_workload stays_bench_run)
    (simp_all add: plain_name_def dot_def dotdot_def)

lemma bench_body_run:
  assumes "bench_body T tmp cwd args w = (r, w')"
  shows "untouched (outside_of (bench_root tmp (pid w))) (disk w) (disk w')"
    and "r = Inr (root, figures) \<Longrightarrow> root = bench_root tmp (pid w)"
proof -
  let ?root = "bench_root tmp (pid w)"
  have run: "(\<exists>opts workload mode r1. bench_work T cwd opts workload mode ?root w = (r1, w')) \<or> w' = w"
    and root: "r = Inr (root, figures) \<Longrightarrow> root = ?root"
    using assms
    by (auto simp: bench_body_def Let_def io_bind_def io_lift_def io_get_def io_throw_def io_return_def
        split: sum.splits if_splits prod.splits)
  from run show "untouched (outside_of (bench_root tmp (pid w))) (disk w) (disk w')"
    using keepsD_eq [OF stays_work untouched_refl] by auto
  show "r = Inr (root, figures) \<Longrightarrow> root = bench_root tmp (pid w)" by (rule root)
qed

text \<open>However the program ends, it wrote no file outside of its directory; after exit code 0 nothing of that is left.\<close>

lemma benchmark_cleans_up:
  fixes tmp :: path and w :: world
  defines "root \<equiv> bench_root tmp (pid w)"
  assumes run: "benchmark T tmp cwd args w = (r, w')"
  shows "untouched (outside_of root) (disk w) (disk w')"
    and "r = Inr (shown, 0) \<Longrightarrow> list_all entry_name cs \<Longrightarrow> node_at (disk w') (walk root @ cs) = None"
proof -
  have place: "walk root = walk tmp @ [''dpc-bench-'' @ dec (pid w)]" 
    unfolding root_def bench_root_def by (rule walk_plain) (simp only: list.pred_inject bench_names simp_thms)
  have not_top: "walk root \<noteq> []" "walk root \<noteq> [[slash]]" by (simp_all add: place)
  obtain r1 w1 where body: "bench_body T tmp cwd args w = (r1, w1)" by fastforce
  note outside = bench_body_run(1) [OF body, folded root_def] and same = bench_body_run(2) [OF body, folded root_def]
  obtain r2 w2 where rm: "remove_all root w1 = (r2, w2)" by fastforce
  have outside2: "untouched (outside_of root) (disk w) (disk w2)" using keepsD_eq [OF stays_remove_all outside rm] .
  have ends: "w' = w1 \<or> w' = w2" and ok: "r = Inr (shown, 0) \<Longrightarrow> w' = w2 \<and> r2 = Inr ()"
    using run body rm same by (auto simp: benchmark_def split: sum.splits prod.splits if_splits)
  show "untouched (outside_of root) (disk w) (disk w')" using ends outside outside2 by blast
  show "r = Inr (shown, 0) \<Longrightarrow> list_all entry_name cs \<Longrightarrow> node_at (disk w') (walk root @ cs) = None"
    using ok remove_all_ok(1) [OF _ not_top, of w1] rm by auto
qed

text \<open>Nothing is touched when the options are refused.\<close>

lemma benchmark_bad_mode:
  assumes "bench_parseOptions args = Inr opts" and "opts ''--chunking'' = Some m"
    and "m \<noteq> ''fixed''" and "m \<noteq> ''cdc''"
  shows "benchmark T tmp cwd args w = (Inr (\<lparr>con_out = [], con_err = ''error: invalid chunking mode: '' @ m @ [nl]\<rparr>, 1), w)"
  using assms
  by (simp add: benchmark_def bench_body_def io_bind_def io_lift_def io_throw_def bench_option_def Let_def logger_error_def said_def)

end
