(* ===== verification/DPC_Steps.thy ===== *)
theory DPC_Steps
  imports DPC_Bench
begin

text \<open>
  Computations that other threads interrupt. A \<open>prog\<close> is finished, or it does one step on the world
  and goes on; between two steps of it the world may change. Run without interruption it is a
  computation as everywhere else (\<open>run_prog\<close>). The functions that the server's handlers call
  are written out in steps here: a step is a call of the operating system, a look at the disk, or the
  writes of one \<open>writeAll\<close>; each is shown to be, uninterrupted, the function it is made from.
\<close>

section \<open>Computations in steps\<close>

datatype 'a prog = Finished "'a res" | Step "world \<Rightarrow> 'a prog \<times> world"

primrec run_prog :: "'a prog \<Rightarrow> 'a act" where
  "run_prog (Finished r) = (\<lambda>w. (r, w))"
| "run_prog (Step s) = (\<lambda>w. case map_prod run_prog id (s w) of (f, w') \<Rightarrow> f w')"

definition prog_do :: "'a act \<Rightarrow> 'a prog" where
  "prog_do m = Step (\<lambda>w. case m w of (r, w') \<Rightarrow> (Finished r, w'))"

primrec prog_bind :: "'a prog \<Rightarrow> ('a \<Rightarrow> 'b prog) \<Rightarrow> 'b prog" where
  "prog_bind (Finished r) f = (case r of Inl e \<Rightarrow> Finished (Inl e) | Inr a \<Rightarrow> f a)"
| "prog_bind (Step s) f = Step (\<lambda>w. map_prod (\<lambda>p. prog_bind p f) id (s w))"

definition prog_seq :: "'a prog \<Rightarrow> 'b prog \<Rightarrow> 'b prog" where
  "prog_seq p q = prog_bind p (\<lambda>_. q)"

abbreviation prog_return :: "'a \<Rightarrow> 'a prog" where
  "prog_return a \<equiv> Finished (Inr a)"

abbreviation prog_throw :: "exn \<Rightarrow> 'a prog" where
  "prog_throw e \<equiv> Finished (Inl e)"

fun prog_foreach :: "('a \<Rightarrow> unit prog) \<Rightarrow> 'a list \<Rightarrow> unit prog" where
  "prog_foreach f [] = prog_return ()"
| "prog_foreach f (x # xs) = prog_seq (f x) (prog_foreach f xs)"

declare run_prog.simps [simp del] prog_bind.simps [simp del]

section \<open>Uninterrupted\<close>

named_theorems run_simps \<open>what a computation in steps does when nothing comes between\<close>

lemma run_Finished [run_simps]: "run_prog (Finished r) = io_lift r"
  by (simp add: run_prog.simps io_lift_def)

lemma run_do [run_simps]: "run_prog (prog_do m) = m"
  by (simp add: run_prog.simps prog_do_def fun_eq_iff split: prod.splits)

lemma run_bind [run_simps]: "run_prog (prog_bind p f) = io_bind (run_prog p) (\<lambda>a. run_prog (f a))"
proof (induction p)
  case (Finished r)
  then show ?case by (cases r) (simp_all add: run_prog.simps prog_bind.simps fun_eq_iff io_bind_def)
next
  case (Step s)
  have "run_prog (prog_bind (Step s) f) w = io_bind (run_prog (Step s)) (\<lambda>a. run_prog (f a)) w" for w
  proof -
    obtain p w' where s: "s w = (p, w')" by fastforce
    then have "run_prog (prog_bind p f) = io_bind (run_prog p) (\<lambda>a. run_prog (f a))"
      by (intro Step [of "s w"]) (auto intro: range_eqI [of _ s w])
    then show ?thesis using s by (simp add: run_prog.simps prog_bind.simps io_bind_def)
  qed
  then show ?case by blast
qed

lemma run_seq [run_simps]: "run_prog (prog_seq p q) = io_seq (run_prog p) (run_prog q)"
  by (simp add: prog_seq_def io_seq_def run_bind)

lemma run_foreach [run_simps]: "run_prog (prog_foreach f xs) = io_foreach (\<lambda>x. run_prog (f x)) xs"
  by (induction xs) (simp_all add: run_simps io_lift_def io_return_def)

lemma run_cases [run_simps]:
  "run_prog (if b then p else q) = (if b then run_prog p else run_prog q)"
  "run_prog (case opt of None \<Rightarrow> p | Some x \<Rightarrow> g x) = (case opt of None \<Rightarrow> run_prog p | Some x \<Rightarrow> run_prog (g x))"
  by (simp_all split: option.splits)

lemma lift_return [run_simps]: "io_lift (Inr a) = io_return a" "io_lift (Inl e) = io_throw e"
  by (simp_all add: io_lift_def io_return_def io_throw_def)

lemma io_bind_assoc: "io_bind (io_bind m f) g = io_bind m (\<lambda>a. io_bind (f a) g)"
  by (simp add: fun_eq_iff io_bind_def split: prod.splits sum.splits)

section \<open>What every step keeps\<close>

text \<open>
  \<open>steady P Q p\<close>: every step of \<open>p\<close> from a world with \<open>P\<close> leads to one with \<open>P\<close>, whatever happened
  between the steps as long as it kept \<open>P\<close>, and a value that \<open>p\<close> returns has \<open>Q\<close>.
\<close>

inductive steady :: "(world \<Rightarrow> bool) \<Rightarrow> ('a \<Rightarrow> bool) \<Rightarrow> 'a prog \<Rightarrow> bool" for P Q where
  thrown: "steady P Q (Finished (Inl e))"
| returned: "Q a \<Longrightarrow> steady P Q (Finished (Inr a))"
| step: "(\<And>w. P w \<Longrightarrow> P (snd (s w)) \<and> steady P Q (fst (s w))) \<Longrightarrow> steady P Q (Step s)"

inductive_simps steady_iff: "steady P Q (Finished r)" "steady P Q (Step s)"

abbreviation anything :: "'a \<Rightarrow> bool" where
  "anything \<equiv> \<lambda>_. True"

named_theorems steady_intro \<open>the steps of a computation keep an invariant\<close>

lemma steady_Finished [steady_intro]: "steady P anything (Finished r)"
  by (cases r) (auto intro: steady.intros)

lemma steady_do:
  assumes "triple P m (\<lambda>a w. Q a \<and> P w) P"
  shows "steady P Q (prog_do m)"
  unfolding prog_do_def
proof (rule steady.step)
  fix w assume w: "P w"
  obtain r w' where run: "m w = (r, w')" by fastforce
  show "P (snd (case m w of (r, w') \<Rightarrow> (Finished r, w'))) \<and> steady P Q (fst (case m w of (r, w') \<Rightarrow> (Finished r, w')))"
    using run w tripleD_Inl [OF assms w] tripleD_Inr [OF assms w]
    by (cases r) (auto intro: steady.intros)
qed

lemma steady_keeps [steady_intro]: "keeps P m \<Longrightarrow> steady P anything (prog_do m)"
  by (rule steady_do) (simp add: keeps_triple)

lemma steady_bind_with:
  assumes "steady P R p" and "\<And>a. R a \<Longrightarrow> steady P Q (f a)"
  shows "steady P Q (prog_bind p f)"
  using assms(1)
proof (induction rule: steady.induct)
  case (step s)
  then show ?case by (auto simp: prog_bind.simps intro!: steady.step)
qed (auto simp: prog_bind.simps intro: steady.intros assms(2))

lemma steady_bind [steady_intro]:
  "steady P anything p \<Longrightarrow> (\<And>a. steady P Q (f a)) \<Longrightarrow> steady P Q (prog_bind p f)"
  by (rule steady_bind_with)

lemma steady_seq [steady_intro]:
  "steady P anything p \<Longrightarrow> steady P Q q \<Longrightarrow> steady P Q (prog_seq p q)"
  unfolding prog_seq_def by (rule steady_bind)

lemma steady_lift_bind [steady_intro]:
  "(\<And>a. r = Inr a \<Longrightarrow> steady P Q (f a)) \<Longrightarrow> steady P Q (prog_bind (Finished r) f)"
  by (cases r) (auto simp: prog_bind.simps intro: steady.intros)

lemma steady_foreach [steady_intro]:
  "(\<And>x. x \<in> set xs \<Longrightarrow> steady P anything (f x)) \<Longrightarrow> steady P anything (prog_foreach f xs)"
  by (induction xs) (auto intro!: steady_seq steady_Finished)

lemma steady_if [steady_intro]:
  "(b \<Longrightarrow> steady P Q p) \<Longrightarrow> (\<not> b \<Longrightarrow> steady P Q q) \<Longrightarrow> steady P Q (if b then p else q)"
  by simp

lemma steady_option [steady_intro]:
  "(opt = None \<Longrightarrow> steady P Q p) \<Longrightarrow> (\<And>x. opt = Some x \<Longrightarrow> steady P Q (g x)) \<Longrightarrow>
     steady P Q (case opt of None \<Rightarrow> p | Some x \<Rightarrow> g x)"
  by (cases opt) simp_all

text \<open>Run without interruption, a steady computation keeps the invariant.\<close>

lemma steady_run: "steady P Q p \<Longrightarrow> keeps P (run_prog p)"
proof (induction rule: steady.induct)
  case (step s)
  show ?case
  proof (rule keepsI)
    fix w assume "P w"
    then show "P (snd (run_prog (Step s) w))"
      using step keepsD by (cases "s w") (fastforce simp: run_prog.simps)
  qed
qed (simp_all add: run_prog.simps keeps_def)

section \<open>The file helpers in steps (FileUtils.hpp)\<close>

text \<open>
  A component of a path is looked at and made in one step: to find it made by another thread in
  between is no error for \<open>std::filesystem::create_directories\<close>.
\<close>

definition ensureDirectory_prog :: "path \<Rightarrow> unit prog" where
  "ensureDirectory_prog p =
     (let message = ''create directory failed: '' @ path_string p in
      if p = [] then prog_throw (DpcError (errnoMessage message ''Invalid argument''))
      else prog_foreach (\<lambda>k. prog_do (
        io_bind (io_get (\<lambda>w. node_at (disk w) k)) (\<lambda>n. case n of
            Some Directory \<Rightarrow> io_return ()
          | Some (File _ _) \<Rightarrow> io_throw (DpcError (errnoMessage message ''Not a directory''))
          | None \<Rightarrow> sys message (mkdir_call k))))
        (map (\<lambda>i. take i (walk p)) [1 ..< Suc (length (walk p))]))"

definition fsyncDirectory_prog :: "path \<Rightarrow> unit prog" where
  "fsyncDirectory_prog p =
     prog_seq (prog_do (sys (''open directory failed: '' @ path_string p) (open_dir_call (walk p))))
       (prog_do (fsyncFd (path_string p)))"

definition replace_file_prog :: "path \<Rightarrow> bytes \<Rightarrow> u32 \<Rightarrow> path \<Rightarrow> unit prog" where
  "replace_file_prog final_path data mode tmp_path =
     prog_bind (prog_do (io_get umask)) (\<lambda>um.
     prog_seq (prog_do (sys (''open temp file failed: '' @ path_string tmp_path)
               (creat_excl_call (walk tmp_path) (mode AND NOT um)))) (
     prog_seq (if data \<noteq> [] then prog_do (writeAll (walk tmp_path) data) else prog_return ()) (
     prog_seq (prog_do (fsyncFd (path_string tmp_path))) (
     prog_bind (prog_do (sys_try (rename_call (walk tmp_path) (walk final_path)))) (\<lambda>r. case r of
         None \<Rightarrow> fsyncDirectory_prog (butlast final_path)
       | Some m \<Rightarrow> prog_bind (prog_do (sys_try (unlink_call (walk tmp_path)))) (\<lambda>ignored.
           prog_throw (DpcError (errnoMessage
             (''rename failed: '' @ path_string tmp_path @ '' -> '' @ path_string final_path)
             (case ignored of None \<Rightarrow> m | Some errno \<Rightarrow> errno)))))))))"

definition writeFileAtomic_prog :: "path \<Rightarrow> bytes \<Rightarrow> u32 \<Rightarrow> unit prog" where
  "writeFileAtomic_prog final_path data mode =
     prog_seq (ensureDirectory_prog (butlast final_path)) (
     prog_bind (prog_do (makeTempPath final_path)) (replace_file_prog final_path data mode))"

definition writeTextAtomic_prog :: "path \<Rightarrow> string \<Rightarrow> u32 \<Rightarrow> unit prog" where
  "writeTextAtomic_prog final_path text mode = writeFileAtomic_prog final_path (bytes_of_string text) mode"

lemma run_ensureDirectory [run_simps]: "run_prog (ensureDirectory_prog p) = ensureDirectory p"
  by (simp add: ensureDirectory_prog_def ensureDirectory_def Let_def run_simps del: upt_Suc cong: if_cong)

lemma run_fsyncDirectory [run_simps]: "run_prog (fsyncDirectory_prog p) = fsyncDirectory p"
  by (simp add: fsyncDirectory_prog_def fsyncDirectory_def run_simps)

lemma run_writeFileAtomic [run_simps]: "run_prog (writeFileAtomic_prog p data mode) = writeFileAtomic p data mode"
  by (simp add: writeFileAtomic_prog_def replace_file_prog_def writeFileAtomic_def run_simps cong: if_cong option.case_cong)

lemma run_writeTextAtomic [run_simps]: "run_prog (writeTextAtomic_prog p t mode) = writeTextAtomic p t mode"
  by (simp add: writeTextAtomic_prog_def writeTextAtomic_def run_simps)

section \<open>The store in steps\<close>

definition ensureLayout_prog :: "path \<Rightarrow> unit prog" where
  "ensureLayout_prog repo =
     prog_seq (ensureDirectory_prog (repo @ [''objects''])) (
     prog_seq (ensureDirectory_prog (repo @ [''manifests''])) (
     prog_seq (ensureDirectory_prog (repo @ [''metadata'', ''sessions''])) (
     ensureDirectory_prog (repo @ [''tmp'']))))"

definition wal_append_prog :: "path \<Rightarrow> wal_type \<Rightarrow> string \<Rightarrow> unit prog" where
  "wal_append_prog repo type payload =
     prog_seq (ensureDirectory_prog (butlast (walPath repo))) (
     prog_bind (Finished (encodeRecord type (bytes_of_string payload))) (\<lambda>encoded.
     prog_bind (prog_do (io_get umask)) (\<lambda>um.
     prog_seq (prog_do (sys ''open wal failed'' (open_append_call (walk (walPath repo)) (0x1a4 AND NOT um)))) (
     prog_seq (prog_do (writeAll (walk (walPath repo)) encoded)) (
     prog_do (fsyncFd ''wal.log''))))))"

definition putCompressed_prog :: "third_party \<Rightarrow> path \<Rightarrow> string \<Rightarrow> bytes \<Rightarrow> u64 \<Rightarrow> put_result prog" where
  "putCompressed_prog T repo sha compressed raw_sz =
     prog_seq (ensureLayout_prog repo) (
     prog_bind (Finished (requireSha256Hex sha ''sha256'')) (\<lambda>checked.
     prog_bind (Finished (objectPathForHash sha)) (\<lambda>rel.
     prog_bind (Finished (absoluteObjectPath repo rel)) (\<lambda>abs.
     let result = \<lparr>pr_sha = sha, pr_path = rel, pr_raw_size = raw_sz,
                   pr_compressed_size = word_of_nat (length compressed), pr_inserted = False\<rparr> in
     prog_bind (prog_do (io_get (\<lambda>w. exists_path (disk w) abs))) (\<lambda>there.
     if there then
       prog_bind (prog_do (io_query (\<lambda>w. readRaw T (disk w) repo sha rel))) (\<lambda>raw.
       if word_of_nat (length raw) \<noteq> raw_sz
       then prog_throw (DpcError (''existing object raw size mismatch: '' @ sha))
       else prog_bind (prog_do (io_query (\<lambda>w. fileSize (disk w) abs))) (\<lambda>stored.
         prog_return (result\<lparr>pr_inserted := False, pr_compressed_size := stored\<rparr>)))
     else
       prog_seq (writeFileAtomic_prog abs compressed 0x1a4)
         (prog_return (result\<lparr>pr_inserted := True\<rparr>)))))))"

definition writeTmp_prog :: "path \<Rightarrow> u64 \<Rightarrow> manifest \<Rightarrow> unit prog" where
  "writeTmp_prog repo version m = writeTextAtomic_prog (tmpManifestPath repo version) (serialize m) 0x1a4"

definition renameTmpToManifest_prog :: "path \<Rightarrow> u64 \<Rightarrow> unit prog" where
  "renameTmpToManifest_prog repo version =
     (let tmp = tmpManifestPath repo version; final = manifestPath repo version in
      prog_seq (ensureDirectory_prog (butlast final)) (
      prog_seq (prog_do (sys ''rename manifest failed'' (rename_call (walk tmp) (walk final)))) (
      fsyncDirectory_prog (butlast final))))"

definition marker_create_prog :: "path \<Rightarrow> u64 \<Rightarrow> unit prog" where
  "marker_create_prog repo version = writeTextAtomic_prog (commitPath repo version) (''committed'' @ [nl]) 0x1a4"

lemma run_store [run_simps]:
  "run_prog (ensureLayout_prog repo) = ensureLayout repo"
  "run_prog (wal_append_prog repo t x) = wal_append_text repo t x"
  "run_prog (writeTmp_prog repo v m) = writeTmp repo v m"
  "run_prog (renameTmpToManifest_prog repo v) = renameTmpToManifest repo v"
  "run_prog (marker_create_prog repo v) = marker_create repo v"
  by (simp_all add: ensureLayout_prog_def ensureLayout_def wal_append_prog_def wal_append_text_def wal_append_def
      writeTmp_prog_def writeTmp_def renameTmpToManifest_prog_def renameTmpToManifest_def Let_def
      marker_create_prog_def marker_create_def run_simps)

lemma run_putCompressed [run_simps]: "run_prog (putCompressed_prog T repo sha c n) = putCompressed T repo sha c n"
  by (simp add: putCompressed_prog_def putCompressed_def Let_def io_seq_def [of "io_lift _"] run_simps
      cong: if_cong)

section \<open>The handlers in steps (BackupServer.cpp)\<close>

definition session_append_prog :: "path \<Rightarrow> string \<Rightarrow> bool prog" where
  "session_append_prog p text =
     prog_seq (ensureDirectory_prog (butlast p)) (
     prog_seq (prog_do (stream_open p)) (
     prog_do (stream_write p text)))"

definition appendChunk_prog :: "path \<Rightarrow> string \<Rightarrow> received_chunk \<Rightarrow> unit prog" where
  "appendChunk_prog repo sid r =
     prog_bind (prog_do (io_query (\<lambda>w. received (disk w) repo sid))) (\<lambda>existing.
     case map_of existing (rc_global_index r) of
       None \<Rightarrow>
         prog_bind (session_append_prog (session_path repo sid) (chunk_line_text r)) (\<lambda>good.
         if good then prog_return ()
         else prog_throw (DpcError (''write session index failed: '' @ path_string (session_path repo sid))))
     | Some sha \<Rightarrow>
         (if sha \<noteq> rc_sha256 r
          then prog_throw (DpcError ''session index checksum mismatch for duplicate chunk index'')
          else prog_return ()))"

definition markCommitted_prog :: "path \<Rightarrow> string \<Rightarrow> u64 \<Rightarrow> unit prog" where
  "markCommitted_prog repo sid version =
     prog_bind (session_append_prog (session_path repo sid) (''COMMITTED '' @ dec_word version @ [nl]))
       (\<lambda>ignored. prog_return ())"

definition writeCheckpoint_prog :: "path \<Rightarrow> unit prog" where
  "writeCheckpoint_prog repo =
     prog_bind (prog_do (io_query (\<lambda>w. listCommittedVersions (disk w) repo))) (\<lambda>versions.
     writeTextAtomic_prog (checkpointPath repo)
       (checkpoint_text \<lparr>latest_committed_version = latest_of versions, committed_versions = versions\<rparr>) 0x1a4)"

definition handle_put_prog :: "third_party \<Rightarrow> path \<Rightarrow> packet \<Rightarrow> unit prog" where
  "handle_put_prog T repo p =
     prog_bind (Finished (parsePutPayload (pk_payload p))) (\<lambda>put.
     prog_bind (Finished (decompress T (pp_compressed put) (unat (pp_raw_size put)))) (\<lambda>raw.
     prog_bind (Finished (sha256Hex T raw)) (\<lambda>sha.
     if sha \<noteq> shaHexFromArray (pk_sha p) then prog_throw (DpcError ''PUT_CHUNK checksum mismatch'')
     else
       prog_bind (putCompressed_prog T repo sha (pp_compressed put) (pp_raw_size put)) (\<lambda>stored.
       prog_seq (appendChunk_prog repo (pp_session_id put) (record_of p put sha stored)) (
       prog_do (sendText PutChunkAck (pk_session p) (''ok'' @ [nl])))))))"

definition handle_commit_prog :: "path \<Rightarrow> packet \<Rightarrow> unit prog" where
  "handle_commit_prog repo p =
     prog_bind (Finished (parseTextFields (payloadString p) ''DPC_COMMIT_V1'')) (\<lambda>kv.
     prog_bind (Finished (rbind (field kv ''session_hex'') hexDecodeString)) (\<lambda>sid.
     prog_bind (Finished (parseU64 kv ''total_chunks'')) (\<lambda>total_chunks.
     prog_bind (prog_do (io_query (\<lambda>w. nextVersion (disk w) repo))) (\<lambda>version.
     prog_seq (wal_append_prog repo BeginBackup (''network-version='' @ dec_word version @ [nl])) (
     prog_bind (prog_do (io_query (\<lambda>w. buildManifest (disk w) repo sid (system_clock w) version total_chunks))) (\<lambda>m.
     prog_seq (writeTmp_prog repo version m) (
     prog_seq (wal_append_prog repo WriteManifest (version_text version)) (
     prog_seq (renameTmpToManifest_prog repo version) (
     prog_seq (wal_append_prog repo RenameManifest (version_text version)) (
     prog_seq (marker_create_prog repo version) (
     prog_seq (wal_append_prog repo CommitBackup (version_text version)) (
     prog_seq (writeCheckpoint_prog repo) (
     prog_seq (markCommitted_prog repo sid version) (
     prog_do (sendText CommitAck (pk_session p) (''committed_version '' @ dec_word version @ [nl]))))))))))))))))"

definition handlePacket_prog :: "third_party \<Rightarrow> path \<Rightarrow> packet \<Rightarrow> unit prog" where
  "handlePacket_prog T repo p =
     (case pk_type p of
        PutChunk \<Rightarrow> handle_put_prog T repo p
      | CommitSession \<Rightarrow> handle_commit_prog repo p
      | _ \<Rightarrow> prog_do (handlePacket T repo p))"

lemma run_session [run_simps]:
  "run_prog (appendChunk_prog repo sid r) = appendChunk repo sid r"
  "run_prog (markCommitted_prog repo sid v) = markCommitted repo sid v"
  "run_prog (writeCheckpoint_prog repo) = writeCheckpoint repo"
  by (simp_all add: appendChunk_prog_def appendChunk_def session_append_prog_def markCommitted_prog_def
      markCommitted_def writeCheckpoint_prog_def writeCheckpoint_def checkpoint_write_def run_simps
      io_seq_def io_bind_assoc cong: if_cong option.case_cong)

lemma run_handle_put [run_simps]: "run_prog (handle_put_prog T repo p) = handle_put T repo p"
  by (simp add: handle_put_prog_def handle_put_def run_simps cong: if_cong)

lemma run_handle_commit [run_simps]: "run_prog (handle_commit_prog repo p) = handle_commit repo p"
  by (simp add: handle_commit_prog_def handle_commit_def run_simps cong: if_cong)

lemma run_handlePacket [run_simps]: "run_prog (handlePacket_prog T repo p) = handlePacket T repo p"
  by (simp add: handlePacket_prog_def handlePacket_def run_simps split: packet_type.split)

end
