(* ===== verification/DPC_Workers.thy ===== *)
theory DPC_Workers
  imports DPC_Steps
begin

text \<open>
  The server with all its workers: a step relation in which the steps of the handlers of different
  connections come in any order (src/src/network/BackupServer.cpp), what no order of them can do, and
  that a server with one worker is the loop \<open>serve\<close>.
\<close>

section \<open>A disk shared by threads\<close>

text \<open>
  \<open>D\<close> is a fact of the disk that all threads rely on, \<open>W\<close> are the places where they may write and \<open>R\<close>
  those whose file they may remove or rename: the fact holds whatever they put there or remove there.
\<close>

locale shared_disk =
  fixes D :: "fs \<Rightarrow> bool" and W R :: "path set"
  assumes mkdir: "D d \<Longrightarrow> node_at d k = None \<Longrightarrow> D (AList.update k Directory d)"
    and put: "D d \<Longrightarrow> k \<in> W \<Longrightarrow> D (AList.update k (File c m) d)"
    and remove: "D d \<Longrightarrow> k \<in> R \<Longrightarrow> D (AList.delete k d)"
begin

lemma keeps_component: "keeps (on_disk D) (io_bind (io_get (\<lambda>w. node_at (disk w) k)) (\<lambda>n. case n of
    Some Directory \<Rightarrow> io_return () | Some (File _ _) \<Rightarrow> io_throw e | None \<Rightarrow> sys message (mkdir_call k)))"
proof -
  have made: "keeps (on_disk D) (sys message (mkdir_call k))"
    by (intro keeps_sys) (auto simp: mkdir_call_def intro: mkdir split: if_splits)
  have "keeps (on_disk D) (case n of Some Directory \<Rightarrow> io_return () | Some (File _ _) \<Rightarrow> io_throw e
      | None \<Rightarrow> sys message (mkdir_call k))" for n
    using made by (auto intro: keeps_return keeps_throw split: option.splits node.splits)
  then show ?thesis by (intro keeps_bind keeps_get)
qed

lemma steady_ensureDirectory [steady_intro]: "steady (on_disk D) anything (ensureDirectory_prog p)"
  unfolding ensureDirectory_prog_def Let_def
  by (intro steady_if steady_Finished steady_foreach steady_keeps keeps_component)

lemma keeps_open_dir: "keeps (on_disk D) (sys m (open_dir_call k))"
  by (intro keeps_sys) (auto simp: open_dir_call_def split: if_splits)

lemma steady_fsyncDirectory [steady_intro]: "steady (on_disk D) anything (fsyncDirectory_prog p)"
  unfolding fsyncDirectory_prog_def
  by (intro steady_intro keeps_fsyncFd keeps_sys) (auto simp: open_dir_call_def split: if_splits)

lemma keeps_append: "k \<in> W \<Longrightarrow> keeps (on_disk D) (writeAll k data)"
  by (rule keeps_writeAll) (auto simp: append_bytes_def intro: put split: option.splits node.splits)

lemma keeps_append_text:
  assumes "\<And>data. keeps (on_disk D) (writeAll (walk p) data)"
  shows "keeps (on_disk D) (stream_write p x)"
proof (rule keepsI)
  fix w :: world assume "D (disk w)"
  then have "D (disk (snd (writeAll (walk p) (bytes_of_string x) w)))" by (rule keepsD [OF assms])
  then show "D (disk (snd (stream_write p x w)))"
    by (cases "writeAll (walk p) (bytes_of_string x) w") (simp add: stream_write_def split: sum.splits)
qed

lemma keeps_create: "k \<in> W \<Longrightarrow> keeps (on_disk D) (sys m (creat_excl_call k mode))"
  by (intro keeps_sys) (auto simp: creat_excl_call_def intro: put split: if_splits)

lemma keeps_open: "k \<in> W \<Longrightarrow> keeps (on_disk D) (sys_try (open_append_call k mode))"
  by (intro keeps_sys_try) (auto simp: open_append_call_def intro: put split: option.splits node.splits if_splits)

lemma keeps_open_sys: "k \<in> W \<Longrightarrow> keeps (on_disk D) (sys m (open_append_call k mode))"
  by (intro keeps_sys) (auto simp: open_append_call_def intro: put split: option.splits node.splits if_splits)

lemma rename_kept: "D d \<Longrightarrow> k \<in> R \<Longrightarrow> k' \<in> W \<Longrightarrow> rename_call k k' d = Inr d' \<Longrightarrow> D d'"
  by (auto simp: rename_call_def intro: put remove split: option.splits node.splits if_splits)

lemma unlink_kept: "D d \<Longrightarrow> k \<in> R \<Longrightarrow> unlink_call k d = Inr d' \<Longrightarrow> D d'"
  by (auto simp: unlink_call_def intro: remove split: option.splits node.splits)

lemma steady_temp: "steady (on_disk D) (\<lambda>t. temp_of p (walk t)) (prog_do (makeTempPath p))"
  by (rule steady_do) (auto intro!: tripleI dest: makeTempPath_temp)

text \<open>Whatever the other threads do between its steps, an atomic write touches only places of \<open>W\<close>.\<close>

lemma steady_replace_file:
  assumes p: "walk p \<in> W" and t: "walk t \<in> W" and t': "walk t \<in> R"
  shows "steady (on_disk D) anything (replace_file_prog p data mode t)"
proof -
  have "keeps (on_disk D) (sys_try (rename_call (walk t) (walk p)))"
    by (rule keeps_sys_try) (rule rename_kept [OF _ t' p])
  moreover have "keeps (on_disk D) (sys_try (unlink_call (walk t)))"
    by (rule keeps_sys_try) (rule unlink_kept [OF _ t'])
  ultimately show ?thesis
    unfolding replace_file_prog_def
    using steady_keeps [OF keeps_create [OF t]] steady_keeps [OF keeps_append [OF t]] steady_keeps [OF keeps_fsyncFd]
    by (intro steady_seq steady_bind steady_if steady_option steady_fsyncDirectory steady_Finished steady_keeps [OF keeps_get])
      (simp_all add: steady_keeps)
qed

lemma steady_writeFileAtomic:
  assumes "walk p \<in> W" and "\<And>t. temp_of p t \<Longrightarrow> t \<in> W \<and> t \<in> R"
  shows "steady (on_disk D) anything (writeFileAtomic_prog p data mode)"
  unfolding writeFileAtomic_prog_def
  using assms by (intro steady_seq steady_ensureDirectory steady_bind_with [OF steady_temp] steady_replace_file) simp_all

end

section \<open>A repository shared by threads\<close>

text \<open>
  The places a handler writes at: temporary names, the log and the indices, tmp/, an object that is
  not there, and the files of the next version.
\<close>

locale shared_repo = shared_disk +
  fixes repo :: path
  assumes temporary: "list_all plain_name cs \<Longrightarrow> 2 \<le> length cs \<Longrightarrow> temp_of (repo @ cs) t \<Longrightarrow> t \<in> W \<and> t \<in> R"
    and area: "c \<in> {''metadata'', ''tmp''} \<Longrightarrow> cs \<noteq> [] \<Longrightarrow> walk repo @ c # cs \<in> W \<and> walk repo @ c # cs \<in> R"
    and new_object: "D d \<Longrightarrow> isSha256Hex sha \<Longrightarrow> \<not> exists_path d (repo @ object_names sha) \<Longrightarrow>
      object_place repo sha \<in> W"
    and new_version: "D d \<Longrightarrow> nextVersion d repo = Inr v \<Longrightarrow>
      walk (manifestPath repo v) \<in> W \<and> walk (commitPath repo v) \<in> W"
begin

lemma steady_ensureLayout [steady_intro]: "steady (on_disk D) anything (ensureLayout_prog repo)"
  unfolding ensureLayout_prog_def by (intro steady_intro)

lemma walk_log_place: "walk (walPath repo) = walk repo @ [''metadata'', ''wal.log'']"
  by (simp add: walPath_def walk_plain)

lemma steady_wal_append [steady_intro]: "steady (on_disk D) anything (wal_append_prog repo type payload)"
proof -
  have "walk (walPath repo) \<in> W" unfolding walk_log_place by (rule area [THEN conjunct1]) simp_all
  then show ?thesis
    unfolding wal_append_prog_def
    by (intro steady_intro keeps_get keeps_open_sys keeps_append keeps_fsyncFd)
qed

lemma steady_text:
  "list_all plain_name cs \<Longrightarrow> 2 \<le> length cs \<Longrightarrow> walk (repo @ cs) \<in> W \<Longrightarrow>
     steady (on_disk D) anything (writeTextAtomic_prog (repo @ cs) x mode)"
  unfolding writeTextAtomic_prog_def using temporary by (intro steady_writeFileAtomic)

lemma steady_writeTmp [steady_intro]: "steady (on_disk D) anything (writeTmp_prog repo v m)"
  using area [of "''tmp''" "[versionFileName v ''.manifest.tmp'']"]
  unfolding writeTmp_prog_def tmpManifestPath_def by (intro steady_text) (simp_all add: walk_plain)

lemma steady_renameTmp: "walk (manifestPath repo v) \<in> W \<Longrightarrow> steady (on_disk D) anything (renameTmpToManifest_prog repo v)"
proof -
  assume m: "walk (manifestPath repo v) \<in> W"
  have "walk (tmpManifestPath repo v) \<in> R" unfolding walk_version_paths by (rule area [THEN conjunct2]) simp_all
  then have "keeps (on_disk D) (sys x (rename_call (walk (tmpManifestPath repo v)) (walk (manifestPath repo v))))" for x
    using rename_kept [OF _ _ m] by (auto intro: keeps_sys)
  then show ?thesis unfolding renameTmpToManifest_prog_def Let_def by (intro steady_intro)
qed

lemma steady_marker: "walk (commitPath repo v) \<in> W \<Longrightarrow> steady (on_disk D) anything (marker_create_prog repo v)"
  unfolding marker_create_prog_def commitPath_def by (rule steady_text) simp_all

lemma steady_checkpoint [steady_intro]: "steady (on_disk D) anything (writeCheckpoint_prog repo)"
  using area [of "''metadata''" "[''checkpoint.dat'']"]
  unfolding writeCheckpoint_prog_def checkpointPath_def
  by (intro steady_bind steady_keeps keeps_query steady_text) (simp_all add: walk_plain)

lemma steady_object:
  assumes sha: "isSha256Hex sha" and "D d" and "\<not> exists_path d (repo @ object_names sha)"
  shows "steady (on_disk D) anything (writeFileAtomic_prog (repo @ object_names sha) c mode)"
proof (rule steady_writeFileAtomic)
  show "walk (repo @ object_names sha) \<in> W" unfolding walk_object [OF sha] by (rule new_object [OF assms(2,1,3)])
  show "t \<in> W \<and> t \<in> R" if "temp_of (repo @ object_names sha) t" for t
    by (rule temporary [OF object_names_plain(1) [OF sha] _ that]) (simp add: object_names_def)
qed

lemma object_place_of:
  "objectPathForHash sha = Inr rel \<Longrightarrow> absoluteObjectPath repo rel = Inr ab \<Longrightarrow> isSha256Hex sha \<and> ab = repo @ object_names sha"
  using absoluteObjectPath_object [of sha repo] by (auto simp: objectPathForHash_join)

lemma steady_put [steady_intro]: "steady (on_disk D) anything (putCompressed_prog T repo sha c n)"
proof -
  let ?there = "\<lambda>ab there. there \<or> (\<exists>d. D d \<and> \<not> exists_path d ab)"
  have look: "steady (on_disk D) (?there ab) (prog_do (io_get (\<lambda>w. exists_path (disk w) ab)))" for ab
    by (rule steady_do) (auto intro!: tripleI)
  have new: "steady (on_disk D) anything (writeFileAtomic_prog ab c mode)"
    if "?there ab there" "\<not> there" "objectPathForHash sha = Inr rel" "absoluteObjectPath repo rel = Inr ab" for there mode rel ab
    using that(1,2) object_place_of [OF that(3,4)] steady_object [of sha] by blast
  show ?thesis
    unfolding putCompressed_prog_def Let_def
    by (intro steady_seq steady_ensureLayout steady_lift_bind steady_bind_with [OF look] steady_if)
      (auto intro!: steady_bind steady_keeps keeps_query steady_if steady_Finished intro: new)
qed

lemma steady_session [steady_intro]:
  "steady (on_disk D) anything (session_append_prog (session_path repo sid) x)"
proof -
  have k: "walk (session_path repo sid) \<in> W" unfolding walk_session by (rule area [THEN conjunct1]) simp_all
  then have "keeps (on_disk D) (stream_open (session_path repo sid))"
    unfolding stream_open_def by (intro keeps_intro keeps_open)
  moreover have "keeps (on_disk D) (stream_write (session_path repo sid) x)"
    by (rule keeps_append_text) (rule keeps_append [OF k])
  ultimately show ?thesis
    unfolding session_append_prog_def by (intro steady_intro)
qed

lemma steady_appendChunk [steady_intro]: "steady (on_disk D) anything (appendChunk_prog repo sid r)"
  unfolding appendChunk_prog_def by (intro steady_intro keeps_query)

lemma steady_markCommitted [steady_intro]: "steady (on_disk D) anything (markCommitted_prog repo sid v)"
  unfolding markCommitted_prog_def by (intro steady_intro)

lemma steady_handle_put [steady_intro]: "steady (on_disk D) anything (handle_put_prog T repo p)"
  unfolding handle_put_prog_def by (intro steady_intro keeps_sendText)

lemma steady_handle_commit [steady_intro]: "steady (on_disk D) anything (handle_commit_prog repo p)"
proof -
  have next_version: "steady (on_disk D) (\<lambda>v. walk (manifestPath repo v) \<in> W \<and> walk (commitPath repo v) \<in> W)
      (prog_do (io_query (\<lambda>w. nextVersion (disk w) repo)))"
    by (rule steady_do) (auto intro!: tripleI dest: new_version)
  show ?thesis
    unfolding handle_commit_prog_def
    by (intro steady_lift_bind steady_bind_with [OF next_version])
      (auto intro!: steady_seq steady_bind steady_intro steady_renameTmp steady_marker keeps_query keeps_sendText)
qed

lemma steady_handlePacket [steady_intro]: "steady (on_disk D) anything (handlePacket_prog T repo p)"
  unfolding handlePacket_prog_def handlePacket_def handle_query_def
  by (cases "pk_type p") (auto intro!: steady_intro keeps_intro)

end

text \<open>The committed versions and what is outside of the repository, and where the handlers write.\<close>

definition server_fact :: "fs \<Rightarrow> path \<Rightarrow> fs \<Rightarrow> bool" where
  "server_fact d0 repo d \<longleftrightarrow> versions_safe d0 repo d \<and> untouched (outside_of repo) d0 d"

definition writable :: "fs \<Rightarrow> path \<Rightarrow> path set" where
  "writable d0 repo = {walk repo @ cs | cs. 2 \<le> length cs}
     \<inter> {k. k \<notin> durable repo (committed d0 repo) \<or> (\<forall>c m. node_at d0 k \<noteq> Some (File c m))}"

lemma kept_delete_new: "(\<And>c m. node_at d0 k \<noteq> Some (File c m)) \<Longrightarrow> kept K d0 d \<Longrightarrow> kept K d0 (AList.delete k d)"
  unfolding kept_def by (metis node_at_delete_other)

lemma kept_writable:
  assumes "k \<in> writable d0 repo" and "kept (durable repo (committed d0 repo)) d0 d"
  shows "kept (durable repo (committed d0 repo)) d0 (AList.update k n d)"
    and "kept (durable repo (committed d0 repo)) d0 (AList.delete k d)"
proof -
  have "k \<notin> durable repo (committed d0 repo) \<or> (\<forall>c m. node_at d0 k \<noteq> Some (File c m))"
    using assms(1) by (simp add: writable_def)
  then show "kept (durable repo (committed d0 repo)) d0 (AList.update k n d)"
    and "kept (durable repo (committed d0 repo)) d0 (AList.delete k d)"
    using assms(2) by (blast intro: kept_update kept_new kept_delete kept_delete_new)+
qed

interpretation handlers: shared_repo "server_fact d0 repo" "writable d0 repo" "writable d0 repo" repo for d0 repo
proof
  fix d :: fs and k c m
  show "server_fact d0 repo (AList.update k Directory d)" if "server_fact d0 repo d" "node_at d k = None"
    using that unfolding server_fact_def versions_safe_def by (blast intro: kept_mkdir dirs.mkdir stays.mkdir)
  show "server_fact d0 repo (AList.update k (File c m) d)" if d: "server_fact d0 repo d" and k: "k \<in> writable d0 repo"
  proof -
    obtain cs where cs: "k = walk repo @ cs" "2 \<le> length cs" using k by (auto simp: writable_def)
    show ?thesis
      using d kept_writable [OF k] dirs.put [OF _ cs(2)] stays.put [OF _ cs(2)]
      unfolding server_fact_def versions_safe_def cs(1) by blast
  qed
  show "server_fact d0 repo (AList.delete k d)" if d: "server_fact d0 repo d" and k: "k \<in> writable d0 repo"
  proof -
    obtain cs where cs: "k = walk repo @ cs" "2 \<le> length cs" using k by (auto simp: writable_def)
    show ?thesis
      using d kept_writable [OF k] dirs.remove [OF _ cs(2)] stays.remove [OF _ cs(2)]
      unfolding server_fact_def versions_safe_def cs(1) by blast
  qed
next
  fix cs t
  assume cs: "list_all plain_name cs" "2 \<le> length cs" and t: "temp_of (repo @ cs) t"
  have ne: "cs \<noteq> []" using cs(2) by auto
  obtain process tick where place: "t = walk repo @ butlast cs @ [temp_name (last cs) process tick]"
    using temp_of_plain [OF cs(1) ne t] by blast
  have "2 \<le> length (butlast cs @ [temp_name (last cs) process tick])" using cs(2) by simp
  then show "t \<in> writable d0 repo \<and> t \<in> writable d0 repo"
    unfolding writable_def using place temp_not_durable [OF cs(1) ne t] by blast
next
  fix c :: string and cs :: path
  assume c: "c \<in> {''metadata'', ''tmp''}" and "cs \<noteq> []"
  then have "2 \<le> length (c # cs)" by (cases cs) simp_all
  moreover have "walk repo @ c # cs \<notin> durable repo (committed d0 repo)" using c by (auto simp: not_durable_dir)
  ultimately show "walk repo @ c # cs \<in> writable d0 repo \<and> walk repo @ c # cs \<in> writable d0 repo" unfolding writable_def by blast
next
  fix d sha
  assume d: "server_fact d0 repo d" and sha: "isSha256Hex sha" and new: "\<not> exists_path d (repo @ object_names sha)"
  have "node_at d (object_place repo sha) = None" using new by (simp add: exists_path_def walk_object [OF sha])
  then have "node_at d0 (object_place repo sha) \<noteq> Some (File c m)" for c m
    using d keptD [OF _ object_durable [OF sha]] unfolding server_fact_def versions_safe_def by fastforce
  moreover have "object_place repo sha = walk repo @ object_names sha" "2 \<le> length (object_names sha)"
    by (simp_all add: object_place_def object_names_def)
  ultimately show "object_place repo sha \<in> writable d0 repo" unfolding writable_def by blast
next
  fix d v
  assume d: "server_fact d0 repo d" and v: "nextVersion d repo = Inr v"
  have "v \<notin> committed d0 repo"
    using nextVersion_not_committed [OF v] d unfolding server_fact_def versions_safe_def by blast
  then have "walk repo @ [''manifests'', versionFileName v s] \<notin> durable repo (committed d0 repo)"
    if "s \<in> {''.manifest'', ''.commit''}" for s
    using that by (rule new_version_not_durable)
  then show "walk (manifestPath repo v) \<in> writable d0 repo \<and> walk (commitPath repo v) \<in> writable d0 repo"
    unfolding walk_version_paths writable_def by auto
qed

section \<open>The server (BackupServer.cpp)\<close>

text \<open>
  A worker waits for a connection, is before its \<open>k\<close>-th look at \<open>stopped_\<close>, or is in the handling of a
  packet. A connection has its own unread and written bytes.
\<close>

datatype worker_state =
    Waiting
  | AtLoop nat "nat \<Rightarrow> bool" bytes bytes
  | InPacket nat "nat \<Rightarrow> bool" bytes bytes "unit prog"

text \<open>The accepted connections whose tasks are queued, the workers, and the exception that ended the process.\<close>

record server =
  sv_world :: world
  sv_queue :: "connection list"
  sv_workers :: "worker_state list"
  sv_ended :: "exn option"

definition on_socket :: "bytes \<Rightarrow> bytes \<Rightarrow> world \<Rightarrow> world" where
  "on_socket rest sent w = w\<lparr>sock_in := rest, sock_out := sent\<rparr>"

text \<open>The step of a worker that has a connection, with the exception that leaves its task, if one does.\<close>

fun worker_step :: "third_party \<Rightarrow> path \<Rightarrow> worker_state \<Rightarrow> world \<Rightarrow> worker_state \<times> exn option \<times> world" where
  "worker_step T repo Waiting w = (Waiting, None, w)"
| "worker_step T repo (AtLoop k stop rest sent) w =
     (if stop k then (Waiting, None, on_socket rest sent w)
      else (InPacket k stop rest sent (prog_bind (prog_do readPacket) (handlePacket_prog T repo)), None, w))"
| "worker_step T repo (InPacket k stop rest sent (Step s)) w =
     (case s (on_socket rest sent w) of (p, w') \<Rightarrow> (InPacket k stop (sock_in w') (sock_out w') p, None, w'))"
| "worker_step T repo (InPacket k stop rest sent (Finished (Inr u))) w =
     (AtLoop (k + 1) stop rest sent, None, w)"
| "worker_step T repo (InPacket k stop rest sent (Finished (Inl e))) w =
     (if \<not> is_dpc_error e then (Waiting, Some e, on_socket rest sent w)
      else if what e \<noteq> ''socket closed'' then
        (case sendError 0 (what e) (on_socket rest sent w) of
           (Inl e', w') \<Rightarrow> (Waiting, Some e', w')
         | (Inr _, w') \<Rightarrow> (Waiting, None, w'))
      else (Waiting, None, on_socket rest sent w))"

inductive server_step :: "third_party \<Rightarrow> path \<Rightarrow> server \<Rightarrow> server \<Rightarrow> bool" for T repo where
  accept: "sv_ended s = None \<Longrightarrow> server_step T repo s (s\<lparr>sv_queue := sv_queue s @ [conn]\<rparr>)"
| take: "sv_ended s = None \<Longrightarrow> sv_queue s = conn # conns \<Longrightarrow> i < length (sv_workers s) \<Longrightarrow> sv_workers s ! i = Waiting \<Longrightarrow>
    server_step T repo s (s\<lparr>sv_queue := conns, sv_workers := (sv_workers s)[i := AtLoop 0 (snd conn) (fst conn) []]\<rparr>)"
| work: "sv_ended s = None \<Longrightarrow> i < length (sv_workers s) \<Longrightarrow> sv_workers s ! i \<noteq> Waiting \<Longrightarrow>
    worker_step T repo (sv_workers s ! i) (sv_world s) = (wk, e, w') \<Longrightarrow>
    server_step T repo s (s\<lparr>sv_world := w', sv_workers := (sv_workers s)[i := wk], sv_ended := e\<rparr>)"

inductive_cases server_stepE: "server_step T repo s s'"

abbreviation server_runs :: "third_party \<Rightarrow> path \<Rightarrow> server \<Rightarrow> server \<Rightarrow> bool" where
  "server_runs T repo \<equiv> (server_step T repo)\<^sup>*\<^sup>*"

text \<open>No worker is in the handling of a packet.\<close>

fun handles_packet :: "worker_state \<Rightarrow> bool" where
  "handles_packet (InPacket _ _ _ _ _) = True"
| "handles_packet _ = False"

definition between_packets :: "server \<Rightarrow> bool" where
  "between_packets s \<longleftrightarrow> \<not> list_ex handles_packet (sv_workers s)"

section \<open>What no order of the steps can do\<close>

fun worker_steady :: "(fs \<Rightarrow> bool) \<Rightarrow> worker_state \<Rightarrow> bool" where
  "worker_steady D (InPacket k stop rest sent p) \<longleftrightarrow> steady (on_disk D) anything p"
| "worker_steady D _ \<longleftrightarrow> True"

definition server_steady :: "(fs \<Rightarrow> bool) \<Rightarrow> server \<Rightarrow> bool" where
  "server_steady D s \<longleftrightarrow> D (disk (sv_world s)) \<and> list_all (worker_steady D) (sv_workers s)"

lemma disk_on_socket [simp]: "disk (on_socket rest sent w) = disk w"
  by (simp add: on_socket_def)

lemma keeps_readPacket_disk: "keeps (on_disk D) readPacket"
  by (intro keeps_intro)

lemma worker_step_steady:
  assumes packet: "\<And>p. steady (on_disk D) anything (handlePacket_prog T repo p)"
    and run: "worker_step T repo wk w = (wk', e, w')" and "worker_steady D wk" and "D (disk w)"
  shows "worker_steady D wk' \<and> D (disk w')"
proof (cases "(T, repo, wk, w)" rule: worker_step.cases)
  case (2 T' repo' k stop rest sent w1)
  then show ?thesis
    using assms(2-4) packet by (auto intro!: steady_bind steady_keeps keeps_readPacket_disk split: if_splits)
next
  case (3 T' repo' k stop rest sent s w1)
  then show ?thesis using assms(2-4) by (auto simp: steady_iff split: prod.splits dest: spec [of _ "on_socket rest sent w1"])
next
  case (5 T' repo' k stop rest sent e1 w1)
  have "D (disk (snd (sendError 0 (what e1) (on_socket rest sent w))))"
    using assms(4) by (intro keepsD [OF keeps_sendText(2) [of D]]) simp
  then show ?thesis using 5 assms(2-4) by (auto split: if_splits prod.splits sum.splits)
qed (use assms(2-4) in auto)

lemma server_step_steady:
  assumes "\<And>p. steady (on_disk D) anything (handlePacket_prog T repo p)"
    and "server_step T repo s s'" and "server_steady D s"
  shows "server_steady D s'"
  using assms(2)
proof (cases rule: server_step.cases)
  case (work i wk e w')
  have "worker_steady D (sv_workers s ! i)" using assms(3) work(3) by (simp add: server_steady_def list_all_length)
  then have "worker_steady D wk \<and> D (disk w')"
    using worker_step_steady [OF assms(1) work(5)] assms(3) by (simp add: server_steady_def)
  then show ?thesis
    using work assms(3) by (auto simp: server_steady_def list_all_length nth_list_update)
qed (use assms(3) in \<open>auto simp: server_steady_def list_all_length nth_list_update\<close>)

lemma server_runs_steady:
  assumes "\<And>p. steady (on_disk D) anything (handlePacket_prog T repo p)"
    and "server_runs T repo s s'" and "server_steady D s"
  shows "server_steady D s'"
  using assms(2,3) by (induction rule: rtranclp_induct) (auto intro: server_step_steady [OF assms(1)])

lemma between_packets_steady: "between_packets s \<Longrightarrow> D (disk (sv_world s)) \<Longrightarrow> server_steady D s"
proof -
  have "\<not> handles_packet wk \<Longrightarrow> worker_steady D wk" for wk by (cases wk) simp_all
  then show "between_packets s \<Longrightarrow> D (disk (sv_world s)) \<Longrightarrow> server_steady D s"
    by (auto simp: between_packets_def server_steady_def list_ex_iff list_all_iff)
qed

text \<open>C4: no interleaving harms a committed version. From a moment at which no worker is in the handling
  of a packet, let the workers' calls of the system and looks at the disk come in any order, with any
  connections and any failures, until the process ends or not: a version that was committed then
  still loads as the same manifest, its files still are what they were, it verifies if it did, and
  nothing outside of the repository is written. (Version numbers below one million.)\<close>

theorem workers_keep_versions:
  assumes "server_runs T repo s s'" and "between_packets s" and "is_dir (disk (sv_world s)) (repo @ [''manifests''])"
    and "is_regular (disk (sv_world s)) (commitPath repo v)" and "unat v < 10 ^ 6"
    and "load (disk (sv_world s)) repo v = Inr m"
  shows "load (disk (sv_world s')) repo v = Inr m
    \<and> (\<forall>f c. file_is T (disk (sv_world s)) repo f c \<longrightarrow> file_is T (disk (sv_world s')) repo f c)
    \<and> (verify T (disk (sv_world s)) repo v = Inr () \<longrightarrow> verify T (disk (sv_world s')) repo v = Inr ())
    \<and> untouched (outside_of repo) (disk (sv_world s)) (disk (sv_world s'))"
proof -
  let ?d = "disk (sv_world s)"
  have "server_fact ?d repo ?d" using assms(3) by (simp add: server_fact_def versions_safe_def)
  then have "server_steady (server_fact ?d repo) s'"
    by (intro server_runs_steady [OF handlers.steady_handlePacket assms(1)] between_packets_steady [OF assms(2)])
  then have "server_fact ?d repo (disk (sv_world s'))" by (simp add: server_steady_def)
  then show ?thesis
    using version_survives_kept [OF _ assms(4-6)] unfolding server_fact_def versions_safe_def by blast
qed

text \<open>Two workers, one of which has a connection that says nothing useful, and a disk with one version.\<close>

definition two_workers :: "fs \<Rightarrow> worker_state \<Rightarrow> connection list \<Rightarrow> server" where
  "two_workers d wk conns =
     \<lparr>sv_world = quiet_world d, sv_queue = conns, sv_workers = [Waiting, wk], sv_ended = None\<rparr>"

definition served_version :: fs where
  "served_version = ([''r'', ''manifests''], Directory) # one_version"

lemma served_version_loads:
  "is_regular served_version (commitPath [''r''] 1)" "load served_version [''r''] 1 = Inr empty_manifest"
  "verify toy served_version [''r''] 1 = Inr ()" "is_dir served_version [''r'', ''manifests'']"
proof -
  have same: "node_at served_version k = node_at one_version k" if "k \<noteq> [''r'', ''manifests'']" for k
    using that by (simp add: served_version_def node_at_def)
  have places: "walk (commitPath [''r''] 1) \<noteq> [''r'', ''manifests'']"
    by (simp add: walk_version_paths)
  show "is_regular served_version (commitPath [''r''] 1)"
    using one_version_loads(1) by (simp add: is_regular_def same [OF places])
  have "node_at one_version [''r'', ''manifests''] = None" by (simp add: one_version_def node_at_def)
  then have "kept K one_version served_version" for K unfolding kept_def by (metis same option.distinct(1))
  then show "load served_version [''r''] 1 = Inr empty_manifest" "verify toy served_version [''r''] 1 = Inr ()"
    using version_survives_kept [OF _ one_version_loads(1) _ one_version_loads(2), of served_version toy] one_version_loads(3)
    by simp_all
  show "is_dir served_version [''r'', ''manifests'']"
    by (simp add: is_dir_def served_version_def node_at_def walk_def walk_step_def dot_def dotdot_def)
qed

lemma two_workers_run:
  "server_runs toy [''r''] (two_workers served_version Waiting [([68, 80], \<lambda>_. False)])
     (two_workers served_version (InPacket 0 (\<lambda>_. False) [68, 80] []
        (prog_bind (prog_do readPacket) (handlePacket_prog toy [''r'']))) [])"
proof -
  let ?conn = "([68, 80], \<lambda>_. False) :: connection"
  have "server_step toy [''r''] (two_workers served_version Waiting [?conn])
      (two_workers served_version (AtLoop 0 (\<lambda>_. False) [68, 80] []) [])"
    using server_step.take [of "two_workers served_version Waiting [?conn]" ?conn "[]" 1 toy "[''r'']"]
    by (simp add: two_workers_def)
  moreover have "server_step toy [''r''] (two_workers served_version (AtLoop 0 (\<lambda>_. False) [68, 80] []) [])
     (two_workers served_version (InPacket 0 (\<lambda>_. False) [68, 80] []
        (prog_bind (prog_do readPacket) (handlePacket_prog toy [''r'']))) [])"
    using server_step.work [of "two_workers served_version (AtLoop 0 (\<lambda>_. False) [68, 80] []) []" 1 toy "[''r'']"]
    by (simp add: two_workers_def)
  ultimately show ?thesis by simp
qed

theorem workers_keep_versions_witness:
  "load (disk (sv_world (two_workers served_version (InPacket 0 (\<lambda>_. False) [68, 80] []
        (prog_bind (prog_do readPacket) (handlePacket_prog toy [''r'']))) []))) [''r''] 1 = Inr empty_manifest"
proof -
  have s: "sv_world (two_workers d wk q) = quiet_world d" for d wk q by (simp add: two_workers_def)
  show ?thesis
    using workers_keep_versions [OF two_workers_run, of 1 empty_manifest] served_version_loads
    by (simp add: s between_packets_def two_workers_def)
qed

section \<open>One worker\<close>

text \<open>A server with one worker, and what it is when the task of the worker has ended with \<open>r\<close>.\<close>

definition one_worker :: "worker_state \<Rightarrow> world \<Rightarrow> connection list \<Rightarrow> server" where
  "one_worker wk w conns = \<lparr>sv_world = w, sv_queue = conns, sv_workers = [wk], sv_ended = None\<rparr>"

definition task_ended :: "unit res \<Rightarrow> world \<Rightarrow> connection list \<Rightarrow> server" where
  "task_ended r w conns =
     \<lparr>sv_world = w, sv_queue = conns, sv_workers = [Waiting],
      sv_ended = (case r of Inl e \<Rightarrow> Some e | Inr _ \<Rightarrow> None)\<rparr>"

lemma on_own_socket [simp]: "on_socket (sock_in w) (sock_out w) w = w"
  by (simp add: on_socket_def)

lemma sockets_on_socket [simp]: "sock_in (on_socket i x w) = i" "sock_out (on_socket i x w) = x"
  by (simp_all add: on_socket_def)

lemma one_worker_step:
  assumes "wk \<noteq> Waiting" and "worker_step T repo wk w = (wk', e, w')"
  shows "server_step T repo (one_worker wk w q) ((one_worker wk' w' q)\<lparr>sv_ended := e\<rparr>)"
  using server_step.work [of "one_worker wk w q" 0 T repo wk' e w'] assms by (simp add: one_worker_def)

lemma one_worker_goes:
  assumes "wk \<noteq> Waiting" and "worker_step T repo wk w = (wk', None, w')"
  shows "server_step T repo (one_worker wk w q) (one_worker wk' w' q)"
  using one_worker_step [OF assms] by (simp add: one_worker_def)

lemma one_worker_leaves:
  assumes "wk \<noteq> Waiting" and "worker_step T repo wk w = (Waiting, e, w')" and "e = (case r of Inl x \<Rightarrow> Some x | Inr _ \<Rightarrow> None)"
  shows "server_runs T repo (one_worker wk w q) (task_ended r w' q)"
  using one_worker_step [OF assms(1,2), of q] assms(3) by (auto simp: one_worker_def task_ended_def)

text \<open>The packet under way, run to its end.\<close>

lemma packet_run:
  assumes "on_socket i x w = w"
  shows "run_prog p w = (r, w') \<Longrightarrow>
    server_runs T repo (one_worker (InPacket k stop i x p) w q)
      (one_worker (InPacket k stop (sock_in w') (sock_out w') (Finished r)) w' q)"
  using assms
proof (induction p arbitrary: i x w)
  case (Finished r1)
  then have "w' = w" "r1 = r" "i = sock_in w" "x = sock_out w"
    using sockets_on_socket [of i x w] by (auto simp: run_prog.simps)
  then show ?case by simp
next
  case (Step s)
  obtain p1 w1 where s: "s w = (p1, w1)" by fastforce
  have rest: "server_runs T repo (one_worker (InPacket k stop (sock_in w1) (sock_out w1) p1) w1 q)
      (one_worker (InPacket k stop (sock_in w') (sock_out w') (Finished r)) w' q)"
    using Step.prems s by (intro Step.IH [of "(p1, w1)"]) (auto simp: run_prog.simps intro: range_eqI [of _ s w])
  have "server_step T repo (one_worker (InPacket k stop i x (Step s)) w q)
      (one_worker (InPacket k stop (sock_in w1) (sock_out w1) p1) w1 q)"
    using Step.prems(2) s by (intro one_worker_goes) simp_all
  then show ?case using rest by (rule converse_rtranclp_into_rtranclp)
qed

text \<open>One round of the loop, up to the answer of the handler.\<close>

lemma round_run:
  assumes "\<not> stop k" and "io_bind readPacket (handlePacket T repo) (on_socket i x w) = (r1, w1)"
  shows "server_runs T repo (one_worker (AtLoop k stop i x) w q)
    (one_worker (InPacket k stop (sock_in w1) (sock_out w1) (Finished r1)) w1 q)"
proof -
  let ?p = "prog_bind (prog_do readPacket) (handlePacket_prog T repo)"
  obtain s where s: "?p = Step s" by (simp add: prog_do_def prog_bind.simps)
  obtain p2 w2 where s1: "s (on_socket i x w) = (p2, w2)" by fastforce
  have "run_prog ?p (on_socket i x w) = (r1, w1)" using assms(2) by (simp add: run_simps)
  then have run2: "run_prog p2 w2 = (r1, w1)" using s s1 by (simp add: run_prog.simps)
  have "server_step T repo (one_worker (AtLoop k stop i x) w q) (one_worker (InPacket k stop i x ?p) w q)"
    using assms(1) by (intro one_worker_goes) simp_all
  moreover have "server_step T repo (one_worker (InPacket k stop i x ?p) w q)
      (one_worker (InPacket k stop (sock_in w2) (sock_out w2) p2) w2 q)"
    using s s1 by (intro one_worker_goes) simp_all
  ultimately show ?thesis
    using packet_run [OF on_own_socket run2] by (meson converse_rtranclp_into_rtranclp)
qed

text \<open>A whole connection.\<close>

lemma connection_run:
  assumes "handleConnection T repo stop k (on_socket i x w) = (r, w')"
  shows "server_runs T repo (one_worker (AtLoop k stop i x) w q) (task_ended r w' q)"
proof -
  have "handleConnection T repo stop k w0 = (r, w') \<Longrightarrow> w0 = on_socket i x w \<Longrightarrow>
      server_runs T repo (one_worker (AtLoop k stop i x) w q) (task_ended r w' q)" for w0
  proof (induction T repo stop k w0 arbitrary: i x w rule: handleConnection.induct)
    case (1 T repo stop k w0)
    show ?case
    proof (cases "stop k")
      case True
      then show ?thesis using "1.prems" by (intro one_worker_leaves) (auto simp: handleConnection.simps)
    next
      case False
      obtain r1 w1 where one: "io_bind readPacket (handlePacket T repo) w0 = (r1, w1)" by fastforce
      let ?answered = "one_worker (InPacket k stop (sock_in w1) (sock_out w1) (Finished r1)) w1 q"
      have before: "server_runs T repo (one_worker (AtLoop k stop i x) w q) ?answered"
        using False one "1.prems"(2) by (intro round_run) simp_all
      have "server_runs T repo ?answered (task_ended r w' q)"
      proof (cases r1)
        case (Inr u)
        have "server_step T repo ?answered (one_worker (AtLoop (k + 1) stop (sock_in w1) (sock_out w1)) w1 q)"
          using Inr by (intro one_worker_goes) simp_all
        moreover have "handleConnection T repo stop (k + 1) w1 = (r, w')"
          using "1.prems"(1) one Inr False by (simp add: handleConnection.simps [of T repo stop k])
        then have "server_runs T repo (one_worker (AtLoop (k + 1) stop (sock_in w1) (sock_out w1)) w1 q) (task_ended r w' q)"
          by (rule "1.IH" [OF False one [symmetric] Inr]) simp
        ultimately show ?thesis by (rule converse_rtranclp_into_rtranclp)
      next
        case (Inl e)
        then show ?thesis
          using "1.prems"(1) one False
          by (intro one_worker_leaves) (auto simp: handleConnection.simps [of T repo stop k] split: if_splits prod.splits sum.splits)
      qed
      with before show ?thesis by (rule rtranclp_trans)
    qed
  qed
  then show ?thesis using assms by blast
qed

text \<open>A server with one worker can do what \<open>serve\<close> does. The loop over the connections, one after the
  other, is a run of the server with one worker: with the same world at its end, all connections
  handled when no exception left a handler, and the process ended by the exception when one did.\<close>

lemma one_worker_serves:
  "case io_foreach (serve_one T repo) conns w of
     (Inr _, w') \<Rightarrow> server_runs T repo (one_worker Waiting w conns) (task_ended (Inr ()) w' [])
   | (Inl e, w') \<Rightarrow> \<exists>left. server_runs T repo (one_worker Waiting w conns) (task_ended (Inl e) w' left)"
proof (induction conns arbitrary: w)
  case Nil
  have "one_worker Waiting w [] = task_ended (Inr ()) w []" by (simp add: one_worker_def task_ended_def)
  then show ?case by simp
next
  case (Cons conn conns)
  obtain r w1 where one: "serve_one T repo conn w = (r, w1)" by fastforce
  then have "handleConnection T repo (snd conn) 0 (on_socket (fst conn) [] w) = (r, w1)"
    by (simp add: serve_one_def io_seq_def io_bind_def on_socket_def)
  then have run: "server_runs T repo (one_worker (AtLoop 0 (snd conn) (fst conn) []) w conns) (task_ended r w1 conns)"
    by (rule connection_run)
  have "server_step T repo (one_worker Waiting w (conn # conns)) (one_worker (AtLoop 0 (snd conn) (fst conn) []) w conns)"
    using server_step.take [of "one_worker Waiting w (conn # conns)" conn conns 0 T repo] by (simp add: one_worker_def)
  then have first: "server_runs T repo (one_worker Waiting w (conn # conns)) (task_ended r w1 conns)"
    using run by (rule converse_rtranclp_into_rtranclp)
  show ?case
  proof (cases r)
    case (Inl e)
    then show ?thesis using first one by (auto simp: io_seq_def io_bind_def)
  next
    case (Inr u)
    then have "task_ended r w1 conns = one_worker Waiting w1 conns" by (simp add: one_worker_def task_ended_def)
    then show ?thesis
      using first one Inr Cons.IH [of w1]
      by (auto simp: io_seq_def io_bind_def split: prod.splits sum.splits intro: rtranclp_trans)
  qed
qed

end
