(* ===== verification/DPC_Descriptors.thy ===== *)
theory DPC_Descriptors
  imports DPC_Workers
begin

text \<open>
  The descriptors of the process: who closes what. The owning classes of
  src/include/dpc/common/FileUtils.hpp (\<open>UniqueFd\<close>) and of the two network files (\<open>SocketFd\<close>), the
  sockets of \<open>connectTo\<close> (src/src/network/BackupClient.cpp) and of \<open>BackupServer::run\<close>
  (src/src/network/BackupServer.cpp).
\<close>

section \<open>The table of descriptors\<close>

text \<open>A descriptor is open for the code that is modelled, or for another thread or library.\<close>

datatype holder = Us | Others

type_synonym fd_table = "(nat \<times> holder) list"

text \<open>
  \<open>strays\<close> are the numbers that the modelled code closed at a moment when they were not its own: they
  were not open (\<open>EBADF\<close>), or open for another thread, which then lost its descriptor. Nothing reads
  this list; a second \<open>close\<close> of the same descriptor is an entry of it.
\<close>

record descriptors =
  fds :: fd_table
  strays :: "nat list"

definition opened :: "fd_table \<Rightarrow> nat set" where
  "opened t = fst ` set t"

text \<open>A new descriptor has the lowest number that is not open.\<close>

definition lowest_free :: "fd_table \<Rightarrow> nat" where
  "lowest_free t = hd (filter (\<lambda>n. n \<notin> opened t) [0 ..< Suc (length t)])"

definition fd_open :: "holder \<Rightarrow> descriptors \<Rightarrow> nat \<times> descriptors" where
  "fd_open h d = (lowest_free (fds d), d\<lparr>fds := (lowest_free (fds d), h) # fds d\<rparr>)"

definition without :: "nat \<Rightarrow> fd_table \<Rightarrow> fd_table" where
  "without f t = filter (\<lambda>e. fst e \<noteq> f) t"

text \<open>\<open>close\<close> by the modelled code, and by another thread of a descriptor of its own.\<close>

definition fd_close :: "nat \<Rightarrow> descriptors \<Rightarrow> descriptors" where
  "fd_close f d =
     d\<lparr>fds := without f (fds d),
       strays := (if (f, Us) \<in> set (fds d) then strays d else f # strays d)\<rparr>"

definition others_close :: "nat \<Rightarrow> descriptors \<Rightarrow> descriptors" where
  "others_close f d = (if (f, Others) \<in> set (fds d) then d\<lparr>fds := without f (fds d)\<rparr> else d)"

fun others_open :: "nat \<Rightarrow> descriptors \<Rightarrow> descriptors" where
  "others_open 0 d = d"
| "others_open (Suc n) d = others_open n (snd (fd_open Others d))"

section \<open>Descriptors with an owner (UniqueFd)\<close>

text \<open>
  What \<open>close\<close> answers for an open descriptor. On Linux the descriptor is free even when \<open>close\<close> fails with
  \<open>EINTR\<close>; \<open>n\<close> is the number of descriptors that other threads open before the next call. For a number
  that is not open it fails with \<open>EBADF\<close>, which ends the loop.
\<close>

datatype close_answer = CloseOk | CloseEintr nat

text \<open>\<open>while (::close(fd_) < 0 && errno == EINTR)\<close>.\<close>

fun close_loop :: "close_answer list \<Rightarrow> nat \<Rightarrow> descriptors \<Rightarrow> descriptors \<times> close_answer list" where
  "close_loop [] f d = (fd_close f d, [])"
| "close_loop (a # as) f d =
     (if f \<notin> opened (fds d) then (fd_close f d, a # as)
      else case a of
        CloseOk \<Rightarrow> (fd_close f d, as)
      | CloseEintr n \<Rightarrow> close_loop as f (others_open n (fd_close f d)))"

text \<open>
  The objects of the class by their number, \<open>None\<close> for \<open>-1\<close>; our descriptors that no object owns, given
  out by \<open>release\<close> or just opened; the answers of the calls of \<open>close\<close> to come.
\<close>

record fd_state =
  fd_desc :: descriptors
  fd_objects :: "nat option list"
  fd_bare :: "nat list"
  fd_answers :: "close_answer list"

text \<open>
  A constructor or a \<open>reset\<close> that takes a number over takes it from those that no object owns; this is
  what the class asks of its callers.
\<close>

datatype fd_operation =
    Open
  | Construct "nat option"
  | MoveConstruct nat
  | MoveAssign nat nat
  | Release nat
  | Reset nat "nat option"
  | OtherOpens
  | OtherCloses nat

definition take_over :: "nat option \<Rightarrow> fd_state \<Rightarrow> fd_state" where
  "take_over new s = (case new of None \<Rightarrow> s | Some f \<Rightarrow> s\<lparr>fd_bare := remove1 f (fd_bare s)\<rparr>)"

definition unique_construct :: "nat option \<Rightarrow> fd_state \<Rightarrow> fd_state" where
  "unique_construct new s = s\<lparr>fd_objects := fd_objects s @ [new]\<rparr>"

definition unique_reset :: "nat \<Rightarrow> nat option \<Rightarrow> fd_state \<Rightarrow> fd_state" where
  "unique_reset i new s =
     (case fd_objects s ! i of
        None \<Rightarrow> s\<lparr>fd_objects := (fd_objects s)[i := new]\<rparr>
      | Some f \<Rightarrow> (case close_loop (fd_answers s) f (fd_desc s) of
          (d, as) \<Rightarrow> s\<lparr>fd_desc := d, fd_answers := as, fd_objects := (fd_objects s)[i := new]\<rparr>))"

definition unique_release :: "nat \<Rightarrow> fd_state \<Rightarrow> nat option \<times> fd_state" where
  "unique_release i s = (fd_objects s ! i, s\<lparr>fd_objects := (fd_objects s)[i := None]\<rparr>)"

definition move_construct :: "nat \<Rightarrow> fd_state \<Rightarrow> fd_state" where
  "move_construct j s = s\<lparr>fd_objects := (fd_objects s)[j := None] @ [fd_objects s ! j]\<rparr>"

definition move_assign :: "nat \<Rightarrow> nat \<Rightarrow> fd_state \<Rightarrow> fd_state" where
  "move_assign i j s =
     (if i = j then s
      else let s1 = unique_reset i None s; f = fd_objects s1 ! j in
           s1\<lparr>fd_objects := (fd_objects s1)[i := f, j := None]\<rparr>)"

text \<open>The destructor is a \<open>reset\<close>; an object that is gone owns nothing.\<close>

fun fd_apply :: "fd_operation \<Rightarrow> fd_state \<Rightarrow> fd_state" where
  "fd_apply Open s = s\<lparr>fd_desc := snd (fd_open Us (fd_desc s)), fd_bare := fst (fd_open Us (fd_desc s)) # fd_bare s\<rparr>"
| "fd_apply (Construct new) s = unique_construct new (take_over new s)"
| "fd_apply (MoveConstruct j) s = move_construct j s"
| "fd_apply (MoveAssign i j) s = move_assign i j s"
| "fd_apply (Release i) s =
     (case unique_release i s of
        (None, s') \<Rightarrow> s'
      | (Some f, s') \<Rightarrow> s'\<lparr>fd_bare := f # fd_bare s'\<rparr>)"
| "fd_apply (Reset i new) s = unique_reset i new (take_over new s)"
| "fd_apply OtherOpens s = s\<lparr>fd_desc := snd (fd_open Others (fd_desc s))\<rparr>"
| "fd_apply (OtherCloses f) s = s\<lparr>fd_desc := others_close f (fd_desc s)\<rparr>"

text \<open>The operation names objects that exist, and takes over a descriptor that no object owns.\<close>

fun fd_applies :: "fd_operation \<Rightarrow> fd_state \<Rightarrow> bool" where
  "fd_applies (Construct new) s \<longleftrightarrow> new = None \<or> the new \<in> set (fd_bare s)"
| "fd_applies (MoveConstruct j) s \<longleftrightarrow> j < length (fd_objects s)"
| "fd_applies (MoveAssign i j) s \<longleftrightarrow> i < length (fd_objects s) \<and> j < length (fd_objects s)"
| "fd_applies (Release i) s \<longleftrightarrow> i < length (fd_objects s)"
| "fd_applies (Reset i new) s \<longleftrightarrow> i < length (fd_objects s) \<and> (new = None \<or> the new \<in> set (fd_bare s))"
| "fd_applies _ s \<longleftrightarrow> True"

text \<open>A sequence of operations; those that do not apply are passed over.\<close>

fun fd_run :: "fd_operation list \<Rightarrow> fd_state \<Rightarrow> fd_state" where
  "fd_run [] s = s"
| "fd_run (op # ops) s = (if fd_applies op s then fd_run ops (fd_apply op s) else fd_run ops s)"

text \<open>
  Every descriptor of ours is open once, and either exactly one object owns it or no object does and it
  is bare once; nothing that is owned or bare is another's.
\<close>

definition slots :: "nat option list \<Rightarrow> nat multiset" where
  "slots bs = mset (concat (map (\<lambda>b. case b of None \<Rightarrow> [] | Some f \<Rightarrow> [f]) bs))"

definition ours :: "fd_table \<Rightarrow> nat multiset" where
  "ours t = mset (map fst (filter (\<lambda>e. snd e = Us) t))"

definition others_of :: "fd_table \<Rightarrow> nat set" where
  "others_of t = {f. (f, Others) \<in> set t}"

definition fd_inv :: "fd_state \<Rightarrow> bool" where
  "fd_inv s \<longleftrightarrow> distinct (map fst (fds (fd_desc s)))
     \<and> slots (fd_objects s) + mset (fd_bare s) = ours (fds (fd_desc s))"

text \<open>How many calls of \<open>close\<close> will be interrupted.\<close>

definition interruptions :: "close_answer list \<Rightarrow> nat" where
  "interruptions as = length (filter (\<lambda>a. a \<noteq> CloseOk) as)"

section \<open>What is open\<close>

lemma lowest_free_free: "lowest_free t \<notin> opened t"
proof -
  let ?free = "filter (\<lambda>n. n \<notin> opened t) [0 ..< Suc (length t)]"
  have "\<not> {0 ..< Suc (length t)} \<subseteq> opened t"
  proof
    assume "{0 ..< Suc (length t)} \<subseteq> opened t"
    then have "Suc (length t) \<le> card (opened t)" using card_mono [of "opened t" "{0 ..< Suc (length t)}"] by (simp add: opened_def)
    also have "\<dots> \<le> length t" using card_image_le [of "set t" fst] card_length [of t] by (simp add: opened_def)
    finally show False by simp
  qed
  then have "?free \<noteq> []" by (auto simp: filter_empty_conv simp del: upt_Suc)
  then have "hd ?free \<in> set ?free" by (rule hd_in_set)
  then show ?thesis by (simp add: lowest_free_def del: upt_Suc)
qed

lemma opened_simps [simp]:
  "opened (e # t) = insert (fst e) (opened t)" "opened [] = {}" "opened (without f t) = opened t - {f}"
  by (auto simp: opened_def without_def)

lemma without_Cons: "without f (e # t) = (if fst e = f then without f t else e # without f t)"
  by (simp add: without_def)

lemma without_absent: "f \<notin> opened t \<Longrightarrow> without f t = t"
  unfolding without_def opened_def by (auto simp: filter_id_conv)

lemma ours_simps [simp]: "ours [] = {#}" "ours (e # t) = (if snd e = Us then add_mset (fst e) (ours t) else ours t)"
  by (simp_all add: ours_def)

lemma in_ours: "f \<in># ours t \<longleftrightarrow> (f, Us) \<in> set t"
  by (force simp: ours_def)

lemma ours_without:
  assumes "distinct (map fst t)"
  shows "ours t = (if (f, Us) \<in> set t then add_mset f (ours (without f t)) else ours (without f t))"
  using assms
proof (induction t)
  case (Cons e t)
  show ?case
  proof (cases "fst e = f")
    case True
    then have "f \<notin> opened t" using Cons.prems by (auto simp: opened_def)
    moreover from this have "(f, Us) \<notin> set t" by (auto simp: opened_def image_iff)
    ultimately show ?thesis using True by (cases e) (auto simp: without_Cons without_absent)
  next
    case False
    then show ?thesis using Cons by (cases e) (auto simp: without_Cons)
  qed
qed (simp add: without_def)

lemma others_without: "others_of (without f t) = others_of t - {f}"
  by (auto simp: others_of_def without_def)

lemma one_holder: "distinct (map fst t) \<Longrightarrow> (f, Us) \<in> set t \<Longrightarrow> f \<notin> others_of t"
  by (auto simp: others_of_def dest: eq_key_imp_eq_value)

lemma distinct_without: "distinct (map fst t) \<Longrightarrow> distinct (map fst (without f t))"
  unfolding without_def by (rule distinct_map_filter)

lemma distinct_open: "distinct (map fst (fds d)) \<Longrightarrow> distinct (map fst (fds (snd (fd_open h d))))"
  using lowest_free_free [of "fds d"] by (simp add: fd_open_def opened_def)

lemma fd_open_fields [simp]:
  "fst (fd_open h d) = lowest_free (fds d)" "fds (snd (fd_open h d)) = (lowest_free (fds d), h) # fds d"
  "strays (snd (fd_open h d)) = strays d"
  by (simp_all add: fd_open_def)

lemma fd_close_fields [simp]:
  "fds (fd_close f d) = without f (fds d)"
  "strays (fd_close f d) = (if (f, Us) \<in> set (fds d) then strays d else f # strays d)"
  by (simp_all add: fd_close_def)

lemma others_close_fields [simp]:
  "fds (others_close f d) = (if (f, Others) \<in> set (fds d) then without f (fds d) else fds d)"
  "strays (others_close f d) = strays d"
  by (simp_all add: others_close_def)

text \<open>What was just opened is closed without a trace.\<close>

lemma fd_close_new [simp]: "fd_close (lowest_free (fds d)) (d\<lparr>fds := (lowest_free (fds d), Us) # fds d\<rparr>) = d"
  by (simp add: fd_close_def without_Cons without_absent lowest_free_free)

lemma others_open_fields:
  assumes "distinct (map fst (fds d))"
  shows "distinct (map fst (fds (others_open n d))) \<and> ours (fds (others_open n d)) = ours (fds d)
    \<and> others_of (fds d) \<subseteq> others_of (fds (others_open n d)) \<and> strays (others_open n d) = strays d"
  using assms
proof (induction n arbitrary: d)
  case (Suc n)
  show ?case using Suc.IH [OF distinct_open [OF Suc.prems, of Others]] by (auto simp: others_of_def)
qed simp

lemma others_close_ours:
  assumes "distinct (map fst (fds d))"
  shows "distinct (map fst (fds (others_close f d))) \<and> ours (fds (others_close f d)) = ours (fds d)
    \<and> others_of (fds d) - {f} \<subseteq> others_of (fds (others_close f d)) \<and> strays (others_close f d) = strays d"
proof -
  have "(f, Us) \<notin> set (fds d)" if "(f, Others) \<in> set (fds d)"
    using one_holder [OF assms] that by (auto simp: others_of_def)
  then show ?thesis
    using assms ours_without [OF assms, of f] distinct_without [OF assms, of f] by (auto simp: others_without)
qed

text \<open>
  A call of \<open>close\<close> that is retried takes exactly the one descriptor from ours, if it is ours. When it is, only a
  retry can be a stray call.
\<close>

lemma close_loop_takes:
  assumes "distinct (map fst (fds d))" and "close_loop as f d = (d', as')"
  shows "distinct (map fst (fds d'))
    \<and> ours (fds d) = (if (f, Us) \<in> set (fds d) then add_mset f (ours (fds d')) else ours (fds d'))
    \<and> length (strays d') + interruptions as' \<le>
        length (strays d) + interruptions as + (if (f, Us) \<in> set (fds d) then 0 else 1)
    \<and> interruptions as' \<le> interruptions as"
  using assms
proof (induction as f d rule: close_loop.induct)
  case (1 f d)
  then show ?case using ours_without [OF 1(1), of f] distinct_without [OF 1(1), of f] by auto
next
  case (2 a as f d)
  show ?case
  proof (cases "f \<in> opened (fds d) \<and> a \<noteq> CloseOk")
    case True
    then obtain n where a: "a = CloseEintr n" by (cases a) simp_all
    let ?d = "fd_close f d"
    have d: "distinct (map fst (fds ?d))" using distinct_without [OF 2(2)] by simp
    note o = others_open_fields [OF d, of n]
    have "f \<notin># ours (fds ?d)" unfolding in_ours by (auto simp: without_def)
    then have not_ours: "(f, Us) \<notin> set (fds (others_open n ?d))" unfolding in_ours [symmetric] using o by simp
    have "close_loop as f (others_open n ?d) = (d', as')" using 2(3) True a by simp
    from 2(1) [OF _ a _ this] o True not_ours ours_without [OF 2(2), of f]
    show ?thesis by (auto simp: a interruptions_def)
  next
    case False
    then have "d' = fd_close f d \<and> interruptions as' = interruptions (a # as)"
      using 2(3) by (auto simp: interruptions_def split: if_splits)
    then show ?thesis using ours_without [OF 2(2), of f] distinct_without [OF 2(2), of f] by auto
  qed
qed

lemma close_uninterrupted:
  "interruptions as = 0 \<Longrightarrow> \<exists>as'. close_loop as f d = (fd_close f d, as') \<and> interruptions as' = 0"
  by (cases as) (auto simp: interruptions_def split: if_splits)

section \<open>Who owns what\<close>

lemma slots_simps [simp]:
  "slots [] = {#}" "slots (b # bs) = (case b of None \<Rightarrow> {#} | Some f \<Rightarrow> {#f#}) + slots bs"
  "slots (bs @ cs) = slots bs + slots cs"
  by (simp_all add: slots_def split: option.splits)

abbreviation slot :: "nat option \<Rightarrow> nat multiset" where
  "slot b \<equiv> (case b of None \<Rightarrow> {#} | Some f \<Rightarrow> {#f#})"

lemma slots_update: "i < length bs \<Longrightarrow> slots (bs[i := b]) + slot (bs ! i) = slots bs + slot b"
proof (induction bs arbitrary: i)
  case (Cons x xs)
  then show ?case by (cases i) (simp_all add: add_ac split: option.splits)
qed simp

text \<open>What an operation keeps: the owners, and that no more calls go astray than are interrupted.\<close>

definition fd_kept :: "fd_state \<Rightarrow> fd_state \<Rightarrow> bool" where
  "fd_kept s s' \<longleftrightarrow> fd_inv s'
     \<and> length (strays (fd_desc s')) + interruptions (fd_answers s') \<le> length (strays (fd_desc s)) + interruptions (fd_answers s)
     \<and> interruptions (fd_answers s') \<le> interruptions (fd_answers s)"

lemma take_over_owns:
  assumes "fd_inv s" and "new = None \<or> the new \<in> set (fd_bare s)"
  shows "slots (fd_objects s) + mset (fd_bare (take_over new s)) + slot new = ours (fds (fd_desc s))"
proof (cases new)
  case (Some f)
  then have "mset (fd_bare s) = add_mset f (mset (remove1 f (fd_bare s)))" using assms(2) by simp
  then have "slots (fd_objects s) + (mset (remove1 f (fd_bare s)) + {#f#}) = ours (fds (fd_desc s))"
    using assms(1) by (metis add_mset_add_single fd_inv_def)
  then show ?thesis unfolding add.assoc by (simp add: take_over_def Some)
qed (use assms in \<open>simp add: fd_inv_def take_over_def\<close>)

lemma take_over_fields [simp]:
  "fd_desc (take_over new s) = fd_desc s" "fd_objects (take_over new s) = fd_objects s"
  "fd_answers (take_over new s) = fd_answers s"
  by (simp_all add: take_over_def split: option.splits)

lemma unique_reset_kept:
  assumes d: "distinct (map fst (fds (fd_desc s)))" and i: "i < length (fd_objects s)"
    and own: "slots (fd_objects s) + mset (fd_bare s) + slot new = ours (fds (fd_desc s))"
  shows "fd_kept s (unique_reset i new s)"
proof (cases "fd_objects s ! i")
  case None
  then show ?thesis
    using d own slots_update [OF i, of new] by (simp add: unique_reset_def fd_kept_def fd_inv_def union_ac)
next
  case (Some f)
  obtain d' as where close: "close_loop (fd_answers s) f (fd_desc s) = (d', as)" by fastforce
  have objects: "slots ((fd_objects s)[i := new]) + {#f#} = slots (fd_objects s) + slot new"
    using slots_update [OF i, of new] Some by simp
  have all: "ours (fds (fd_desc s)) = add_mset f (slots ((fd_objects s)[i := new]) + mset (fd_bare s))"
    using own objects by (metis add.assoc add.commute add_mset_add_single)
  then have f: "(f, Us) \<in> set (fds (fd_desc s))" unfolding in_ours [symmetric] by simp
  then show ?thesis
    using close_loop_takes [OF d close] all Some close by (simp add: unique_reset_def fd_kept_def fd_inv_def)
qed

lemma unique_reset_calm:
  assumes "fd_inv s" and "i < length (fd_objects s)" and "interruptions (fd_answers s) = 0"
    and same: "fd_desc s' = fd_desc s" "fd_objects s' = fd_objects s" "fd_answers s' = fd_answers s"
  shows "others_of (fds (fd_desc (unique_reset i new s'))) = others_of (fds (fd_desc s))"
proof (cases "fd_objects s ! i")
  case (Some f)
  obtain as where close: "close_loop (fd_answers s) f (fd_desc s) = (fd_close f (fd_desc s), as)"
    using close_uninterrupted [OF assms(3)] by blast
  have "slots (fd_objects s) = add_mset f (slots ((fd_objects s)[i := None]))"
    using slots_update [OF assms(2), of None] Some by simp
  then have "f \<in># ours (fds (fd_desc s))" using assms(1) by (metis fd_inv_def union_iff union_single_eq_member)
  then have "f \<notin> others_of (fds (fd_desc s))" using assms(1) one_holder by (simp add: in_ours fd_inv_def)
  then show ?thesis using same Some close by (simp add: unique_reset_def others_without)
qed (use same in \<open>simp add: unique_reset_def\<close>)

lemma move_slots:
  assumes "i < length bs" and "j < length bs" and "i \<noteq> j" and "bs ! i = None"
  shows "slots (bs[i := bs ! j, j := None]) = slots bs"
  using slots_update [of i bs "bs ! j"] slots_update [of j "bs[i := bs ! j]" None] assms by simp

lemma reset_objects: "fd_objects (unique_reset i new s) = (fd_objects s)[i := new]"
  by (simp add: unique_reset_def split: option.splits prod.splits)

lemma fd_apply_kept:
  assumes inv: "fd_inv s" and op: "fd_applies op s"
  shows "fd_kept s (fd_apply op s)"
proof (cases op)
  case Open
  then show ?thesis
    using inv distinct_open [of "fd_desc s" Us] by (auto simp: fd_kept_def fd_inv_def split: prod.splits dest: sym)
next
  case (Construct new)
  then show ?thesis
    using inv op take_over_owns [OF inv, of new] by (auto simp: fd_kept_def fd_inv_def unique_construct_def union_ac)
next
  case (MoveConstruct j)
  then show ?thesis
    using inv op slots_update [of j "fd_objects s" None] by (simp add: fd_kept_def fd_inv_def move_construct_def union_ac)
next
  case (MoveAssign i j)
  show ?thesis
  proof (cases "i = j")
    case False
    have ij: "i < length (fd_objects s)" "j < length (fd_objects s)" using op MoveAssign by simp_all
    have "fd_kept s (unique_reset i None s)" using inv ij by (intro unique_reset_kept) (simp_all add: fd_inv_def)
    then show ?thesis
      using MoveAssign False ij move_slots [of i "(fd_objects s)[i := None]" j]
      by (simp add: move_assign_def Let_def reset_objects fd_kept_def fd_inv_def)
  qed (use inv MoveAssign in \<open>simp add: move_assign_def fd_kept_def\<close>)
next
  case (Release i)
  then have "slots ((fd_objects s)[i := None]) + slot (fd_objects s ! i) = slots (fd_objects s)"
    using op slots_update [of i "fd_objects s" None] by simp
  then have "slots ((fd_objects s)[i := None]) + (mset (fd_bare s) + slot (fd_objects s ! i)) = ours (fds (fd_desc s))"
    using inv unfolding fd_inv_def by (metis add.assoc add.commute)
  then show ?thesis
    using Release inv by (cases "fd_objects s ! i") (simp_all add: fd_kept_def fd_inv_def unique_release_def)
next
  case (Reset i new)
  have "fd_kept (take_over new s) (unique_reset i new (take_over new s))"
    using inv op Reset take_over_owns [OF inv, of new] by (intro unique_reset_kept) (auto simp: fd_inv_def)
  then show ?thesis using Reset by (simp add: fd_kept_def)
next
  case OtherOpens
  then show ?thesis using inv distinct_open [of "fd_desc s" Others] by (simp add: fd_kept_def fd_inv_def)
next
  case (OtherCloses f)
  then show ?thesis using inv others_close_ours [of "fd_desc s" f] by (simp add: fd_kept_def fd_inv_def)
qed

lemma fd_apply_others:
  assumes inv: "fd_inv s" and op: "fd_applies op s" and calm: "interruptions (fd_answers s) = 0"
  shows "others_of (fds (fd_desc s)) - {f. op = OtherCloses f} \<subseteq> others_of (fds (fd_desc (fd_apply op s)))"
proof (cases op)
  case (MoveAssign i j)
  then show ?thesis
    using unique_reset_calm [OF inv _ calm, of i s None] op by (auto simp: move_assign_def Let_def)
next
  case (Reset i new)
  then show ?thesis using unique_reset_calm [OF inv _ calm, of i "take_over new s" new] op by auto
next
  case (OtherCloses f)
  then show ?thesis using others_close_ours [of "fd_desc s" f] inv by (auto simp: fd_inv_def)
qed (auto simp: others_of_def unique_construct_def move_construct_def unique_release_def split: prod.splits option.splits dest: sym)

text \<open>C17: every descriptor has one owner. Whatever is done with objects of \<open>UniqueFd\<close> (constructed, moved,
  assigned, also to themselves, released, reset with and without a new descriptor, destroyed), while other
  threads open and close their descriptors, and whatever \<open>close\<close> answers: every descriptor of ours is open
  and is held by exactly one object or, once, by the code that opened it or had it released. So nothing leaks.
  A \<open>close\<close> of a number that is not ours can only be the retry of an interrupted call: there are no more
  of them than interruptions. When no call is interrupted, there is none, and no thread loses a descriptor.\<close>

theorem descriptors_owned:
  assumes "fd_inv s"
  shows "fd_inv (fd_run ops s)
    \<and> length (strays (fd_desc (fd_run ops s))) \<le> length (strays (fd_desc s)) + interruptions (fd_answers s)
    \<and> (interruptions (fd_answers s) = 0 \<longrightarrow>
        (\<forall>f \<in> others_of (fds (fd_desc s)). OtherCloses f \<notin> set ops \<longrightarrow> f \<in> others_of (fds (fd_desc (fd_run ops s)))))"
  using assms
proof (induction ops arbitrary: s)
  case (Cons op ops)
  show ?case
  proof (cases "fd_applies op s")
    case True
    note kept = fd_apply_kept [OF Cons.prems True, unfolded fd_kept_def]
    have "fd_inv (fd_apply op s)" using kept by blast
    note rest = Cons.IH [OF this]
    have "f \<in> others_of (fds (fd_desc (fd_run (op # ops) s)))"
      if calm: "interruptions (fd_answers s) = 0" and f: "f \<in> others_of (fds (fd_desc s))" "OtherCloses f \<notin> set (op # ops)" for f
      using fd_apply_others [OF Cons.prems True calm] f rest True calm kept by auto
    then show ?thesis using rest kept True by auto
  qed (use Cons in auto)
qed simp

text \<open>A descriptor is opened into an object, the object is moved over another, which closes what it held.\<close>

theorem descriptors_owned_witness:
  "fd_inv (fd_run [Open, Construct (Some 1), OtherOpens, Open, Reset 0 (Some 3), MoveConstruct 0, MoveAssign 0 1]
     \<lparr>fd_desc = \<lparr>fds = [(0, Others)], strays = []\<rparr>, fd_objects = [], fd_bare = [], fd_answers = [CloseEintr 1]\<rparr>)"
proof -
  have "fd_inv \<lparr>fd_desc = \<lparr>fds = [(0, Others)], strays = []\<rparr>, fd_objects = [], fd_bare = [], fd_answers = [CloseEintr 1]\<rparr>"
    by (simp add: fd_inv_def)
  then show ?thesis by (rule descriptors_owned [THEN conjunct1])
qed

text \<open>
  The retry of an interrupted \<open>close\<close> is not safe on Linux: when another thread opens a descriptor in
  between, it gets the number that has just become free, and the second call closes it.
\<close>

lemma close_retry_closes_another:
  assumes "lowest_free (without f (fds d)) = f" and "(f, Us) \<in> set (fds d)"
  shows "f \<in> others_of (fds (others_open 1 (fd_close f d)))
    \<and> (case close_loop [CloseEintr 1, CloseOk] f d of
         (d', _) \<Rightarrow> f \<notin> others_of (fds d') \<and> strays d' = f # strays d)"
proof -
  have "f \<in> opened (fds d)" using assms(2) by (force simp: opened_def)
  then show ?thesis using assms by (auto simp: others_of_def without_def)
qed

section \<open>The sockets of the client (connectTo)\<close>

text \<open>\<open>std::to_string\<close> of an \<open>int\<close>.\<close>

definition int_text :: "int \<Rightarrow> string" where
  "int_text i = (if i < 0 then CHR ''-'' # dec (nat (- i)) else dec (nat i))"

text \<open>What the calls of the system make of an address the resolver gave.\<close>

datatype attempt = NoSocket | NoConnection | Connects

text \<open>\<open>SocketFd\<close>: the destructor, and \<open>release\<close> with what is given out and what the object is left with.\<close>

definition socketfd_destroy :: "nat option \<Rightarrow> descriptors \<Rightarrow> descriptors" where
  "socketfd_destroy fd d = (case fd of None \<Rightarrow> d | Some f \<Rightarrow> fd_close f d)"

definition socketfd_release :: "nat option \<Rightarrow> nat option \<times> nat option" where
  "socketfd_release fd = (fd, None)"

lemma socketfd_simps [simp]:
  "socketfd_destroy None t = t" "socketfd_destroy (Some f) t = fd_close f t" "socketfd_release fd = (fd, None)"
  by (simp_all add: socketfd_destroy_def socketfd_release_def)

text \<open>The loop over the addresses; every round has its own \<open>SocketFd\<close>.\<close>

fun connect_loop :: "attempt list \<Rightarrow> descriptors \<Rightarrow> nat option \<times> descriptors" where
  "connect_loop [] t = (None, t)"
| "connect_loop (NoSocket # ais) t = connect_loop ais (socketfd_destroy None t)"
| "connect_loop (NoConnection # ais) t =
     (case fd_open Us t of (f, t1) \<Rightarrow> connect_loop ais (socketfd_destroy (Some f) t1))"
| "connect_loop (Connects # ais) t =
     (case fd_open Us t of (f, t1) \<Rightarrow>
      (case socketfd_release (Some f) of (given, left) \<Rightarrow> (given, socketfd_destroy left t1)))"

text \<open>\<open>resolve\<close> is \<open>getaddrinfo\<close>: the text of its error, or what becomes of each address in turn.\<close>

definition connectTo :: "(string \<Rightarrow> string \<Rightarrow> string + attempt list) \<Rightarrow> string \<Rightarrow> int \<Rightarrow> descriptors \<Rightarrow> nat res \<times> descriptors" where
  "connectTo resolve host port t =
     (let port_text = int_text port in
      case resolve host port_text of
        Inl e \<Rightarrow> (Inl (DpcError (''getaddrinfo failed: '' @ e)), t)
      | Inr ais \<Rightarrow>
          (case connect_loop ais t of
             (Some f, t1) \<Rightarrow> (Inr f, t1)
           | (None, t1) \<Rightarrow> (Inl (DpcError (''connect failed: '' @ host @ '':'' @ port_text)), t1)))"

lemma connect_loop_cases:
  "connect_loop ais t =
     (if Connects \<in> set ais then (Some (lowest_free (fds t)), snd (fd_open Us t)) else (None, t))"
  by (induction ais t rule: connect_loop.induct) (auto simp: fd_open_def)

text \<open>The first address that connects is taken; every other socket is closed, once, in success and in failure.\<close>

lemma connectTo_sockets:
  "connectTo resolve host port t =
     (case resolve host (int_text port) of
        Inl e \<Rightarrow> (Inl (DpcError (''getaddrinfo failed: '' @ e)), t)
      | Inr ais \<Rightarrow>
          (if Connects \<in> set ais then (Inr (lowest_free (fds t)), snd (fd_open Us t))
           else (Inl (DpcError (''connect failed: '' @ host @ '':'' @ int_text port)), t)))"
  by (simp add: connectTo_def connect_loop_cases split: sum.split)

text \<open>The client with its connection.\<close>

definition client_program ::
  "third_party \<Rightarrow> (string \<Rightarrow> string \<Rightarrow> string + attempt list) \<Rightarrow> descriptors \<Rightarrow> string list \<Rightarrow> (console \<times> int) act" where
  "client_program T resolve t args =
     backup_client T (\<lambda>host port. rbind (fst (connectTo resolve host port t)) (\<lambda>fd. Inr ())) args"

section \<open>The sockets of the server (BackupServer::run)\<close>

text \<open>The answers of the calls that make the listening socket: the text of an error or none.\<close>

record listen_calls =
  lc_socket :: "string option"
  lc_setsockopt :: "string option"
  lc_bind :: "16 word \<Rightarrow> string option"
  lc_listen :: "string option"

definition open_listener :: "listen_calls \<Rightarrow> int \<Rightarrow> descriptors \<Rightarrow> nat res \<times> descriptors" where
  "open_listener calls port t =
     (case lc_socket calls of
        Some m \<Rightarrow> (Inl (DpcError (errnoMessage ''socket failed'' m)), t)
      | None \<Rightarrow> (case fd_open Us t of (f, t1) \<Rightarrow>
      (case lc_setsockopt calls of
        Some m \<Rightarrow> (Inl (DpcError (errnoMessage ''setsockopt SO_REUSEADDR failed'' m)), socketfd_destroy (Some f) t1)
      | None \<Rightarrow>
      (case lc_bind calls (word_of_int port) of
        Some m \<Rightarrow> (Inl (DpcError (errnoMessage ''bind failed'' m)), socketfd_destroy (Some f) t1)
      | None \<Rightarrow>
      (case lc_listen calls of
        Some m \<Rightarrow> (Inl (DpcError (errnoMessage ''listen failed'' m)), socketfd_destroy (Some f) t1)
      | None \<Rightarrow> (Inr f, t1))))))"

text \<open>
  What happens while the loop runs: \<open>accept\<close> gives a connection, which the pool takes or, when it
  is shut down, does not; it is interrupted; it fails; the task that holds a socket ends and its
  \<open>SocketFd\<close> closes it; another thread opens or closes a descriptor, at any moment.
\<close>

datatype accept_event =
  Connection bool | AcceptEintr | AcceptFails string | TaskEnds nat | ThreadOpens | ThreadCloses nat

datatype run_end = InAccept | Returned | Threw exn

text \<open>\<open>stop k\<close> is what the \<open>k\<close>-th look at \<open>stopped_\<close> gives; \<open>handed\<close> are the sockets that tasks hold.\<close>

fun accept_loop :: "(nat \<Rightarrow> bool) \<Rightarrow> nat \<Rightarrow> accept_event list \<Rightarrow> descriptors \<Rightarrow> nat list \<Rightarrow> run_end \<times> descriptors \<times> nat list" where
  "accept_loop stop k [] t handed = (if stop k then Returned else InAccept, t, handed)"
| "accept_loop stop k (TaskEnds f # es) t handed =
     (if f \<in> set handed then accept_loop stop k es (socketfd_destroy (Some f) t) (remove1 f handed)
      else accept_loop stop k es t handed)"
| "accept_loop stop k (ThreadOpens # es) t handed = accept_loop stop k es (snd (fd_open Others t)) handed"
| "accept_loop stop k (ThreadCloses f # es) t handed = accept_loop stop k es (others_close f t) handed"
| "accept_loop stop k (AcceptEintr # es) t handed =
     (if stop k then (Returned, t, handed) else accept_loop stop (k + 1) es t handed)"
| "accept_loop stop k (AcceptFails m # es) t handed =
     (if stop k then (Returned, t, handed)
      else (Threw (DpcError (errnoMessage ''accept failed'' m)), t, handed))"
| "accept_loop stop k (Connection submitted # es) t handed =
     (if stop k then (Returned, t, handed)
      else case fd_open Us t of (f, t1) \<Rightarrow>
        (if submitted then accept_loop stop (k + 1) es t1 (f # handed)
         else accept_loop stop (k + 1) es (fd_close f t1) handed))"

text \<open>\<open>run\<close>: what it prints, how it ends, the table and the sockets that tasks hold.\<close>

definition server_run ::
  "listen_calls \<Rightarrow> (nat \<Rightarrow> bool) \<Rightarrow> accept_event list \<Rightarrow> path \<Rightarrow> int \<Rightarrow> descriptors \<Rightarrow> (string \<times> run_end \<times> descriptors \<times> nat list) act" where
  "server_run calls stop es repo port t =
     io_seq (ensureLayout repo) (
     case open_listener calls port t of
       (Inl e, t1) \<Rightarrow> io_return ([], Threw e, t1, [])
     | (Inr f, t1) \<Rightarrow>
         (case accept_loop stop 0 es t1 [] of
            (how, t2, handed) \<Rightarrow>
              io_return (''backup-server listening on port '' @ int_text port @ [nl], how,
                if how = InAccept then t2 else socketfd_destroy (Some f) t2, handed)))"


text \<open>What is ours is what was, with the listening socket and the sockets that tasks hold; no call went astray.\<close>

definition sockets_are :: "nat multiset \<Rightarrow> nat list \<Rightarrow> descriptors \<Rightarrow> descriptors \<Rightarrow> bool" where
  "sockets_are open_ones handed t0 t \<longleftrightarrow> distinct (map fst (fds t))
     \<and> ours (fds t) = ours (fds t0) + open_ones + mset handed \<and> strays t = strays t0"

lemma sockets_open:
  "sockets_are ls hs t0 t \<Longrightarrow> sockets_are (add_mset (lowest_free (fds t)) ls) hs t0 (snd (fd_open Us t))"
  "sockets_are ls hs t0 t \<Longrightarrow> sockets_are ls (lowest_free (fds t) # hs) t0 (snd (fd_open Us t))"
  using distinct_open [of t Us] by (simp_all add: sockets_are_def)

lemma sockets_close:
  assumes "sockets_are (add_mset f ls) hs t0 t"
  shows "sockets_are ls hs t0 (fd_close f t)"
proof -
  have d: "distinct (map fst (fds t))" and "f \<in># ours (fds t)" using assms by (simp_all add: sockets_are_def)
  then have f: "(f, Us) \<in> set (fds t)" by (simp only: in_ours)
  then show ?thesis
    using assms ours_without [OF d, of f] distinct_without [OF d] by (simp add: sockets_are_def)
qed

lemma sockets_task_ends:
  assumes "sockets_are ls hs t0 t" and "f \<in> set hs"
  shows "sockets_are ls (remove1 f hs) t0 (fd_close f t)"
proof (rule sockets_close)
  have "mset hs = add_mset f (mset (remove1 f hs))" using assms(2) by simp
  then show "sockets_are (add_mset f ls) (remove1 f hs) t0 t" using assms(1) by (simp add: sockets_are_def)
qed

lemma sockets_others:
  assumes "sockets_are ls hs t0 t"
  shows "sockets_are ls hs t0 (snd (fd_open Others t))" "sockets_are ls hs t0 (others_close f t)"
proof -
  have d: "distinct (map fst (fds t))" using assms by (simp add: sockets_are_def)
  show "sockets_are ls hs t0 (snd (fd_open Others t))" using assms distinct_open [OF d] by (simp add: sockets_are_def)
  show "sockets_are ls hs t0 (others_close f t)" using assms others_close_ours [OF d, of f] by (simp add: sockets_are_def)
qed

lemma accept_loop_sockets:
  "sockets_are ls hs t0 t \<Longrightarrow> accept_loop stop k es t hs = (how, t', hs') \<Longrightarrow> sockets_are ls hs' t0 t'"
proof (induction stop k es t hs rule: accept_loop.induct)
  case (2 stop k f es t hs)
  then show ?case using sockets_task_ends by (auto split: if_splits)
next
  case (3 stop k es t hs)
  then show ?case using sockets_others(1) by simp
next
  case (4 stop k f es t hs)
  then show ?case using sockets_others(2) by simp
next
  case (7 stop k submitted es t hs)
  note o = sockets_open [OF 7(3)]
  show ?case
  proof (cases "stop k")
    case False
    obtain f t1 where f: "fd_open Us t = (f, t1)" by fastforce
    then have "f = lowest_free (fds t)" "t1 = snd (fd_open Us t)" by (auto simp: fd_open_def)
    then have "sockets_are ls (f # hs) t0 t1" "sockets_are ls hs t0 (fd_close f t1)"
      using o(2) sockets_close [OF o(1)] by simp_all
    then show ?thesis using 7(1) [OF False f [symmetric]] 7(2) [OF False f [symmetric]] 7(4) False f by (auto split: if_splits)
  qed (use 7 in simp)
qed (auto split: if_splits)

lemma open_listener_cases:
  "open_listener calls port t =
     (case lc_socket calls of
        Some m \<Rightarrow> (Inl (DpcError (errnoMessage ''socket failed'' m)), t)
      | None \<Rightarrow>
      (case lc_setsockopt calls of
        Some m \<Rightarrow> (Inl (DpcError (errnoMessage ''setsockopt SO_REUSEADDR failed'' m)), t)
      | None \<Rightarrow>
      (case lc_bind calls (word_of_int port) of
        Some m \<Rightarrow> (Inl (DpcError (errnoMessage ''bind failed'' m)), t)
      | None \<Rightarrow>
      (case lc_listen calls of
        Some m \<Rightarrow> (Inl (DpcError (errnoMessage ''listen failed'' m)), t)
      | None \<Rightarrow> (Inr (lowest_free (fds t)), snd (fd_open Us t))))))"
  by (auto simp: open_listener_def fd_open_def split: option.splits)

text \<open>C18: the server loses no socket and closes none twice. Whatever the calls that make the listening socket
  answer, and however connections, interruptions, failures of \<open>accept\<close>, refusals of the pool, ends of tasks
  and the descriptors that other threads open and close follow each other: when \<open>run\<close> has returned or thrown,
  what it has open is what it had before and the sockets that tasks still hold, each once; while it waits in
  \<open>accept\<close>, the listening socket as well. And every number it closed was its own at that moment: no
  descriptor was closed twice, and no other thread lost one.\<close>

theorem server_sockets:
  assumes "distinct (map fst (fds t))"
  shows "case server_run calls stop es repo port t w of
      (Inl _, _) \<Rightarrow> True
    | (Inr (shown, how, t', handed), w') \<Rightarrow>
        distinct (map fst (fds t'))
        \<and> ours (fds t') = ours (fds t) + mset handed + (if how = InAccept then {#lowest_free (fds t)#} else {#})
        \<and> strays t' = strays t"
proof -
  let ?l = "lowest_free (fds t)"
  have start: "sockets_are {#} [] t t" using assms by (simp add: sockets_are_def)
  have loop: "sockets_are {#?l#} hs t t2 \<and> sockets_are {#} hs t (fd_close ?l t2)"
    if "accept_loop stop 0 es (snd (fd_open Us t)) [] = (how, t2, hs)" for how t2 hs
    using accept_loop_sockets [OF sockets_open(1) [OF start] that] by (blast intro: sockets_close)
  have "case server_run calls stop es repo port t w of
      (Inl _, _) \<Rightarrow> True
    | (Inr (shown, how, t', handed), w') \<Rightarrow> sockets_are (if how = InAccept then {#?l#} else {#}) handed t t'"
    using start loop
    by (auto simp: server_run_def open_listener_cases io_seq_def io_bind_def io_return_def
        split: prod.splits sum.splits option.splits)
  then show ?thesis by (auto simp: sockets_are_def add_ac split: prod.splits sum.splits)
qed

text \<open>Two connections, of which the pool refuses one; then another thread opens a descriptor, and a task ends.\<close>

theorem server_sockets_witness:
  "case server_run \<lparr>lc_socket = None, lc_setsockopt = None, lc_bind = (\<lambda>_. None), lc_listen = None\<rparr> (\<lambda>k. 3 \<le> k)
      [Connection True, AcceptEintr, Connection False, ThreadOpens, TaskEnds 2] [''r''] 19090
      \<lparr>fds = [(0, Others)], strays = []\<rparr> (quiet_world []) of
      (Inl _, _) \<Rightarrow> True
    | (Inr (shown, how, t', handed), w') \<Rightarrow>
        distinct (map fst (fds t'))
        \<and> ours (fds t') = ours (fds \<lparr>fds = [(0, Others)], strays = []\<rparr>) + mset handed
            + (if how = InAccept then {#lowest_free (fds \<lparr>fds = [(0, Others)], strays = []\<rparr>)#} else {#})
        \<and> strays t' = strays \<lparr>fds = [(0, Others)], strays = []\<rparr>"
  by (rule server_sockets) simp

text \<open>
  The port is cut to sixteen bits without a check: the message names a port that the server does not
  listen on.
\<close>

lemma other_port_than_shown:
  assumes "ensureLayout repo w = (Inr u, w')" and "\<not> stop 0"
    and "lc_socket calls = None" and "lc_setsockopt calls = None" and "lc_bind calls 4464 = None" and "lc_listen calls = None"
  shows "server_run calls stop [] repo 70000 t w =
    (Inr (''backup-server listening on port '' @ int_text 70000 @ [nl], InAccept, snd (fd_open Us t), []), w')"
proof -
  have "(70000 :: 16 word) = 4464" by simp
  then have "lc_bind calls 70000 = None" by (simp only: assms(5))
  then show ?thesis using assms by (simp add: server_run_def open_listener_cases io_seq_def io_bind_def)
qed

section \<open>The program (backup_server_main.cpp)\<close>

definition server_usage :: string where
  "server_usage = ''usage: backup-server --repo <path> --port <port> [--threads <n>]'' @ [nl]"

text \<open>\<open>None\<close>: the process still waits in \<open>accept\<close>.\<close>

definition backup_server ::
  "listen_calls \<Rightarrow> (nat \<Rightarrow> bool) \<Rightarrow> accept_event list \<Rightarrow> string list \<Rightarrow> descriptors \<Rightarrow> (console \<times> int option) act" where
  "backup_server calls stop es args t w =
     (if args = [''--help''] \<or> args = [''-h''] then (Inr (said server_usage, Some 0), w)
      else case
        io_bind (io_lift (server_arguments args)) (\<lambda>(repo, port, threads).
        server_run calls stop es repo port t) w of
          (Inl e, w') \<Rightarrow> (if e = Killed then (Inl Killed, w') else (Inr (logger_error (what e) (said []), Some 1), w'))
        | (Inr (shown, how, t', handed), w') \<Rightarrow>
            (let c = said shown in
             case how of
               InAccept \<Rightarrow> (Inr (c, None), w')
             | Returned \<Rightarrow> (Inr (c, Some 0), w')
             | Threw e \<Rightarrow> (Inr (logger_error (what e) c, Some 1), w')))"

text \<open>A port that is taken is reported, with exit code 1.\<close>

lemma backup_server_bind_fails:
  assumes "server_arguments args = Inr (repo, port, n)" and "args \<noteq> [''--help'']" and "args \<noteq> [''-h'']"
    and "ensureLayout repo w = (Inr u, w')"
    and "lc_socket calls = None" and "lc_setsockopt calls = None" and "lc_bind calls (word_of_int port) = Some m"
  shows "backup_server calls stop es args t w =
    (Inr (\<lparr>con_out = [], con_err = ''error: bind failed: '' @ m @ [nl]\<rparr>, Some 1), w')"
  using assms
  by (simp add: backup_server_def server_run_def open_listener_cases io_seq_def io_bind_def logger_error_def errnoMessage_def said_def)

end
