(* ===== verification/DPC_Whole.thy ===== *)
theory DPC_Whole
  imports DPC_Descriptors
begin

text \<open>
  Objects under concurrent puts. While the workers of the server put objects, also the same one at the
  same time, an object is at every moment whole or not there: each worker writes a temporary file that
  no other worker touches, and only whole files are renamed to the places of objects.
\<close>

section \<open>Whole objects\<close>

text \<open>The contents of an object are a compressed chunk that passed the check of the handler.\<close>

definition whole :: "third_party \<Rightarrow> string \<Rightarrow> bytes \<Rightarrow> bool" where
  "whole T sha c \<longleftrightarrow> (\<exists>n raw. decompress T c n = Inr raw \<and> sha256Hex T raw = Inr sha)"

definition objects_whole :: "third_party \<Rightarrow> path \<Rightarrow> fs \<Rightarrow> bool" where
  "objects_whole T repo d \<longleftrightarrow>
     (\<forall>sha c m. isSha256Hex sha \<longrightarrow> node_at d (object_place repo sha) = Some (File c m) \<longrightarrow> whole T sha c)"

definition object_area :: "path \<Rightarrow> path set" where
  "object_area repo = {walk repo @ ''objects'' # cs | cs. True}"

definition temp_area :: "path \<Rightarrow> path set" where
  "temp_area repo = object_area repo - {object_place repo sha | sha. isSha256Hex sha}"

lemma object_place_inj: "object_place repo sha = object_place repo sha' \<Longrightarrow> sha = sha'"
  by (simp add: object_place_def object_names_def)

lemma object_place_area: "object_place repo sha \<in> object_area repo"
  by (simp add: object_place_def object_names_def object_area_def)

lemma outside_area: "c \<noteq> ''objects'' \<Longrightarrow> walk repo @ c # cs \<notin> object_area repo"
  by (simp add: object_area_def)

lemma object_temp_area: "isSha256Hex sha \<Longrightarrow> temp_of (repo @ object_names sha) t \<Longrightarrow> t \<in> temp_area repo"
proof -
  assume sha: "isSha256Hex sha" and t: "temp_of (repo @ object_names sha) t"
  obtain process tick where "t = walk repo @ butlast (object_names sha) @ [temp_name (last (object_names sha)) process tick]"
    using temp_of_plain [OF object_names_plain(1) [OF sha] _ t] by (auto simp: object_names_def)
  then have "t \<in> object_area repo" by (simp add: object_names_def object_area_def)
  moreover have "t \<noteq> object_place repo sha'" if "isSha256Hex sha'" for sha'
    using object_temp_not_durable [OF sha t, of UNIV] object_durable [OF that, of repo UNIV] by blast
  ultimately show "t \<in> temp_area repo" by (auto simp: temp_area_def)
qed

lemma whole_untouched: "objects_whole T repo d \<Longrightarrow> untouched (object_area repo) d d' \<Longrightarrow> objects_whole T repo d'"
  unfolding objects_whole_def untouched_def using object_place_area by blast

section \<open>Temporary files with an owner\<close>

text \<open>
  A thread may own a temporary file, whose contents it knows. A step of it leaves the objects whole and
  the files of the others alone; what it owns afterwards it owned before, or has just created.
\<close>

type_synonym ownership = "(path \<times> bytes) option"

definition owns :: "path \<Rightarrow> ownership \<Rightarrow> fs \<Rightarrow> bool" where
  "owns repo hold d \<longleftrightarrow>
     (\<forall>t c. hold = Some (t, c) \<longrightarrow> t \<in> temp_area repo \<and> (\<exists>m. node_at d t = Some (File c m)))"

definition step_ok :: "third_party \<Rightarrow> path \<Rightarrow> ownership \<Rightarrow> ownership \<Rightarrow> fs \<Rightarrow> fs \<Rightarrow> bool" where
  "step_ok T repo hold hold' d d' \<longleftrightarrow>
     objects_whole T repo d' \<and> owns repo hold' d'
     \<and> (\<forall>k \<in> temp_area repo. \<forall>c m. node_at d k = Some (File c m) \<longrightarrow> k \<notin> fst ` set_option hold
          \<longrightarrow> node_at d' k = Some (File c m))
     \<and> (\<forall>t \<in> fst ` set_option hold'. t \<in> fst ` set_option hold \<or> node_at d t = None)"

inductive guarded :: "third_party \<Rightarrow> path \<Rightarrow> (ownership \<Rightarrow> 'a \<Rightarrow> bool) \<Rightarrow> ownership \<Rightarrow> 'a prog \<Rightarrow> bool"
  for T repo Q where
  g_thrown: "guarded T repo Q hold (Finished (Inl e))"
| g_returned: "Q hold a \<Longrightarrow> guarded T repo Q hold (Finished (Inr a))"
| g_step: "(\<And>w. objects_whole T repo (disk w) \<Longrightarrow> owns repo hold (disk w) \<Longrightarrow>
      \<exists>hold'. step_ok T repo hold hold' (disk w) (disk (snd (s w))) \<and> guarded T repo Q hold' (fst (s w))) \<Longrightarrow>
    guarded T repo Q hold (Step s)"

inductive_simps guarded_Finished: "guarded T repo Q hold (Finished r)"
inductive_simps guarded_Step: "guarded T repo Q hold (Step s)"

abbreviation nothing_owned :: "ownership \<Rightarrow> 'a \<Rightarrow> bool" where
  "nothing_owned \<equiv> \<lambda>hold _. hold = None"

named_theorems guarded_intro \<open>the steps of a computation leave the objects whole\<close>

lemma guarded_bind_with:
  assumes "guarded T repo R hold p" and "\<And>hold' a. R hold' a \<Longrightarrow> guarded T repo Q hold' (f a)"
  shows "guarded T repo Q hold (prog_bind p f)"
  using assms(1)
proof (induction rule: guarded.induct)
  case (g_step hold s)
  then show ?case by (auto simp: prog_bind.simps intro!: guarded.g_step) blast
qed (auto simp: prog_bind.simps intro: guarded.intros assms(2))

lemma guarded_do:
  assumes "\<And>w r w'. objects_whole T repo (disk w) \<Longrightarrow> owns repo hold (disk w) \<Longrightarrow> m w = (r, w') \<Longrightarrow>
    \<exists>hold'. step_ok T repo hold hold' (disk w) (disk w') \<and> (\<forall>a. r = Inr a \<longrightarrow> Q hold' a)"
  shows "guarded T repo Q hold (prog_do m)"
  unfolding prog_do_def
proof (rule guarded.g_step)
  fix w :: world assume w: "objects_whole T repo (disk w)" "owns repo hold (disk w)"
  obtain r w' where run: "m w = (r, w')" by fastforce
  obtain hold' where h: "step_ok T repo hold hold' (disk w) (disk w')" "\<And>a. r = Inr a \<Longrightarrow> Q hold' a"
    using assms [OF w run] by blast
  have "guarded T repo Q hold' (Finished r)" using h(2) by (cases r) (auto intro: guarded.intros)
  then show "\<exists>hold'. step_ok T repo hold hold' (disk w) (disk (snd (case m w of (r, w') \<Rightarrow> (Finished r, w'))))
      \<and> guarded T repo Q hold' (fst (case m w of (r, w') \<Rightarrow> (Finished r, w')))"
    using h(1) run by auto
qed

text \<open>A call that leaves the directory of the objects alone.\<close>

lemma step_ok_untouched:
  assumes "objects_whole T repo d" and "owns repo hold d" and "untouched (object_area repo) d d'"
  shows "step_ok T repo hold hold d d'"
proof -
  have "node_at d' k = Some (File c m) \<longleftrightarrow> node_at d k = Some (File c m)" if "k \<in> temp_area repo" for k c m
    using assms(3) that unfolding untouched_def temp_area_def by blast
  then show ?thesis
    using assms whole_untouched [OF assms(1,3)] unfolding step_ok_def owns_def by blast
qed

lemma guarded_quiet_with:
  assumes "\<And>d0. keeps (on_disk (untouched (object_area repo) d0)) m" and "\<And>w a w'. m w = (Inr a, w') \<Longrightarrow> R a"
  shows "guarded T repo (\<lambda>h a. h = hold \<and> R a) hold (prog_do m)"
proof (rule guarded_do)
  fix w r w'
  assume w: "objects_whole T repo (disk w)" "owns repo hold (disk w)" and run: "m w = (r, w')"
  have "untouched (object_area repo) (disk w) (disk w')" by (rule keepsD_eq [OF assms(1) untouched_refl run])
  then have "step_ok T repo hold hold (disk w) (disk w')" by (rule step_ok_untouched [OF w])
  moreover have "R a" if "r = Inr a" for a using assms(2) run that by simp
  ultimately show "\<exists>hold'. step_ok T repo hold hold' (disk w) (disk w') \<and> (\<forall>a. r = Inr a \<longrightarrow> hold' = hold \<and> R a)"
    by blast
qed

lemma guarded_quiet:
  "(\<And>d0. keeps (on_disk (untouched (object_area repo) d0)) m) \<Longrightarrow> guarded T repo (\<lambda>h _. h = hold) hold (prog_do m)"
  using guarded_quiet_with [of repo m anything T hold] by simp

lemma guarded_Fin [guarded_intro]: "guarded T repo nothing_owned None (Finished r)"
  by (cases r) (auto intro: guarded.intros)

lemma guarded_bind [guarded_intro]:
  "guarded T repo nothing_owned None p \<Longrightarrow> (\<And>a. guarded T repo Q None (f a)) \<Longrightarrow> guarded T repo Q None (prog_bind p f)"
  by (erule guarded_bind_with) simp

lemma guarded_seq [guarded_intro]:
  "guarded T repo nothing_owned None p \<Longrightarrow> guarded T repo Q None q \<Longrightarrow> guarded T repo Q None (prog_seq p q)"
  unfolding prog_seq_def by (rule guarded_bind)

lemma guarded_lift_bind [guarded_intro]:
  "(\<And>a. r = Inr a \<Longrightarrow> guarded T repo Q hold (f a)) \<Longrightarrow> guarded T repo Q hold (prog_bind (Finished r) f)"
  by (cases r) (auto simp: prog_bind.simps intro: guarded.intros)

lemma guarded_foreach [guarded_intro]:
  "(\<And>x. x \<in> set xs \<Longrightarrow> guarded T repo nothing_owned None (f x)) \<Longrightarrow> guarded T repo nothing_owned None (prog_foreach f xs)"
  by (induction xs) (auto intro!: guarded_seq guarded_Fin)

lemma guarded_if [guarded_intro]:
  "(b \<Longrightarrow> guarded T repo Q hold p) \<Longrightarrow> (\<not> b \<Longrightarrow> guarded T repo Q hold q) \<Longrightarrow> guarded T repo Q hold (if b then p else q)"
  by simp

lemma guarded_option [guarded_intro]:
  "(opt = None \<Longrightarrow> guarded T repo Q hold p) \<Longrightarrow> (\<And>x. opt = Some x \<Longrightarrow> guarded T repo Q hold (g x)) \<Longrightarrow>
     guarded T repo Q hold (case opt of None \<Rightarrow> p | Some x \<Rightarrow> g x)"
  by (cases opt) simp_all

lemma guarded_calm [guarded_intro]:
  "(\<And>d0. keeps (on_disk (untouched (object_area repo) d0)) m) \<Longrightarrow> guarded T repo nothing_owned None (prog_do m)"
  by (rule guarded_quiet)

section \<open>Everything but the write of an object\<close>

interpretation calm: shared_disk "untouched (object_area repo) d0" "- object_area repo" "- object_area repo" for repo d0
  by unfold_locales (auto intro: untouched_mkdir untouched_update untouched_delete)

lemma guarded_ensureDirectory [guarded_intro]: "guarded T repo nothing_owned None (ensureDirectory_prog p)"
proof -
  have "keeps (on_disk (untouched (object_area repo) d0)) (sys message (mkdir_call k))" for d0 message k
    by (intro keeps_sys) (auto simp: mkdir_call_def intro: untouched_mkdir split: if_splits)
  then have "keeps (on_disk (untouched (object_area repo) d0)) (case n of Some Directory \<Rightarrow> io_return ()
      | Some (File _ _) \<Rightarrow> io_throw e | None \<Rightarrow> sys message (mkdir_call k))" for d0 n e message k
    by (auto intro: keeps_return keeps_throw split: option.splits node.splits)
  then show ?thesis
    unfolding ensureDirectory_prog_def Let_def by (intro guarded_intro keeps_bind keeps_get)
qed

lemma guarded_fsyncDirectory [guarded_intro]: "guarded T repo nothing_owned None (fsyncDirectory_prog p)"
  unfolding fsyncDirectory_prog_def
  by (intro guarded_intro keeps_fsyncFd keeps_sys) (auto simp: open_dir_call_def split: if_splits)

lemma guarded_writeFileAtomic_outside:
  assumes p: "walk p \<notin> object_area repo" and temps: "\<And>t. temp_of p t \<Longrightarrow> t \<notin> object_area repo"
  shows "guarded T repo nothing_owned None (writeFileAtomic_prog p data mode)"
proof -
  have temp: "guarded T repo (\<lambda>h t. h = None \<and> temp_of p (walk t)) None (prog_do (makeTempPath p))"
    by (rule guarded_quiet_with) (auto intro: keeps_makeTempPath dest: makeTempPath_temp)
  have "guarded T repo nothing_owned None (replace_file_prog p data mode t)" if "temp_of p (walk t)" for t
  proof -
    have t: "walk t \<in> - object_area repo" using temps [OF that] by simp
    have "keeps (on_disk (untouched (object_area repo) d0)) (sys_try (rename_call (walk t) (walk p)))" for d0
      by (rule keeps_sys_try) (rule calm.rename_kept [OF _ t], use p in auto)
    moreover have "keeps (on_disk (untouched (object_area repo) d0)) (sys_try (unlink_call (walk t)))" for d0
      by (rule keeps_sys_try) (rule calm.unlink_kept [OF _ t])
    ultimately show ?thesis
      unfolding replace_file_prog_def
      using calm.keeps_create [OF t] calm.keeps_append [OF t]
      by (intro guarded_seq guarded_bind guarded_if guarded_option guarded_fsyncDirectory guarded_Fin guarded_calm keeps_get keeps_fsyncFd)
  qed
  then show ?thesis
    unfolding writeFileAtomic_prog_def
    by (intro guarded_seq guarded_ensureDirectory guarded_bind_with [OF temp]) blast
qed

section \<open>The write of an object\<close>

text \<open>The four kinds of step that touch the temporary file of an object.\<close>

lemma node_at_temp: "t \<in> temp_area repo \<Longrightarrow> t \<noteq> [] \<and> t \<noteq> [[slash]]"
  by (auto simp: temp_area_def object_area_def Cons_eq_append_conv append_eq_Cons_conv)

lemma whole_temp_update:
  "objects_whole T repo d \<Longrightarrow> t \<in> temp_area repo \<Longrightarrow> objects_whole T repo (AList.update t n d)"
  "objects_whole T repo d \<Longrightarrow> t \<in> temp_area repo \<Longrightarrow> objects_whole T repo (AList.delete t d)"
proof -
  have "object_place repo sha \<noteq> t" if "t \<in> temp_area repo" "isSha256Hex sha" for sha
    using that by (auto simp: temp_area_def)
  then show "objects_whole T repo d \<Longrightarrow> t \<in> temp_area repo \<Longrightarrow> objects_whole T repo (AList.update t n d)"
    "objects_whole T repo d \<Longrightarrow> t \<in> temp_area repo \<Longrightarrow> objects_whole T repo (AList.delete t d)"
    unfolding objects_whole_def by (simp_all add: node_at_update_other node_at_delete_other)
qed

lemma step_ok_create:
  assumes "objects_whole T repo d" and t: "t \<in> temp_area repo" and new: "node_at d t = None"
  shows "step_ok T repo None (Some (t, [])) d (AList.update t (File [] m) d)"
proof -
  have "node_at (AList.update t (File [] m) d) t = Some (File [] m)"
    using node_at_temp [OF t] by (simp add: node_at_update_same)
  moreover have "node_at (AList.update t (File [] m) d) k = node_at d k" if "node_at d k \<noteq> None" for k
    using that new by (metis node_at_update_other)
  ultimately show ?thesis
    using assms whole_temp_update(1) [OF assms(1) t] unfolding step_ok_def owns_def by auto
qed

lemma step_ok_append:
  assumes "objects_whole T repo d" and "owns repo (Some (t, c)) d"
  shows "step_ok T repo (Some (t, c)) (Some (t, c @ x)) d (append_bytes t x d)"
proof -
  obtain m where m: "node_at d t = Some (File c m)" and t: "t \<in> temp_area repo" using assms(2) by (auto simp: owns_def)
  have "objects_whole T repo (append_bytes t x d)"
    using whole_temp_update(1) [OF assms(1) t] assms(1) by (simp add: append_bytes_def split: option.splits node.splits)
  then show ?thesis
    using append_bytes_same [OF m] t unfolding step_ok_def owns_def by auto
qed

lemma step_ok_drop:
  assumes "objects_whole T repo d" and "owns repo (Some (t, c)) d"
  shows "step_ok T repo (Some (t, c)) None d (AList.delete t d)"
  using assms whole_temp_update(2) [of T repo d t] unfolding step_ok_def owns_def
  by (auto simp: node_at_delete_other)

lemma step_ok_publish:
  assumes "objects_whole T repo d" and "owns repo (Some (t, c)) d" and sha: "isSha256Hex sha" and c: "whole T sha c"
  shows "step_ok T repo (Some (t, c)) None d (AList.delete t (AList.update (object_place repo sha) (File c m) d))"
proof -
  let ?p = "object_place repo sha" let ?d = "AList.update ?p (File c m) d"
  have t: "t \<in> temp_area repo" using assms(2) by (simp add: owns_def)
  have at: "node_at ?d ?p = Some (File c m)"
    by (rule node_at_update_same) (auto simp: object_place_def object_names_def Cons_eq_append_conv append_eq_Cons_conv)
  have "objects_whole T repo ?d"
    unfolding objects_whole_def
  proof (intro allI impI)
    fix sha' c' m'
    assume "isSha256Hex sha'" and n: "node_at ?d (object_place repo sha') = Some (File c' m')"
    show "whole T sha' c'"
    proof (cases "sha' = sha")
      case True
      then show ?thesis using n at c by simp
    next
      case False
      then have "object_place repo sha' \<noteq> ?p" using object_place_inj by blast
      then have "node_at d (object_place repo sha') = Some (File c' m')" using n by (simp add: node_at_update_other)
      then show ?thesis using assms(1) \<open>isSha256Hex sha'\<close> unfolding objects_whole_def by blast
    qed
  qed
  then have "objects_whole T repo (AList.delete t ?d)" by (rule whole_temp_update(2) [OF _ t])
  moreover have "k \<noteq> ?p" if "k \<in> temp_area repo" for k using that sha by (auto simp: temp_area_def)
  ultimately show ?thesis
    unfolding step_ok_def owns_def by (auto simp: node_at_delete_other node_at_update_other)
qed

lemma step_ok_same: "objects_whole T repo d \<Longrightarrow> owns repo hold d \<Longrightarrow> step_ok T repo hold hold d d"
  by (rule step_ok_untouched) simp_all

lemma sys_try_same_disk:
  assumes "sys_try call w = (r, w')" and "r \<noteq> Inr None"
  shows "disk w' = disk w"
proof (cases r)
  case (Inl e)
  show ?thesis by (rule sys_try_killed_disk [OF assms(1) [unfolded Inl]])
next
  case (Inr x)
  then obtain m where "x = Some m" using assms(2) by (cases x) simp_all
  show ?thesis by (rule sys_try_Inr_Some [OF assms(1) [unfolded Inr \<open>x = Some m\<close>]])
qed

lemma sys_Inl_disk:
  assumes "sys m call w = (Inl e, w')"
  shows "disk w' = disk w"
proof -
  obtain r w1 where run: "sys_try call w = (r, w1)" by fastforce
  then have "w1 = w'" "r \<noteq> Inr None"
    using assms by (auto simp: sys_def io_bind_def split: sum.splits option.splits)
  then show ?thesis using sys_try_same_disk [OF run] by simp
qed

lemma step_ok_creat_call:
  "creat_excl_call t mode d = Inr d' \<Longrightarrow> objects_whole T repo d \<Longrightarrow> t \<in> temp_area repo \<Longrightarrow>
     step_ok T repo None (Some (t, [])) d d'"
  by (auto simp: creat_excl_call_def intro: step_ok_create split: if_splits)

lemma step_ok_rename_call:
  assumes run: "rename_call t (object_place repo sha) d = Inr d'" and w: "objects_whole T repo d" "owns repo (Some (t, c)) d"
    and "isSha256Hex sha" and "whole T sha c"
  shows "step_ok T repo (Some (t, c)) None d d'"
proof -
  obtain m where "node_at d t = Some (File c m)" and "t \<in> temp_area repo" using w(2) by (auto simp: owns_def)
  moreover from this have "t \<noteq> object_place repo sha" using assms(4) by (auto simp: temp_area_def)
  ultimately have "d' = AList.delete t (AList.update (object_place repo sha) (File c m) d)"
    using run by (auto simp: rename_call_def split: if_splits)
  then show ?thesis using step_ok_publish [OF w assms(4,5)] by simp
qed

lemma step_ok_unlink_call:
  "unlink_call t d = Inr d' \<Longrightarrow> objects_whole T repo d \<Longrightarrow> owns repo (Some (t, c)) d \<Longrightarrow>
     step_ok T repo (Some (t, c)) None d d'"
  by (auto simp: unlink_call_def intro: step_ok_drop split: option.splits node.splits)

lemma guarded_create:
  assumes t: "t \<in> temp_area repo"
  shows "guarded T repo (\<lambda>h _. h = Some (t, [])) None (prog_do (sys m (creat_excl_call t mode)))"
proof (rule guarded_do)
  fix w r w'
  assume w: "objects_whole T repo (disk w)" and run: "sys m (creat_excl_call t mode) w = (r, w')"
  show "\<exists>hold'. step_ok T repo None hold' (disk w) (disk w') \<and> (\<forall>a. r = Inr a \<longrightarrow> hold' = Some (t, []))"
  proof (cases r)
    case (Inr u)
    then have "step_ok T repo None (Some (t, [])) (disk w) (disk w')"
      using sys_Inr [OF run [unfolded Inr]] w t by (intro step_ok_creat_call)
    then show ?thesis by blast
  next
    case (Inl e)
    have "step_ok T repo None None (disk w) (disk w')"
      unfolding sys_Inl_disk [OF run [unfolded Inl]] by (rule step_ok_same [OF w]) (simp add: owns_def)
    then show ?thesis using Inl by blast
  qed
qed

lemma guarded_fill:
  "guarded T repo (\<lambda>h _. h = Some (t, data)) (Some (t, [])) (prog_do (writeAll t data))"
proof (rule guarded_do)
  fix w r w'
  assume w: "objects_whole T repo (disk w)" "owns repo (Some (t, [])) (disk w)" and run: "writeAll t data w = (r, w')"
  obtain x rest where x: "data = x @ rest" and d: "disk (snd (writeAll t data w)) = append_bytes t x (disk w)"
    using writeAll_prefix [of data t w] by blast
  show "\<exists>hold'. step_ok T repo (Some (t, [])) hold' (disk w) (disk w') \<and> (\<forall>a. r = Inr a \<longrightarrow> hold' = Some (t, data))"
  proof (cases r)
    case (Inl e)
    have "step_ok T repo (Some (t, [])) (Some (t, [] @ x)) (disk w) (disk w')"
      using step_ok_append [OF w, of x] unfolding d [symmetric] run by simp
    then show ?thesis using Inl by blast
  next
    case (Inr u)
    have "step_ok T repo (Some (t, [])) (Some (t, [] @ data)) (disk w) (disk w')"
      unfolding writeAll_ok [OF run [unfolded Inr]] by (rule step_ok_append [OF w])
    then show ?thesis by auto
  qed
qed

lemma guarded_publish:
  assumes sha: "isSha256Hex sha" and c: "whole T sha c"
  shows "guarded T repo (\<lambda>h r. h = (case r of None \<Rightarrow> None | Some _ \<Rightarrow> Some (t, c))) (Some (t, c))
    (prog_do (sys_try (rename_call t (object_place repo sha))))"
proof (rule guarded_do)
  fix w r w'
  assume w: "objects_whole T repo (disk w)" "owns repo (Some (t, c)) (disk w)"
    and run: "sys_try (rename_call t (object_place repo sha)) w = (r, w')"
  show "\<exists>hold'. step_ok T repo (Some (t, c)) hold' (disk w) (disk w')
      \<and> (\<forall>a. r = Inr a \<longrightarrow> hold' = (case a of None \<Rightarrow> None | Some _ \<Rightarrow> Some (t, c)))"
  proof (cases "r = Inr None")
    case True
    have "rename_call t (object_place repo sha) (disk w) = Inr (disk w')" using sys_try_Inr_None [OF run [unfolded True]] by simp
    then have "step_ok T repo (Some (t, c)) None (disk w) (disk w')" by (rule step_ok_rename_call [OF _ w sha c])
    then show ?thesis using True by auto
  next
    case False
    have "step_ok T repo (Some (t, c)) (Some (t, c)) (disk w) (disk w')"
      unfolding sys_try_same_disk [OF run False] by (rule step_ok_same [OF w])
    then show ?thesis using False by (intro exI [of _ "Some (t, c)"]) (auto split: option.splits)
  qed
qed

lemma guarded_discard:
  "guarded T repo nothing_owned (Some (t, c)) (prog_do (sys_try (unlink_call t)))"
proof (rule guarded_do)
  fix w r w'
  assume w: "objects_whole T repo (disk w)" "owns repo (Some (t, c)) (disk w)" and run: "sys_try (unlink_call t) w = (r, w')"
  have none: "step_ok T repo (Some (t, c)) None (disk w) (disk w)"
    using w unfolding step_ok_def owns_def by auto
  show "\<exists>hold'. step_ok T repo (Some (t, c)) hold' (disk w) (disk w') \<and> (\<forall>a. r = Inr a \<longrightarrow> hold' = None)"
  proof (cases "r = Inr None")
    case True
    have "unlink_call t (disk w) = Inr (disk w')" using sys_try_Inr_None [OF run [unfolded True]] by simp
    then have "step_ok T repo (Some (t, c)) None (disk w) (disk w')" by (rule step_ok_unlink_call [OF _ w])
    then show ?thesis by blast
  next
    case False
    have "step_ok T repo (Some (t, c)) None (disk w) (disk w')"
      unfolding sys_try_same_disk [OF run False] by (rule none)
    then show ?thesis by blast
  qed
qed

text \<open>From the creation of its temporary file to the rename, a thread owns it.\<close>

lemma guarded_replace_object:
  assumes sha: "isSha256Hex sha" and c: "whole T sha c" and temp: "temp_of (repo @ object_names sha) (walk t)"
  shows "guarded T repo nothing_owned None (replace_file_prog (repo @ object_names sha) c mode t)"
proof -
  let ?t = "walk t"
  have area: "?t \<in> temp_area repo" by (rule object_temp_area [OF sha temp])
  have fill: "guarded T repo (\<lambda>h _. h = Some (?t, c)) (Some (?t, []))
      (if c \<noteq> [] then prog_do (writeAll ?t c) else prog_return ())"
    by (auto intro: guarded_fill guarded.intros)
  have sync: "guarded T repo (\<lambda>h _. h = Some (?t, c)) (Some (?t, c)) (prog_do (fsyncFd n))" for n
    by (rule guarded_quiet) (rule keeps_fsyncFd)
  have give_up: "guarded T repo nothing_owned (Some (?t, c)) (prog_bind (prog_do (sys_try (unlink_call ?t))) (\<lambda>u. prog_throw (e u)))" for e
    by (rule guarded_bind_with [OF guarded_discard]) (rule guarded.g_thrown)
  have rename: "guarded T repo nothing_owned (Some (?t, c))
      (prog_bind (prog_do (sys_try (rename_call ?t (walk (repo @ object_names sha))))) (\<lambda>r. case r of
         None \<Rightarrow> fsyncDirectory_prog q
       | Some m \<Rightarrow> prog_bind (prog_do (sys_try (unlink_call ?t))) (\<lambda>ignored. prog_throw (e m ignored))))" for q e
    unfolding walk_object [OF sha]
    by (rule guarded_bind_with [OF guarded_publish [OF sha c]]) (auto intro: guarded_fsyncDirectory give_up split: option.splits)
  show ?thesis
    unfolding replace_file_prog_def prog_seq_def
    by (rule guarded_bind [OF guarded_calm [OF keeps_get]] guarded_bind_with [OF guarded_create [OF area]]
        guarded_bind_with [OF fill] guarded_bind_with [OF sync] | simp only: | rule rename)+
qed

lemma guarded_write_object:
  assumes "isSha256Hex sha" and "whole T sha c"
  shows "guarded T repo nothing_owned None (writeFileAtomic_prog (repo @ object_names sha) c mode)"
proof -
  have temp: "guarded T repo (\<lambda>h t. h = None \<and> temp_of p (walk t)) None (prog_do (makeTempPath p))" for p
    by (rule guarded_quiet_with) (auto intro: keeps_makeTempPath dest: makeTempPath_temp)
  show ?thesis
    unfolding writeFileAtomic_prog_def
    by (intro guarded_seq guarded_ensureDirectory guarded_bind_with [OF temp]) (auto intro: guarded_replace_object assms)
qed

section \<open>The handlers\<close>

lemma area_text:
  assumes "list_all plain_name cs" and "cs \<noteq> []" and "hd cs \<noteq> ''objects''" and "2 \<le> length cs"
  shows "guarded T repo nothing_owned None (writeTextAtomic_prog (repo @ cs) x mode)"
proof -
  have out: "walk repo @ ds \<notin> object_area repo" if "hd ds \<noteq> ''objects''" "ds \<noteq> []" for ds
    using that by (cases ds) (simp_all add: outside_area)
  have "t \<notin> object_area repo" if t: "temp_of (repo @ cs) t" for t
  proof -
    obtain process tick where "t = walk repo @ butlast cs @ [temp_name (last cs) process tick]"
      using temp_of_plain [OF assms(1,2) t] by blast
    moreover have "butlast cs \<noteq> []" using assms(4) by (cases cs) auto
    moreover from this have "hd (butlast cs @ [temp_name (last cs) process tick]) = hd cs" by (cases cs) (auto split: if_splits)
    ultimately show ?thesis using out [of "butlast cs @ [temp_name (last cs) process tick]"] assms(3) by simp
  qed
  then show ?thesis
    unfolding writeTextAtomic_prog_def
    using out [OF assms(3,2)] by (intro guarded_writeFileAtomic_outside) (simp_all add: walk_plain [OF assms(1)])
qed

lemma outside_files [simp]:
  "walk (walPath repo) \<notin> object_area repo" "walk (session_path repo sid) \<notin> object_area repo"
  "walk (tmpManifestPath repo v) \<notin> object_area repo" "walk (manifestPath repo v) \<notin> object_area repo"
  unfolding handlers.walk_log_place walk_session walk_version_paths by (simp_all add: outside_area)

lemma guarded_ensureLayout [guarded_intro]: "guarded T repo nothing_owned None (ensureLayout_prog p)"
  unfolding ensureLayout_prog_def by (intro guarded_intro)

lemma guarded_wal_append [guarded_intro]: "guarded T repo nothing_owned None (wal_append_prog repo type payload)"
  unfolding wal_append_prog_def
  by (intro guarded_intro keeps_get calm.keeps_open_sys calm.keeps_append keeps_fsyncFd) simp_all

lemma guarded_version_files [guarded_intro]:
  "guarded T repo nothing_owned None (writeTmp_prog repo v m)" "guarded T repo nothing_owned None (marker_create_prog repo v)"
  "guarded T repo nothing_owned None (writeCheckpoint_prog repo)"
  unfolding writeTmp_prog_def marker_create_prog_def writeCheckpoint_prog_def tmpManifestPath_def commitPath_def checkpointPath_def
  by (intro guarded_intro keeps_query area_text; simp)+

lemma guarded_renameTmp [guarded_intro]: "guarded T repo nothing_owned None (renameTmpToManifest_prog repo v)"
proof -
  have "keeps (on_disk (untouched (object_area repo) d0))
      (sys x (rename_call (walk (tmpManifestPath repo v)) (walk (manifestPath repo v))))" for x d0
    by (rule keeps_sys) (rule calm.rename_kept, simp_all)
  then show ?thesis unfolding renameTmpToManifest_prog_def Let_def by (intro guarded_intro)
qed

lemma guarded_session [guarded_intro]: "guarded T repo nothing_owned None (session_append_prog (session_path repo sid) x)"
proof -
  have k: "walk (session_path repo sid) \<in> - object_area repo" by simp
  have "keeps (on_disk (untouched (object_area repo) d0)) (stream_open (session_path repo sid))" for d0
    unfolding stream_open_def by (intro keeps_intro calm.keeps_open [OF k])
  then show ?thesis
    unfolding session_append_prog_def using calm.keeps_append_text [OF calm.keeps_append [OF k]]
    by (intro guarded_intro)
qed

lemma guarded_records [guarded_intro]:
  "guarded T repo nothing_owned None (appendChunk_prog repo sid r)"
  "guarded T repo nothing_owned None (markCommitted_prog repo sid v)"
  unfolding appendChunk_prog_def markCommitted_prog_def by (intro guarded_intro keeps_query)+

lemma guarded_put [guarded_intro]:
  assumes "whole T sha c"
  shows "guarded T repo nothing_owned None (putCompressed_prog T repo sha c n)"
proof -
  have "guarded T repo nothing_owned None (writeFileAtomic_prog ab c mode)"
    if "objectPathForHash sha = Inr rel" "absoluteObjectPath repo rel = Inr ab" for rel ab mode
    using handlers.object_place_of [OF that] guarded_write_object [OF _ assms] by simp
  then show ?thesis
    unfolding putCompressed_prog_def Let_def
    by (intro guarded_intro keeps_get keeps_query)
qed

lemma guarded_handle_put [guarded_intro]: "guarded T repo nothing_owned None (handle_put_prog T repo p)"
  unfolding handle_put_prog_def
  by (intro guarded_intro keeps_sendText) (auto simp: whole_def)

lemma guarded_handle_commit [guarded_intro]: "guarded T repo nothing_owned None (handle_commit_prog repo p)"
  unfolding handle_commit_prog_def by (intro guarded_intro keeps_query keeps_sendText)

lemma guarded_handlePacket [guarded_intro]: "guarded T repo nothing_owned None (handlePacket_prog T repo p)"
  unfolding handlePacket_prog_def handlePacket_def handle_query_def
  by (cases "pk_type p") (auto intro!: guarded_intro keeps_intro)

section \<open>All workers\<close>

text \<open>
  \<open>hold i\<close> is what worker \<open>i\<close> owns: no two own the same file, and each handler in progress is guarded
  by what its worker owns.
\<close>

fun worker_guarded :: "third_party \<Rightarrow> path \<Rightarrow> ownership \<Rightarrow> worker_state \<Rightarrow> bool" where
  "worker_guarded T repo hold (InPacket k stop rest sent p) \<longleftrightarrow> guarded T repo nothing_owned hold p"
| "worker_guarded T repo hold _ \<longleftrightarrow> hold = None"

definition server_guarded :: "third_party \<Rightarrow> path \<Rightarrow> (nat \<Rightarrow> ownership) \<Rightarrow> server \<Rightarrow> bool" where
  "server_guarded T repo hold s \<longleftrightarrow>
     objects_whole T repo (disk (sv_world s))
     \<and> (\<forall>i < length (sv_workers s). owns repo (hold i) (disk (sv_world s)) \<and> worker_guarded T repo (hold i) (sv_workers s ! i))
     \<and> (\<forall>i < length (sv_workers s). \<forall>j < length (sv_workers s). i \<noteq> j \<longrightarrow>
          fst ` set_option (hold i) \<inter> fst ` set_option (hold j) = {})"

lemma owns_None [simp]: "owns repo None d"
  by (simp add: owns_def)

lemma step_ok_forget: "objects_whole T repo d \<Longrightarrow> step_ok T repo hold None d d"
  by (simp add: step_ok_def)

lemma keeps_sendError_untouched: "keeps (on_disk (untouched K d0)) (sendError h x)"
  by (rule keeps_sendText(2))

lemma worker_step_guarded:
  assumes run: "worker_step T repo wk w = (wk', e, w')" and "wk \<noteq> Waiting"
    and w: "objects_whole T repo (disk w)" "owns repo hold (disk w)" and g: "worker_guarded T repo hold wk"
  shows "\<exists>hold'. step_ok T repo hold hold' (disk w) (disk w') \<and> worker_guarded T repo hold' wk'"
proof (cases wk)
  case Waiting
  then show ?thesis using assms(2) by simp
next
  case (AtLoop k stop rest sent)
  have first: "guarded T repo nothing_owned None (prog_bind (prog_do readPacket) (handlePacket_prog T repo))"
    by (intro guarded_intro keeps_readPacket_disk)
  have "disk w' = disk w" "worker_guarded T repo None wk'" "hold = None"
    using run AtLoop g first by (auto split: if_splits)
  then show ?thesis using step_ok_same [OF w] by (intro exI [of _ None]) simp
next
  case (InPacket k stop rest sent p)
  show ?thesis
  proof (cases p)
    case (Step s)
    let ?w = "on_socket rest sent w"
    obtain p1 w1 where s: "s ?w = (p1, w1)" by fastforce
    have "guarded T repo nothing_owned hold (Step s)" using g InPacket Step by simp
    then obtain hold' where "step_ok T repo hold hold' (disk w) (disk w1)" "guarded T repo nothing_owned hold' p1"
      using w s unfolding guarded_Step by (metis disk_on_socket fst_conv snd_conv)
    then show ?thesis using run InPacket Step s by auto
  next
    case (Finished r)
    show ?thesis
    proof (cases r)
      case (Inr u)
      have "hold = None" using g InPacket Finished Inr by (simp add: guarded_Finished)
      then show ?thesis using run InPacket Finished Inr step_ok_same [OF w] by auto
    next
      case (Inl x)
      have "untouched (object_area repo) (disk w) (disk (snd (sendError 0 (what x) (on_socket rest sent w))))"
        using keepsD [OF keeps_sendError_untouched [of "object_area repo" "disk w" 0 "what x"], of "on_socket rest sent w"] by simp
      moreover have "disk w' = disk w \<or> disk w' = disk (snd (sendError 0 (what x) (on_socket rest sent w)))" and "wk' = Waiting"
        using run InPacket Finished Inl by (auto split: if_splits prod.splits sum.splits)
      ultimately have "untouched (object_area repo) (disk w) (disk w')" by auto
      then have "step_ok T repo None None (disk w) (disk w')" by (intro step_ok_untouched w(1) owns_None)
      then have "step_ok T repo hold None (disk w) (disk w')" by (simp add: step_ok_def)
      then show ?thesis using \<open>wk' = Waiting\<close> by auto
    qed
  qed
qed

text \<open>What a worker does leaves the temporary files of the others alone, and it comes to own none of them.\<close>

lemma others_hold:
  assumes ok: "step_ok T repo hold hold' d d'" and other: "owns repo other d"
    and apart: "fst ` set_option hold \<inter> fst ` set_option other = {}"
  shows "owns repo other d' \<and> fst ` set_option hold' \<inter> fst ` set_option other = {}"
proof (cases other)
  case (Some tc)
  obtain t c where tc: "tc = (t, c)" by fastforce
  obtain m where t: "t \<in> temp_area repo" and m: "node_at d t = Some (File c m)"
    using other Some tc by (auto simp: owns_def)
  have "t \<notin> fst ` set_option hold" using apart Some tc by auto
  then have "node_at d' t = Some (File c m)" using ok t m unfolding step_ok_def by blast
  moreover have "t \<notin> fst ` set_option hold'"
    using ok m \<open>t \<notin> fst ` set_option hold\<close> unfolding step_ok_def by force
  ultimately show ?thesis using Some tc t by (auto simp: owns_def)
qed simp

lemma server_step_guarded:
  assumes "server_step T repo s s'" and "server_guarded T repo hold s"
  shows "\<exists>hold'. server_guarded T repo hold' s'"
  using assms(1)
proof (cases rule: server_step.cases)
  case (accept conn)
  then show ?thesis using assms(2) by (intro exI [of _ hold]) (simp add: server_guarded_def)
next
  case (take conn conns i)
  have "hold i = None" using assms(2) take(4,5) by (auto simp: server_guarded_def)
  then show ?thesis
    using assms(2) take by (intro exI [of _ hold]) (auto simp: server_guarded_def nth_list_update)
next
  case (work i wk e w')
  let ?d = "disk (sv_world s)"
  have s: "objects_whole T repo ?d" "owns repo (hold i) ?d" "worker_guarded T repo (hold i) (sv_workers s ! i)"
    using assms(2) work(3) by (auto simp: server_guarded_def)
  obtain hold' where h: "step_ok T repo (hold i) hold' ?d (disk w')" "worker_guarded T repo hold' wk"
    using worker_step_guarded [OF work(5,4) s] by blast
  have o: "owns repo (hold j) (disk w') \<and> fst ` set_option hold' \<inter> fst ` set_option (hold j) = {}"
    if "j < length (sv_workers s)" "j \<noteq> i" for j
    using others_hold [OF h(1), of "hold j"] assms(2) that work(3) by (auto simp: server_guarded_def)
  have "server_guarded T repo (hold(i := hold')) s'"
    unfolding server_guarded_def work(1)
    using h o assms(2) by (auto simp: server_guarded_def step_ok_def nth_list_update)
  then show ?thesis by blast
qed

lemma server_runs_guarded:
  "server_runs T repo s s' \<Longrightarrow> server_guarded T repo hold s \<Longrightarrow> \<exists>hold'. server_guarded T repo hold' s'"
  by (induction rule: rtranclp_induct) (blast dest: server_step_guarded)+

lemma objects_stay_whole:
  assumes "server_runs T repo s s'" and "between_packets s" and "objects_whole T repo (disk (sv_world s))"
  shows "objects_whole T repo (disk (sv_world s'))"
proof -
  have "worker_guarded T repo None wk" if "\<not> handles_packet wk" for wk using that by (cases wk) simp_all
  then have "server_guarded T repo (\<lambda>_. None) s"
    using assms(2,3) by (auto simp: server_guarded_def between_packets_def list_ex_length)
  then have "\<exists>hold. server_guarded T repo hold s'" by (rule server_runs_guarded [OF assms(1)])
  then show ?thesis by (auto simp: server_guarded_def)
qed

text \<open>C6: concurrent puts never tear an object. From a moment at which no worker is in the handling of a
  packet and every object of the store is a whole compressed chunk of its hash, let the workers put
  chunks, also the same one at the same time, with their calls of the system in any order, with any
  failures and the process cut off anywhere: at every moment every object of the store still is one.\<close>

theorem objects_never_torn:
  assumes "server_runs T repo s s'" and "between_packets s" and "objects_whole T repo (disk (sv_world s))"
  shows "objects_whole T repo (disk (sv_world s'))"
  by (rule objects_stay_whole [OF assms])

theorem objects_never_torn_witness:
  "objects_whole toy [''r''] (disk (sv_world (two_workers served_version (InPacket 0 (\<lambda>_. False) [68, 80] []
        (prog_bind (prog_do readPacket) (handlePacket_prog toy [''r'']))) [])))"
proof -
  have "node_at served_version (object_place [''r''] sha) = None" for sha
    by (simp add: served_version_def one_version_def object_place_def object_names_def node_at_def walk_def
        walk_step_def dot_def dotdot_def)
  then have "objects_whole toy [''r''] (disk (sv_world (two_workers served_version Waiting [([68, 80], \<lambda>_. False)])))"
    by (simp add: objects_whole_def two_workers_def)
  moreover have "between_packets (two_workers served_version Waiting [([68, 80], \<lambda>_. False)])"
    by (simp add: between_packets_def two_workers_def)
  ultimately show ?thesis by (intro objects_never_torn [OF two_workers_run])
qed

end
