(* ===== verification/DPC_Acks.thy ===== *)
theory DPC_Acks
  imports DPC_Whole
begin

text \<open>
  What an acknowledgement is worth when other workers run: a chunk that was acknowledged is in the store,
  at that moment and ever after, whatever the other workers did in between
  (src/src/network/BackupServer.cpp, src/src/core/ObjectStore.cpp).
\<close>

section \<open>Steps that establish a fact\<close>

text \<open>
  \<open>assures D G b p\<close>: no step of \<open>p\<close> destroys the fact \<open>D\<close> of the disk, whatever the world it is taken in;
  and when the others do not destroy it either, a value \<open>a\<close> that \<open>p\<close> returns has \<open>G a e\<close>, where \<open>e\<close> says
  that \<open>D\<close> holds, and \<open>b\<close> that it holds now.
\<close>

inductive assures :: "(fs \<Rightarrow> bool) \<Rightarrow> ('a \<Rightarrow> bool \<Rightarrow> bool) \<Rightarrow> bool \<Rightarrow> 'a prog \<Rightarrow> bool" for D G where
  thrown: "assures D G b (Finished (Inl e))"
| returned: "G a b \<Longrightarrow> assures D G b (Finished (Inr a))"
| step: "(\<And>w. (b \<longrightarrow> D (disk w)) \<Longrightarrow>
      (D (disk w) \<longrightarrow> D (disk (snd (s w)))) \<and> assures D G (D (disk (snd (s w)))) (fst (s w))) \<Longrightarrow> assures D G b (Step s)"

inductive_simps assures_iff: "assures D G b (Finished r)" "assures D G b (Step s)"

abbreviation whatever :: "'a \<Rightarrow> bool \<Rightarrow> bool" where
  "whatever \<equiv> \<lambda>_ _. True"

abbreviation established :: "'a \<Rightarrow> bool \<Rightarrow> bool" where
  "established \<equiv> \<lambda>_ e. e"

named_theorems assures_intro \<open>the steps of a computation do not destroy a fact\<close>

lemma assures_weaken:
  assumes "assures D G b p" and "b \<Longrightarrow> c" and "\<And>a e. (c \<longrightarrow> e) \<Longrightarrow> G a e \<Longrightarrow> G' a e" and "\<And>a. G a False \<Longrightarrow> G a True"
  shows "assures D G' c p"
  using assms
proof (induction arbitrary: c rule: assures.induct)
  case (returned a b)
  then show ?case by (cases b; cases c) (auto intro: assures.returned)
next
  case (step b s)
  show ?case
  proof (rule assures.step)
    fix w :: world assume w: "c \<longrightarrow> D (disk w)"
    then have "b \<longrightarrow> D (disk w)" using step.prems(1) by blast
    note here = step.IH [OF this]
    have "assures D G' (D (disk (snd (s w)))) (fst (s w))"
      using here w step.prems(2,3) by blast
    then show "(D (disk w) \<longrightarrow> D (disk (snd (s w)))) \<and> assures D G' (D (disk (snd (s w)))) (fst (s w))"
      using here by blast
  qed
qed (rule assures.thrown)

lemma assures_do:
  assumes "keeps (on_disk D) m"
    and "\<And>w a w'. (b \<longrightarrow> D (disk w)) \<Longrightarrow> m w = (Inr a, w') \<Longrightarrow> G a (D (disk w'))"
  shows "assures D G b (prog_do m)"
  unfolding prog_do_def
proof (rule assures.step)
  fix w :: world assume w: "b \<longrightarrow> D (disk w)"
  obtain r w' where run: "m w = (r, w')" by fastforce
  have "D (disk w) \<longrightarrow> D (disk w')" using keepsD_eq [OF assms(1) _ run] by blast
  moreover have "assures D G (D (disk w')) (Finished r)"
    using assms(2) [OF w] run by (cases r) (auto simp: assures_iff)
  ultimately show "(D (disk w) \<longrightarrow> D (disk (snd (case m w of (r, w') \<Rightarrow> (Finished r, w')))))
      \<and> assures D G (D (disk (snd (case m w of (r, w') \<Rightarrow> (Finished r, w'))))) (fst (case m w of (r, w') \<Rightarrow> (Finished r, w')))"
    by (simp add: run)
qed

lemma assures_keeps [assures_intro]: "keeps (on_disk D) m \<Longrightarrow> assures D whatever b (prog_do m)"
  by (rule assures_do) simp_all

lemma assures_Finished [assures_intro]: "assures D whatever b (Finished r)" "assures D G b (Finished (Inl e))"
  by (cases r) (simp_all add: assures_iff)

lemma assures_bind_with:
  assumes "assures D R b p" and "\<And>a e. R a e \<Longrightarrow> assures D G e (f a)"
  shows "assures D G b (prog_bind p f)"
  using assms(1)
proof (induction rule: assures.induct)
  case (step b s)
  show ?case
    unfolding prog_bind.simps
  proof (rule assures.step)
    fix w :: world assume "b \<longrightarrow> D (disk w)"
    from step.IH [OF this]
    show "(D (disk w) \<longrightarrow> D (disk (snd (map_prod (\<lambda>p. prog_bind p f) id (s w)))))
        \<and> assures D G (D (disk (snd (map_prod (\<lambda>p. prog_bind p f) id (s w))))) (fst (map_prod (\<lambda>p. prog_bind p f) id (s w)))"
      by simp
  qed
qed (simp_all add: prog_bind.simps assures_iff assms(2))

lemma assures_bind [assures_intro]:
  "assures D whatever b p \<Longrightarrow> (\<And>a e. assures D G e (f a)) \<Longrightarrow> assures D G b (prog_bind p f)"
  by (rule assures_bind_with)

lemma assures_seq [assures_intro]:
  "assures D whatever b p \<Longrightarrow> (\<And>e. assures D G e q) \<Longrightarrow> assures D G b (prog_seq p q)"
  unfolding prog_seq_def by (rule assures_bind)

lemma assures_lift_bind [assures_intro]:
  "(\<And>a. r = Inr a \<Longrightarrow> assures D G b (f a)) \<Longrightarrow> assures D G b (prog_bind (Finished r) f)"
  by (cases r) (simp_all add: prog_bind.simps assures_iff)

lemma assures_foreach [assures_intro]:
  "(\<And>x e. x \<in> set xs \<Longrightarrow> assures D whatever e (f x)) \<Longrightarrow> assures D whatever b (prog_foreach f xs)"
  by (induction xs arbitrary: b) (auto intro!: assures_intro)

lemma assures_if [assures_intro]:
  "(c \<Longrightarrow> assures D G b p) \<Longrightarrow> (\<not> c \<Longrightarrow> assures D G b q) \<Longrightarrow> assures D G b (if c then p else q)"
  by simp

lemma assures_option [assures_intro]:
  "(opt = None \<Longrightarrow> assures D G b p) \<Longrightarrow> (\<And>x. opt = Some x \<Longrightarrow> assures D G b (g x)) \<Longrightarrow>
     assures D G b (case opt of None \<Rightarrow> p | Some x \<Rightarrow> g x)"
  by (cases opt) simp_all

text \<open>What is established stays so to the end.\<close>

lemma assures_still: "assures D whatever b p \<Longrightarrow> assures D (\<lambda>_ e. b \<longrightarrow> e) b p"
proof (induction b p rule: assures.induct)
  case (step b s)
  show ?case
  proof (rule assures.step)
    fix w :: world assume w: "b \<longrightarrow> D (disk w)"
    note here = step.IH [OF w]
    have "assures D (\<lambda>_ e. b \<longrightarrow> e) (D (disk (snd (s w)))) (fst (s w))"
      by (rule assures_weaken [OF here [THEN conjunct2, THEN conjunct2]]) (use here w in blast)+
    then show "(D (disk w) \<longrightarrow> D (disk (snd (s w))))
        \<and> assures D (\<lambda>_ e. b \<longrightarrow> e) (D (disk (snd (s w)))) (fst (s w))"
      using here by blast
  qed
qed (simp_all add: assures_iff)

lemma assures_still_established: "assures D whatever True p \<Longrightarrow> assures D established True p"
  using assures_still [of D True p] by simp

lemma assures_first:
  assumes "assures D established b p" and "\<And>a. assures D whatever True (f a)"
  shows "assures D established b (prog_bind p f)"
proof (rule assures_bind_with [OF assms(1)])
  fix a and e :: bool
  assume e
  then show "assures D established e (f a)" using assures_still_established [OF assms(2)] by simp
qed

section \<open>A file that is never removed\<close>

text \<open>
  The places that no handler removes: neither a temporary file nor a manifest that is not renamed yet.
\<close>

definition file_at :: "path \<Rightarrow> fs \<Rightarrow> bool" where
  "file_at k d \<longleftrightarrow> (\<exists>c m. node_at d k = Some (File c m))"

lemma renamed_file:
  assumes "rename_call k k0 d = Inr d'" and "k \<noteq> k0"
  shows "file_at k0 d'"
proof -
  obtain c m where d': "d' = AList.delete k (AList.update k0 (File c m) d)" and "node_at d k0 \<noteq> Some Directory"
    using assms by (auto simp: rename_call_def split: option.splits node.splits if_splits)
  then have "k0 \<noteq> [] \<and> k0 \<noteq> [[slash]]" by auto
  then show ?thesis using assms(2) by (simp add: file_at_def d' node_at_update_same)
qed

locale lasting_file =
  fixes k0 :: path and repo :: path
  assumes not_temporary: "list_all plain_name cs \<Longrightarrow> 2 \<le> length cs \<Longrightarrow> \<not> temp_of (repo @ cs) k0"
    and not_tmp: "k0 \<noteq> walk (tmpManifestPath repo v)"

sublocale lasting_file \<subseteq> shared_disk "file_at k0" UNIV "- {k0}"
proof
  fix d :: fs and k c m
  show "file_at k0 (AList.update k Directory d)" if "file_at k0 d" "node_at d k = None"
    using that unfolding file_at_def by (metis node_at_update_other option.distinct(1))
  show "file_at k0 (AList.update k (File c m) d)" if "file_at k0 d"
    using that unfolding file_at_def by (metis node_at_File_root node_at_update_other node_at_update_same)
  show "file_at k0 (AList.delete k d)" if "file_at k0 d" "k \<in> - {k0}"
    using that unfolding file_at_def by (metis Compl_iff insertI1 node_at_delete_other)
qed

context lasting_file
begin

lemma assures_ensureDirectory [assures_intro]: "assures (file_at k0) whatever b (ensureDirectory_prog p)"
  unfolding ensureDirectory_prog_def Let_def
  by (intro assures_if assures_Finished assures_foreach assures_keeps keeps_component)

lemma assures_fsyncDirectory [assures_intro]: "assures (file_at k0) whatever b (fsyncDirectory_prog p)"
  unfolding fsyncDirectory_prog_def by (intro assures_seq assures_keeps keeps_open_dir keeps_fsyncFd)

text \<open>An atomic write to the place establishes the file; one to another place leaves it there.\<close>

lemma assures_replace_file:
  assumes t: "walk t \<noteq> k0"
  shows "assures (file_at k0) (\<lambda>_ e. walk p = k0 \<longrightarrow> e) b (replace_file_prog p data mode t)"
proof -
  have k: "walk t \<in> UNIV" "walk t \<in> - {k0}" using t by auto
  have renamed: "assures (file_at k0) (\<lambda>r e. r = None \<and> walk p = k0 \<longrightarrow> e) b (prog_do (sys_try (rename_call (walk t) (walk p))))" for b
  proof (rule assures_do)
    show "keeps (on_disk (file_at k0)) (sys_try (rename_call (walk t) (walk p)))"
      by (rule keeps_sys_try) (rule rename_kept [OF _ k(2) UNIV_I])
    fix w :: world and a w'
    assume run: "sys_try (rename_call (walk t) (walk p)) w = (Inr a, w')"
    show "a = None \<and> walk p = k0 \<longrightarrow> file_at k0 (disk w')"
    proof
      assume a: "a = None \<and> walk p = k0"
      then have "rename_call (walk t) k0 (disk w) = Inr (disk w')" using run sys_try_Inr_None by blast
      then show "file_at k0 (disk w')" by (rule renamed_file) (rule t)
    qed
  qed
  have sync: "assures (file_at k0) (\<lambda>_ e. walk p = k0 \<longrightarrow> e) e (fsyncDirectory_prog q)" if "walk p = k0 \<longrightarrow> e" for e q
    by (rule assures_weaken [OF assures_still [OF assures_fsyncDirectory, of e]]) (use that in auto)
  have drop: "keeps (on_disk (file_at k0)) (sys_try (unlink_call (walk t)))"
    by (rule keeps_sys_try) (rule unlink_kept [OF _ k(2)])
  show ?thesis
    unfolding replace_file_prog_def
    by (intro assures_seq assures_bind assures_if assures_bind_with [OF renamed] assures_option assures_keeps
        keeps_get keeps_create keeps_append keeps_fsyncFd drop assures_Finished sync UNIV_I) simp_all
qed

lemma assures_writeFileAtomic:
  assumes "list_all plain_name cs" and "2 \<le> length cs"
  shows "assures (file_at k0) (\<lambda>_ e. walk (repo @ cs) = k0 \<longrightarrow> e) b (writeFileAtomic_prog (repo @ cs) data mode)"
proof -
  have temp: "assures (file_at k0) (\<lambda>t _. walk t \<noteq> k0) b (prog_do (makeTempPath (repo @ cs)))" for b
    by (rule assures_do [OF keeps_makeTempPath]) (use makeTempPath_temp not_temporary [OF assms] in blast)
  show ?thesis
    unfolding writeFileAtomic_prog_def
    by (intro assures_seq assures_ensureDirectory assures_bind_with [OF temp] assures_replace_file)
qed

lemma assures_text [assures_intro]:
  assumes "list_all plain_name cs" and "2 \<le> length cs"
  shows "assures (file_at k0) whatever b (writeTextAtomic_prog (repo @ cs) x mode)"
  unfolding writeTextAtomic_prog_def by (rule assures_weaken [OF assures_writeFileAtomic [OF assms]]) simp_all

lemma assures_store [assures_intro]:
  "assures (file_at k0) whatever b (ensureLayout_prog repo)"
  "assures (file_at k0) whatever b (wal_append_prog repo type payload)"
  "assures (file_at k0) whatever b (writeTmp_prog repo v m)"
  "assures (file_at k0) whatever b (renameTmpToManifest_prog repo v)"
  "assures (file_at k0) whatever b (marker_create_prog repo v)"
  "assures (file_at k0) whatever b (writeCheckpoint_prog repo)"
proof -
  show "assures (file_at k0) whatever b (ensureLayout_prog repo)"
    unfolding ensureLayout_prog_def by (intro assures_intro)
  show "assures (file_at k0) whatever b (wal_append_prog repo type payload)"
    unfolding wal_append_prog_def
    by (intro assures_intro keeps_get keeps_open_sys keeps_append keeps_fsyncFd UNIV_I)
  show "assures (file_at k0) whatever b (writeTmp_prog repo v m)"
    unfolding writeTmp_prog_def tmpManifestPath_def by (rule assures_text) simp_all
  have "walk (tmpManifestPath repo v) \<in> - {k0}" using not_tmp by auto
  then have "keeps (on_disk (file_at k0)) (sys x (rename_call (walk (tmpManifestPath repo v)) (walk (manifestPath repo v))))" for x
    using rename_kept [OF _ _ UNIV_I] by (auto intro: keeps_sys)
  then show "assures (file_at k0) whatever b (renameTmpToManifest_prog repo v)"
    unfolding renameTmpToManifest_prog_def Let_def by (intro assures_intro)
  show "assures (file_at k0) whatever b (marker_create_prog repo v)"
    unfolding marker_create_prog_def commitPath_def by (rule assures_text) simp_all
  show "assures (file_at k0) whatever b (writeCheckpoint_prog repo)"
    unfolding writeCheckpoint_prog_def checkpointPath_def
    by (intro assures_bind assures_keeps keeps_query assures_text) simp_all
qed

text \<open>After a put the object is there, whether this worker wrote it, another one did, or it was there before.\<close>

lemma assures_put:
  "assures (file_at k0) (\<lambda>_ e. k0 = object_place repo sha \<longrightarrow> e) b (putCompressed_prog T repo sha c n)"
proof -
  let ?G = "\<lambda>_ e. k0 = object_place repo sha \<longrightarrow> e"
  have found: "assures (file_at k0) ?G e (prog_do (io_query (\<lambda>w. readRaw T (disk w) repo sha rel)))" for e rel
    by (rule assures_do [OF keeps_query]) (auto simp: io_query_def readRaw_Inr file_at_def)
  have still: "assures (file_at k0) ?G e p" if "assures (file_at k0) whatever e p" and "k0 = object_place repo sha \<longrightarrow> e"
    for e and p :: "put_result prog"
    by (rule assures_weaken [OF assures_still [OF that(1)]]) (use that(2) in auto)
  have written: "assures (file_at k0) ?G e (writeFileAtomic_prog (repo @ object_names sha) c mode)" if sha: "isSha256Hex sha" for e mode
    by (rule assures_weaken [OF assures_writeFileAtomic]) (use object_names_plain(1) [OF sha] walk_object [OF sha] in \<open>auto simp: object_names_def\<close>)
  have put: "assures (file_at k0) ?G e (prog_seq (writeFileAtomic_prog ab c mode) (prog_return out))"
    if "objectPathForHash sha = Inr rel" "absoluteObjectPath repo rel = Inr ab" for e mode ab rel out
  proof -
    have "isSha256Hex sha" "ab = repo @ object_names sha"
      using that absoluteObjectPath_object [of sha repo] by (auto simp: objectPathForHash_join)
    then show ?thesis
      unfolding prog_seq_def by (auto intro!: assures_bind_with [OF written] simp: assures_iff)
  qed
  have old: "assures (file_at k0) ?G e (prog_bind (prog_do (io_query (\<lambda>w. readRaw T (disk w) repo sha rel))) f)"
    if "\<And>raw e. assures (file_at k0) whatever e (f raw)" for e rel and f :: "bytes \<Rightarrow> put_result prog"
    by (rule assures_bind_with [OF found]) (rule still [OF that])
  show ?thesis
    unfolding putCompressed_prog_def Let_def
    by (intro assures_seq assures_store assures_lift_bind assures_bind [OF assures_keeps [OF keeps_get]] assures_if put old)
      (assumption | intro assures_intro keeps_query)+
qed

lemma assures_session [assures_intro]:
  "assures (file_at k0) whatever b (session_append_prog (session_path repo sid) x)"
proof -
  have "keeps (on_disk (file_at k0)) (stream_open (session_path repo sid))"
    unfolding stream_open_def by (intro keeps_intro keeps_open UNIV_I)
  moreover have "keeps (on_disk (file_at k0)) (stream_write (session_path repo sid) x)"
    by (intro keeps_append_text keeps_append UNIV_I)
  ultimately show ?thesis unfolding session_append_prog_def by (intro assures_intro)
qed

lemma assures_records [assures_intro]:
  "assures (file_at k0) whatever b (appendChunk_prog repo sid r)"
  "assures (file_at k0) whatever b (markCommitted_prog repo sid v)"
  unfolding appendChunk_prog_def markCommitted_prog_def by (intro assures_intro keeps_query)+

lemma assures_handle_put:
  "assures (file_at k0) (\<lambda>_ e. isSha256Hex (shaHexFromArray (pk_sha p))
      \<and> (k0 = object_place repo (shaHexFromArray (pk_sha p)) \<longrightarrow> e)) b (handle_put_prog T repo p)"
proof -
  let ?G = "\<lambda>sha (_ :: unit) e. isSha256Hex sha \<and> (k0 = object_place repo sha \<longrightarrow> e)"
  have rest: "assures (file_at k0) (?G sha) e (prog_seq (appendChunk_prog repo sid r) (prog_do (sendText t h x)))"
    if "k0 = object_place repo sha \<longrightarrow> e" and "sha256Hex T raw = Inr sha" for sha raw e sid r t h x
  proof -
    have "assures (file_at k0) whatever e (prog_seq (appendChunk_prog repo sid r) (prog_do (sendText t h x)))"
      by (intro assures_intro keeps_sendText)
    then show ?thesis
      by (rule assures_weaken [OF assures_still]) (use that(1) sha256Hex_Inr [OF that(2)] in auto)
  qed
  show ?thesis
    unfolding handle_put_prog_def
    by (intro assures_lift_bind assures_if assures_Finished) (auto intro!: assures_bind_with [OF assures_put] rest)
qed

lemma assures_handlePacket [assures_intro]: "assures (file_at k0) whatever b (handlePacket_prog T repo p)"
proof -
  have "assures (file_at k0) whatever b (handle_put_prog T repo p)"
    by (rule assures_weaken [OF assures_handle_put]) simp_all
  moreover have "assures (file_at k0) whatever b (handle_commit_prog repo p)"
    unfolding handle_commit_prog_def by (intro assures_intro keeps_query keeps_sendText)
  ultimately show ?thesis
    unfolding handlePacket_prog_def handlePacket_def handle_query_def
    by (cases "pk_type p") (auto intro!: assures_intro keeps_intro)
qed

end

text \<open>Commit markers and manifests last, and so do objects.\<close>

lemma durable_lasts: "k \<in> durable repo V \<Longrightarrow> lasting_file k repo"
proof
  assume k: "k \<in> durable repo V"
  show "\<not> temp_of (repo @ cs) k" if "list_all plain_name cs" "2 \<le> length cs" for cs
    using temp_not_durable [OF that(1)] that(2) k by fastforce
  show "k \<noteq> walk (tmpManifestPath repo v)" for v
    using k not_durable_dir by (auto simp: walk_version_paths)
qed

interpretation marker: lasting_file "walk (commitPath repo v)" repo for repo v
  by (rule durable_lasts) (rule version_durable(2) [of v "{v}"], simp)

section \<open>The workers\<close>

fun worker_spares :: "(fs \<Rightarrow> bool) \<Rightarrow> bool \<Rightarrow> worker_state \<Rightarrow> bool" where
  "worker_spares D b (InPacket k stop rest sent p) \<longleftrightarrow> assures D whatever b p"
| "worker_spares D b _ \<longleftrightarrow> True"

definition server_spares :: "(fs \<Rightarrow> bool) \<Rightarrow> server \<Rightarrow> bool" where
  "server_spares D s \<longleftrightarrow> list_all (worker_spares D (D (disk (sv_world s)))) (sv_workers s)"

lemma worker_spares_mono: "worker_spares D b wk \<Longrightarrow> (b \<Longrightarrow> c) \<Longrightarrow> worker_spares D c wk"
  by (cases wk) (auto intro: assures_weaken)

lemma worker_step_spares:
  assumes packet: "\<And>b p. assures D whatever b (handlePacket_prog T repo p)"
    and run: "worker_step T repo wk w = (wk', e, w')" and "worker_spares D (D (disk w)) wk"
  shows "worker_spares D (D (disk w')) wk' \<and> (D (disk w) \<longrightarrow> D (disk w'))"
proof (cases "(T, repo, wk, w)" rule: worker_step.cases)
  case (2 T' repo' k stop rest sent w1)
  then show ?thesis
    using assms(2,3) packet by (auto intro!: assures_bind assures_keeps keeps_readPacket_disk split: if_splits)
next
  case (3 T' repo' k stop rest sent s w1)
  obtain p w2 where s: "s (on_socket rest sent w) = (p, w2)" by fastforce
  have "assures D whatever (D (disk w)) (Step s)" using 3 assms(3) by simp
  then have "(D (disk w) \<longrightarrow> D (disk w2)) \<and> assures D whatever (D (disk w2)) p"
    unfolding assures_iff using s by (metis disk_on_socket fst_conv snd_conv)
  then show ?thesis using 3 assms(2) s by auto
next
  case (5 T' repo' k stop rest sent e1 w1)
  have "D (disk w) \<longrightarrow> D (disk (snd (sendError 0 (what e1) (on_socket rest sent w))))"
    using keepsD [OF keeps_sendText(2) [of D], of "on_socket rest sent w"] by simp
  then show ?thesis using 5 assms(2,3) by (auto split: if_splits prod.splits sum.splits)
qed (use assms(2,3) in auto)

lemma server_step_spares:
  assumes "\<And>b p. assures D whatever b (handlePacket_prog T repo p)"
    and "server_step T repo s s'" and "server_spares D s"
  shows "server_spares D s' \<and> (D (disk (sv_world s)) \<longrightarrow> D (disk (sv_world s')))"
  using assms(2)
proof (cases rule: server_step.cases)
  case (work i wk e w')
  have "worker_spares D (D (disk (sv_world s))) (sv_workers s ! i)"
    using assms(3) work(3) by (simp add: server_spares_def list_all_length)
  note one = worker_step_spares [OF assms(1) work(5) this]
  then show ?thesis
    using work assms(3) by (auto simp: server_spares_def list_all_length nth_list_update intro: worker_spares_mono)
qed (use assms(3) in \<open>auto simp: server_spares_def list_all_length nth_list_update\<close>)

lemma server_runs_spares:
  assumes "\<And>b p. assures D whatever b (handlePacket_prog T repo p)"
    and "server_runs T repo s s'" and "server_spares D s"
  shows "server_spares D s' \<and> (D (disk (sv_world s)) \<longrightarrow> D (disk (sv_world s')))"
  using assms(2,3) by (induction rule: rtranclp_induct) (use server_step_spares [OF assms(1)] in blast)+

lemma between_packets_spares: "between_packets s \<Longrightarrow> server_spares D s"
proof -
  have "\<not> handles_packet wk \<Longrightarrow> worker_spares D b wk" for wk b by (cases wk) simp_all
  then show "between_packets s \<Longrightarrow> server_spares D s"
    by (auto simp: between_packets_def server_spares_def list_ex_iff list_all_iff)
qed

text \<open>A step of the server at whose end worker \<open>i\<close> still is in the handling of its packet.\<close>

definition works_on :: "third_party \<Rightarrow> path \<Rightarrow> nat \<Rightarrow> server \<Rightarrow> server \<Rightarrow> bool" where
  "works_on T repo i s s' \<longleftrightarrow> server_step T repo s s' \<and> handles_packet (sv_workers s' ! i)"

fun worker_gives :: "(fs \<Rightarrow> bool) \<Rightarrow> (unit \<Rightarrow> bool \<Rightarrow> bool) \<Rightarrow> bool \<Rightarrow> worker_state \<Rightarrow> bool" where
  "worker_gives D G b (InPacket k stop rest sent p) \<longleftrightarrow> assures D G b p"
| "worker_gives D G b _ \<longleftrightarrow> False"

definition server_gives :: "(fs \<Rightarrow> bool) \<Rightarrow> (unit \<Rightarrow> bool \<Rightarrow> bool) \<Rightarrow> nat \<Rightarrow> server \<Rightarrow> bool" where
  "server_gives D G i s \<longleftrightarrow> server_spares D s \<and> i < length (sv_workers s)
     \<and> worker_gives D G (D (disk (sv_world s))) (sv_workers s ! i)"

lemma worker_gives_mono:
  "worker_gives D G b wk \<Longrightarrow> (b \<Longrightarrow> c) \<Longrightarrow> (\<And>a. G a False \<Longrightarrow> G a True) \<Longrightarrow> worker_gives D G c wk"
  by (cases wk) (auto intro: assures_weaken)

lemma worker_step_gives:
  assumes "worker_step T repo wk w = (wk', e, w')" and "worker_gives D G (D (disk w)) wk" and "handles_packet wk'"
  shows "worker_gives D G (D (disk w')) wk'"
proof (cases "(T, repo, wk, w)" rule: worker_step.cases)
  case (3 T' repo' k stop rest sent s w1)
  obtain p w2 where s: "s (on_socket rest sent w) = (p, w2)" by fastforce
  have "assures D G (D (disk w)) (Step s)" using 3 assms(2) by simp
  then have "assures D G (D (disk w2)) p"
    unfolding assures_iff using s by (metis disk_on_socket fst_conv snd_conv)
  then show ?thesis using 3 assms(1) s by auto
qed (use assms in \<open>auto split: if_splits prod.splits sum.splits\<close>)

lemma works_on_gives:
  assumes "\<And>b p. assures D whatever b (handlePacket_prog T repo p)" and mono: "\<And>a. G a False \<Longrightarrow> G a True"
    and "works_on T repo i s s'" and s: "server_gives D G i s"
  shows "server_gives D G i s'"
proof -
  have step: "server_step T repo s s'" and busy: "handles_packet (sv_workers s' ! i)"
    using assms(3) by (simp_all add: works_on_def)
  have spares: "server_spares D s' \<and> (D (disk (sv_world s)) \<longrightarrow> D (disk (sv_world s')))"
    using server_step_spares [OF assms(1) step] s by (simp add: server_gives_def)
  have i: "i < length (sv_workers s)" "worker_gives D G (D (disk (sv_world s))) (sv_workers s ! i)"
    using s by (simp_all add: server_gives_def)
  from step have "i < length (sv_workers s') \<and> worker_gives D G (D (disk (sv_world s'))) (sv_workers s' ! i)"
  proof (cases rule: server_step.cases)
    case (take conn conns j)
    then have "j \<noteq> i" using i(2) by auto
    then show ?thesis using i take by simp
  next
    case (work j wk e w')
    show ?thesis
    proof (cases "j = i")
      case True
      then show ?thesis using worker_step_gives [OF work(5)] i busy work by simp
    next
      case False
      then show ?thesis using worker_gives_mono [OF i(2) _ mono] spares i(1) work by simp
    qed
  qed (use i in simp)
  with spares show ?thesis by (simp add: server_gives_def)
qed

lemma works_on_until:
  assumes "\<And>b p. assures D whatever b (handlePacket_prog T repo p)" and "\<And>a. G a False \<Longrightarrow> G a True"
    and "(works_on T repo i)\<^sup>*\<^sup>* s s'" and "server_gives D G i s"
    and "sv_workers s' ! i = InPacket k stop rest sent (Finished (Inr ()))"
  shows "server_spares D s' \<and> G () (D (disk (sv_world s')))"
proof -
  have "server_gives D G i s'"
    using assms(3,4) by (induction rule: rtranclp_induct) (use works_on_gives [where D = D and G = G, OF assms(1,2)] in blast)+
  then show ?thesis using assms(5) by (simp add: server_gives_def assures_iff)
qed

section \<open>A chunk that is there already\<close>

lemma foreach_idle: "(\<And>x. x \<in> set xs \<Longrightarrow> f x w = (Inr (), w)) \<Longrightarrow> io_foreach f xs w = (Inr (), w)"
  by (induction xs) (simp_all add: io_return_def io_seq_def io_bind_def)

lemma ensureDirectory_there:
  assumes "p \<noteq> []" and "list_all (\<lambda>i. node_at (disk w) (take i (walk p)) = Some Directory) [1 ..< Suc (length (walk p))]"
  shows "ensureDirectory p w = (Inr (), w)"
  unfolding ensureDirectory_def Let_def using assms
  by (auto intro!: foreach_idle simp: io_bind_def io_get_def io_return_def list_all_iff simp del: upt_Suc)

text \<open>A chunk that is stored and recorded is acknowledged again, and nothing is written.\<close>

lemma put_again:
  assumes put: "parsePutPayload (pk_payload p) = Inr put"
    and raw: "decompress T (pp_compressed put) (unat (pp_raw_size put)) = Inr raw" "sha256Hex T raw = Inr sha"
      "sha = shaHexFromArray (pk_sha p)"
    and layout: "ensureLayout repo w = (Inr (), w)"
    and old: "readRaw T (disk w) repo sha (join_path (object_names sha)) = Inr x" "word_of_nat (length x) = pp_raw_size put"
    and ix: "index_file repo (pp_session_id put) ls (disk w)"
      "foldl (\<lambda>m r. m(rc_global_index r \<mapsto> rc_sha256 r)) Map.empty (chunks_of ls) (pk_index p) = Some sha"
    and gentle: "list_all gentle (script w)"
  shows "\<exists>w'. handle_put T repo p w = (Inr (), w') \<and> disk w' = disk w"
proof -
  have sha: "isSha256Hex sha" and there: "\<exists>c m. node_at (disk w) (object_place repo sha) = Some (File c m)"
    using old(1) by (auto simp: readRaw_Inr)
  have paths: "objectPathForHash sha = Inr (join_path (object_names sha))"
      "absoluteObjectPath repo (join_path (object_names sha)) = Inr (repo @ object_names sha)"
    using sha objectPathForHash_join absoluteObjectPath_object [OF sha, of repo] by simp_all
  obtain stored where stored: "putCompressed T repo sha (pp_compressed put) (pp_raw_size put) w = (Inr stored, w)"
    using there old
    by (auto simp: paths putCompressed_def requireSha256Hex_def io_lift_steps io_seq_def io_bind_def io_get_def io_query_def io_return_def
        layout sha Let_def exists_path_def walk_object fileSize_def)
  obtain m where "received (disk w) repo (pp_session_id put) = Inr m" "map_of m (pk_index p) = Some sha"
    using received_index [OF ix(1)] ix(2) by auto
  then have ap: "appendChunk repo (pp_session_id put) (record_of p put sha stored) w = (Inr (), w)"
    by (simp add: appendChunk_def io_bind_def io_query_def io_return_def record_of_def)
  obtain w' where sent: "sendText PutChunkAck (pk_session p) (''ok'' @ [nl]) w = (Inr (), w')"
    using sendText_sent [OF gentle, of "''ok'' @ [nl]" PutChunkAck "pk_session p"] by (auto simp: kMaxPayloadSize_def)
  have "handle_put T repo p w = (Inr (), w')"
    using put raw stored ap sent
    by (simp add: handle_put_def io_lift_steps io_bind_def io_seq_def)
  then show ?thesis using sendText_disk [OF sent] by blast
qed

section \<open>An example\<close>

lemma packet_works:
  assumes "on_socket i x w = w"
  shows "run_prog p w = (r, w') \<Longrightarrow>
    (works_on T repo 0)\<^sup>*\<^sup>* (one_worker (InPacket k stop i x p) w q)
      (one_worker (InPacket k stop (sock_in w') (sock_out w') (Finished r)) w' q)"
  using assms
proof (induction p arbitrary: i x w)
  case (Finished r1)
  then have "w' = w" "r1 = r" "i = sock_in w" "x = sock_out w"
    using sockets_on_socket [of i x w] by (auto simp: run_prog.simps)
  then show ?case by simp
next
  case (Step s)
  obtain p1 w1 where s: "s w = (p1, w1)" by fastforce
  have rest: "(works_on T repo 0)\<^sup>*\<^sup>* (one_worker (InPacket k stop (sock_in w1) (sock_out w1) p1) w1 q)
      (one_worker (InPacket k stop (sock_in w') (sock_out w') (Finished r)) w' q)"
    using Step.prems s by (intro Step.IH [of "(p1, w1)"]) (auto simp: run_prog.simps intro: range_eqI [of _ s w])
  have "server_step T repo (one_worker (InPacket k stop i x (Step s)) w q)
      (one_worker (InPacket k stop (sock_in w1) (sock_out w1) p1) w1 q)"
    using Step.prems(2) s by (intro one_worker_goes) simp_all
  then have "works_on T repo 0 (one_worker (InPacket k stop i x (Step s)) w q)
      (one_worker (InPacket k stop (sock_in w1) (sock_out w1) p1) w1 q)"
    by (simp add: works_on_def one_worker_def)
  then show ?case using rest by (rule converse_rtranclp_into_rtranclp)
qed

lemma packet_read:
  assumes "readPacket (on_socket i x w) = (Inr p, w1)" and "\<not> stop k"
  shows "server_runs T repo (one_worker (AtLoop k stop i x) w q)
    (one_worker (InPacket k stop (sock_in w1) (sock_out w1) (handlePacket_prog T repo p)) w1 q)"
proof -
  let ?p = "prog_bind (prog_do readPacket) (handlePacket_prog T repo)"
  have "server_step T repo (one_worker (AtLoop k stop i x) w q) (one_worker (InPacket k stop i x ?p) w q)"
    using assms(2) by (intro one_worker_goes) simp_all
  moreover have "server_step T repo (one_worker (InPacket k stop i x ?p) w q)
      (one_worker (InPacket k stop (sock_in w1) (sock_out w1) (handlePacket_prog T repo p)) w1 q)"
    using assms(1) by (intro one_worker_goes) (simp_all add: prog_do_def prog_bind.simps)
  ultimately show ?thesis by (meson converse_rtranclp_into_rtranclp r_into_rtranclp)
qed

definition stored_sha :: string where
  "stored_sha = sha_hex toy [10, 10, 7]"

definition stored_record :: received_chunk where
  "stored_record = sample_record\<lparr>rc_sha256 := stored_sha\<rparr>"

definition put_disk :: fs where
  "put_disk = map (\<lambda>k. (k, Directory)) [[''r''], [''r'', ''objects''], [''r'', ''manifests''], [''r'', ''metadata''],
       [''r'', ''metadata'', ''sessions''], [''r'', ''tmp'']]
     @ [([''r'', ''metadata'', ''sessions'', session_file ''s''], File (bytes_of_string (index_text [ChunkLine stored_record])) 0x1a4),
        ([''r''] @ object_names stored_sha, File [10, 10, 7] 0x1a4)]"

definition sample_put :: packet where
  "sample_put = \<lparr>pk_type = PutChunk, pk_session = 1, pk_index = 0, pk_sha = sha256 toy [10, 10, 7],
     pk_payload = makePutPayload ''s'' sample_chunk\<rparr>"

lemma stored_sha: "isSha256Hex stored_sha" "sha256Hex toy [10, 10, 7] = Inr stored_sha"
  "stored_sha = shaHexFromArray (pk_sha sample_put)"
  unfolding stored_sha_def sample_put_def shaHexFromArray_def
  by (simp_all only: isSha256Hex_sha_hex sha256Hex_ok toy_ok packet.simps) (simp only: sha_hex_def)

lemma sample_put_packet: "wf_packet sample_put" "length (pk_payload sample_put) \<le> kMaxPayloadSize"
proof -
  show "wf_packet sample_put" using toy_ok(2) by (simp add: wf_packet_def sample_put_def sha_ok_def)
  show "length (pk_payload sample_put) \<le> kMaxPayloadSize"
    by (simp add: sample_put_def makePutPayload_def put_header_def sample_chunk_def kMaxPayloadSize_def bytes_of_string_def
        hexEncodeString_bytes dec.simps)
qed

lemma put_disk_nodes:
  "node_at put_disk (object_place [''r''] stored_sha) = Some (File [10, 10, 7] 0x1a4)"
  "index_file [''r''] ''s'' [ChunkLine stored_record] put_disk"
  "disk w = put_disk \<Longrightarrow> ensureLayout [''r''] w = (Inr (), w)"
proof -
  show "node_at put_disk (object_place [''r''] stored_sha) = Some (File [10, 10, 7] 0x1a4)"
    by (simp add: put_disk_def node_at_def object_place_def object_names_def walk_r)
  have "token stored_sha" using stored_sha(1) by (rule isSha256Hex_token)
  then have wf: "wf_received stored_record"
    using sample_index_ok(2) by (simp add: wf_received_def stored_record_def)
  have "walk (session_path [''r''] ''s'') = [''r'', ''metadata'', ''sessions'', session_file ''s'']"
    unfolding walk_session walk_r by simp
  then show "index_file [''r''] ''s'' [ChunkLine stored_record] put_disk"
    using wf by (simp add: index_file_def put_disk_def node_at_def object_names_def)
  have dirs: "ensureDirectory [''r'', c] w = (Inr (), w)" if "disk w = put_disk" "c \<in> {''objects'', ''manifests'', ''tmp''}" for c
    using that by (intro ensureDirectory_there)
      (auto simp: walk_def walk_step_def dot_def dotdot_def put_disk_def node_at_def)
  moreover have "ensureDirectory [''r'', ''metadata'', ''sessions''] w = (Inr (), w)" if "disk w = put_disk"
    using that by (intro ensureDirectory_there)
      (auto simp: walk_def walk_step_def dot_def dotdot_def put_disk_def node_at_def)
  ultimately show "disk w = put_disk \<Longrightarrow> ensureLayout [''r''] w = (Inr (), w)"
    by (simp add: ensureLayout_def io_seq_def io_bind_def)
qed

lemma put_disk_whole: "objects_whole toy [''r''] put_disk"
proof -
  have "sha = stored_sha \<and> c = [10, 10, 7]" if "node_at put_disk (object_place [''r''] sha) = Some (File c m)" for sha c m
    using that by (auto simp: put_disk_def node_at_def object_place_def object_names_def walk_r split: if_splits)
  then show ?thesis
    unfolding objects_whole_def whole_def using sample_decompress(1) stored_sha(2) by blast
qed

lemma sample_put_again:
  assumes "disk w = put_disk" and "list_all gentle (script w)"
  shows "\<exists>w'. handle_put toy [''r''] sample_put w = (Inr (), w') \<and> disk w' = put_disk"
proof -
  obtain put where put: "parsePutPayload (pk_payload sample_put) = Inr put" "pp_session_id put = ''s''"
      "pp_compressed put = [10, 10, 7]" "pp_raw_size put = 3"
    using parse_put [OF sample_chunk_sendable] by (simp add: sample_chunk_def sample_put_def)
  have raw: "decompress toy (pp_compressed put) (unat (pp_raw_size put)) = Inr [10, 10, 7]"
    using sample_decompress(2) by (simp add: put)
  have old: "readRaw toy (disk w) [''r''] stored_sha (join_path (object_names stored_sha)) = Inr [10, 10, 7]"
    using put_disk_nodes(1) sample_decompress(1) stored_sha(1,2) by (simp add: readRaw_Inr assms(1))
  have known: "foldl (\<lambda>m r. m(rc_global_index r \<mapsto> rc_sha256 r)) Map.empty (chunks_of [ChunkLine stored_record])
      (pk_index sample_put) = Some stored_sha"
    by (simp add: stored_record_def sample_record_def sample_put_def)
  show ?thesis
    using put_again [OF put(1) raw stored_sha(2,3) put_disk_nodes(3) [OF assms(1)] old _ _ known assms(2)]
      put_disk_nodes(2) by (simp add: put assms(1))
qed

section \<open>Acknowledged chunks\<close>

lemma put_assures:
  assumes "lasting_file k repo" and "pk_type p = PutChunk"
  shows "assures (file_at k) (\<lambda>_ e. isSha256Hex (shaHexFromArray (pk_sha p))
      \<and> (k = object_place repo (shaHexFromArray (pk_sha p)) \<longrightarrow> e)) b (handlePacket_prog T repo p)"
  using lasting_file.assures_handle_put [OF assms(1)] assms(2) by (simp add: handlePacket_prog_def)

lemma acknowledged_file:
  assumes "lasting_file k repo" and "server_spares (file_at k) s" and "i < length (sv_workers s)"
    and "sv_workers s ! i = InPacket n stop rest sent (handlePacket_prog T repo p)" and "pk_type p = PutChunk"
    and "(works_on T repo i)\<^sup>*\<^sup>* s s'" and "sv_workers s' ! i = InPacket n' stop' rest' sent' (Finished (Inr ()))"
  shows "server_spares (file_at k) s' \<and> isSha256Hex (shaHexFromArray (pk_sha p))
    \<and> (k = object_place repo (shaHexFromArray (pk_sha p)) \<longrightarrow> file_at k (disk (sv_world s')))"
proof -
  have "server_gives (file_at k) (\<lambda>_ e. isSha256Hex (shaHexFromArray (pk_sha p))
      \<and> (k = object_place repo (shaHexFromArray (pk_sha p)) \<longrightarrow> e)) i s"
    using assms(2-5) put_assures [OF assms(1)] by (simp add: server_gives_def)
  from works_on_until [OF lasting_file.assures_handlePacket [OF assms(1)] _ assms(6) this assms(7)] show ?thesis by blast
qed

text \<open>C7: what the server acknowledges is stored, and stays. Let the workers' calls of the system come in any
  order, with any failures, from a moment at which no worker is in the handling of a packet and every object
  of the store is whole. When a worker has handled a PUT_CHUNK without an exception, whoever wrote the object
  (this worker, another one that puts the same chunk at the same time, or an earlier upload), then from that
  moment on, whatever the workers do next, the store has the object, and it is a whole compressed chunk of
  the announced hash.\<close>

theorem acknowledged_stays:
  assumes "server_runs T repo s0 s1" and "between_packets s0" and "objects_whole T repo (disk (sv_world s0))"
    and "i < length (sv_workers s1)" and "sv_workers s1 ! i = InPacket n stop rest sent (handlePacket_prog T repo p)"
    and "pk_type p = PutChunk"
    and "(works_on T repo i)\<^sup>*\<^sup>* s1 s2" and "sv_workers s2 ! i = InPacket n' stop' rest' sent' (Finished (Inr ()))"
    and "server_runs T repo s2 s3"
  shows "\<exists>c m. node_at (disk (sv_world s3)) (object_place repo (shaHexFromArray (pk_sha p))) = Some (File c m)
    \<and> whole T (shaHexFromArray (pk_sha p)) c"
proof -
  let ?sha = "shaHexFromArray (pk_sha p)"
  let ?k = "object_place repo ?sha"
  have spares: "server_spares (file_at k) s1" if "lasting_file k repo" for k
    using server_runs_spares [OF lasting_file.assures_handlePacket [OF that] assms(1) between_packets_spares [OF assms(2)]] by blast
  have hex: "isSha256Hex ?sha"
    using acknowledged_file [OF marker.lasting_file_axioms spares [OF marker.lasting_file_axioms] assms(4-8)] by blast
  have k: "lasting_file ?k repo" by (rule durable_lasts [OF object_durable [OF hex]])
  have there: "server_spares (file_at ?k) s2" "file_at ?k (disk (sv_world s2))"
    using acknowledged_file [OF k spares [OF k] assms(4-8)] by simp_all
  have "file_at ?k (disk (sv_world s3))"
    using server_runs_spares [OF lasting_file.assures_handlePacket [OF k] assms(9) there(1)] there(2) by blast
  moreover have "server_runs T repo s1 s2"
    using assms(7) by (induction rule: rtranclp_induct) (auto simp: works_on_def)
  then have "server_runs T repo s0 s3" using assms(1,9) by (meson rtranclp_trans)
  then have "objects_whole T repo (disk (sv_world s3))" by (rule objects_stay_whole [OF _ assms(2,3)])
  ultimately show ?thesis using hex unfolding file_at_def objects_whole_def by blast
qed

theorem acknowledged_stays_witness:
  "\<exists>c m. node_at put_disk (object_place [''r''] (shaHexFromArray (pk_sha sample_put))) = Some (File c m)
    \<and> whole toy (shaHexFromArray (pk_sha sample_put)) c"
proof -
  obtain e where e: "encode sample_put = Inr e" using sample_put_packet(2) by (simp add: encode_eq)
  let ?w = "quiet_world put_disk" and ?go = "\<lambda>_ :: nat. False"
  obtain w1 where w1: "readPacket (on_socket e [] ?w) = (Inr sample_put, w1)" "disk w1 = put_disk" "list_all gentle (script w1)"
    using readPacket_returns [OF sample_put_packet(1) e, of "on_socket e [] ?w" "[]"] by (auto simp: on_socket_def quiet_world_def)
  obtain w2 where w2: "handle_put toy [''r''] sample_put w1 = (Inr (), w2)" "disk w2 = put_disk"
    using sample_put_again [OF w1(2,3)] by blast
  let ?s0 = "one_worker (AtLoop 0 ?go e []) ?w []"
    and ?s1 = "one_worker (InPacket 0 ?go (sock_in w1) (sock_out w1) (handlePacket_prog toy [''r''] sample_put)) w1 []"
    and ?s2 = "one_worker (InPacket 0 ?go (sock_in w2) (sock_out w2) (Finished (Inr ()))) w2 []"
  have put: "pk_type sample_put = PutChunk" by (simp add: sample_put_def)
  have run: "run_prog (handlePacket_prog toy [''r''] sample_put) w1 = (Inr (), w2)"
    using w2(1) by (simp add: run_simps handlePacket_def put)
  have read: "server_runs toy [''r''] ?s0 ?s1" by (rule packet_read [OF w1(1)]) simp
  have "between_packets ?s0" "objects_whole toy [''r''] (disk (sv_world ?s0))"
    using put_disk_whole by (simp_all add: between_packets_def one_worker_def)
  from acknowledged_stays [OF read this _ _ put packet_works [OF on_own_socket run] _ rtranclp.rtrancl_refl] w2(2)
  show ?thesis by (simp add: one_worker_def)
qed

text \<open>The handler returns, and what it promises holds of its chunk.\<close>

theorem put_acknowledged_witness:
  "\<exists>w'. handle_put toy [''r''] sample_put (quiet_world put_disk) = (Inr (), w')
    \<and> (\<exists>x. readRaw toy (disk w') [''r''] stored_sha (join_path (object_names stored_sha)) = Inr x)
    \<and> (\<exists>ls'. index_file [''r''] ''s'' ls' (disk w') \<and> set [stored_record] \<subseteq> set (chunks_of ls')
        \<and> (\<exists>r \<in> set (chunks_of ls'). rc_global_index r = 0 \<and> rc_sha256 r = stored_sha))"
proof -
  obtain put where put: "parsePutPayload (pk_payload sample_put) = Inr put" "pp_session_id put = ''s''"
      "pp_compressed put = [10, 10, 7]" "pp_raw_size put = 3"
    using parse_put [OF sample_chunk_sendable] by (simp add: sample_chunk_def sample_put_def)
  have size: "declares_size toy (pp_compressed put) (unat (pp_raw_size put))"
    by (simp add: declares_size_def toy_def put)
  obtain w' where run: "handle_put toy [''r''] sample_put (quiet_world put_disk) = (Inr (), w')"
    using sample_put_again [of "quiet_world put_disk"] by (auto simp: quiet_world_def)
  have "index_file [''r''] (pp_session_id put) [ChunkLine stored_record] (disk (quiet_world put_disk))"
    using put_disk_nodes(2) by (simp add: put)
  from put_acknowledged [OF put(1) this size, unfolded run]
  have "(\<exists>x. readRaw toy (disk w') [''r''] stored_sha (join_path (object_names stored_sha)) = Inr x)
    \<and> (\<exists>ls'. index_file [''r''] ''s'' ls' (disk w') \<and> set [stored_record] \<subseteq> set (chunks_of ls')
        \<and> (\<exists>r \<in> set (chunks_of ls'). rc_global_index r = pk_index sample_put \<and> rc_sha256 r = stored_sha))"
    unfolding prod.case sum.case Let_def put(2) stored_sha(3) [symmetric] chunks_of.simps by simp
  then show ?thesis using run by (simp add: sample_put_def)
qed

end
