(* ===== verification/DPC_Figures.thy ===== *)
theory DPC_Figures
  imports DPC_Bench Complex_Main
begin

text \<open>
  How far the printed figures are from the exact ones: the error of one operation on \<open>double\<close>
  (\<open>to_double_near\<close>), that counts are exact (\<open>to_double_exact\<close>), and the ratios of
  src/src/cli/backupctl_main.cpp and src/src/bench/backup_bench_main.cpp.
\<close>

section \<open>Rounding\<close>

section \<open>How far off a figure can be\<close>

definition dbl_value :: "double \<Rightarrow> real" where
  "dbl_value x = real (fst x) / real (snd x)"

lemma round_div_near:
  assumes "0 < q"
  shows "\<bar>real (round_div p q) - real p / real q\<bar> \<le> 1 / 2"
proof -
  let ?k = "p div q" and ?r = "p mod q"
  have "real p = real ?k * real q + real ?r" by (metis div_mult_mod_eq of_nat_add of_nat_mult)
  then have p: "real p / real q = real ?k + real ?r / real q" using assms by (simp add: field_simps)
  have r: "real ?r < real q" using assms by simp
  show ?thesis
  proof (cases "2 * ?r < q \<or> 2 * ?r = q \<and> even ?k")
    case True
    then have "2 * real ?r \<le> real q" by (metis (full_types) less_imp_le of_nat_le_iff of_nat_mult of_nat_numeral order_refl)
    then show ?thesis using True assms unfolding p round_div_def Let_def by (simp add: field_simps)
  next
    case False
    then have "q \<le> 2 * ?r" by auto
    then have "real q \<le> 2 * real ?r" by (metis of_nat_le_iff of_nat_mult of_nat_numeral)
    then show ?thesis using False r assms unfolding p round_div_def Let_def by (simp add: field_simps)
  qed
qed

lemma scale_value:
  assumes "scale p q s = (a, b)" and "0 < q"
  shows "0 < b" and "real a / real b = real p / real q * 2 powi s"
  using assms by (auto simp: scale_def power_int_def field_simps)

lemma bit_length_div:
  assumes "0 < p" and "0 < q"
  defines "e \<equiv> int (bit_length p) - int (bit_length q)"
  shows "2 powi (e - 1) < real p / real q" and "real p / real q < 2 powi (e + 1)"
proof -
  let ?l = "bit_length p" and ?m = "bit_length q"
  have p: "2 ^ (?l - 1) \<le> real p" "real p < 2 ^ ?l" "0 < ?l"
    using bit_length_bounds [OF assms(1)] by (simp_all add: numeral_power_le_of_nat_cancel_iff of_nat_less_numeral_power_cancel_iff)
  have q: "2 ^ (?m - 1) \<le> real q" "real q < 2 ^ ?m" "0 < ?m"
    using bit_length_bounds [OF assms(2)] by (simp_all add: numeral_power_le_of_nat_cancel_iff of_nat_less_numeral_power_cancel_iff)
  have ep: "2 powi (e - 1) = 2 ^ (?l - 1) / (2 ^ ?m :: real)" "2 powi (e + 1) = 2 ^ ?l / (2 ^ (?m - 1) :: real)"
    using p(3) q(3) by (simp_all add: e_def power_int_diff power_int_add power_diff)
  show "2 powi (e - 1) < real p / real q"
    unfolding ep using p(1) q(2) assms(2) by (intro frac_less2) simp_all
  show "real p / real q < 2 powi (e + 1)"
    unfolding ep using p(2) q(1) by (intro frac_less) simp_all
qed

lemma mantissa_scale_bounds:
  assumes "0 < p" and "0 < q"
  defines "x \<equiv> real p / real q * 2 powi mantissa_scale p q"
  shows "2 ^ 52 \<le> x" and "x < 2 ^ 53"
proof -
  define e where "e = int (bit_length p) - int (bit_length q)"
  obtain a b where ab: "scale p q (53 - e) = (a, b)" by fastforce
  let ?y = "real p / real q * 2 powi (53 - e)"
  have "2 powi (e - 1) * 2 powi (53 - e) < ?y" "?y < 2 powi (e + 1) * 2 powi (53 - e)"
    using bit_length_div [OF assms(1,2)] by (auto intro!: mult_strict_right_mono simp only: e_def zero_less_power_int zero_less_numeral)
  moreover have "2 powi (e - 1) * 2 powi (53 - e) = (2 :: real) powi 52" "2 powi (e + 1) * 2 powi (53 - e) = (2 :: real) powi 54"
    by (simp_all flip: power_int_add)
  ultimately have y: "2 ^ 52 < ?y" "?y < 2 ^ 54" by simp_all
  have b: "0 < b" and v: "real a / real b = ?y" using scale_value [OF ab assms(2)] by simp_all
  have "2 ^ 53 * b \<le> a \<longleftrightarrow> (2 :: real) ^ 53 * real b \<le> real a"
    by (metis of_nat_le_iff of_nat_mult of_nat_numeral of_nat_power)
  then have big: "2 ^ 53 * b \<le> a \<longleftrightarrow> 2 ^ 53 \<le> ?y"
    using b unfolding v [symmetric] by (subst pos_le_divide_eq) simp_all
  have half: "real p / real q * 2 powi (53 - e - 1) = ?y / 2" by (simp add: power_int_diff)
  have s: "mantissa_scale p q = (if 2 ^ 53 * b \<le> a then 53 - e - 1 else 53 - e)"
    by (simp add: mantissa_scale_def ab flip: e_def)
  define y where "y = ?y"
  have "x = (if 2 ^ 53 \<le> y then y / 2 else y)" unfolding x_def s y_def using big half by (cases "2 ^ 53 * b \<le> a") simp_all
  moreover have "2 ^ 52 < y" "y < 2 ^ 54" using y by (simp_all add: y_def)
  ultimately show "2 ^ 52 \<le> x" "x < 2 ^ 53" by (simp_all split: if_splits)
qed

lemma unscale:
  fixes m v t u c :: real
  assumes "t * u = 1" and "0 \<le> u" and "\<bar>m - v * t\<bar> \<le> v * t / c"
  shows "\<bar>m * u - v\<bar> \<le> v / c"
proof -
  have v: "v = v * t * u" using assms(1) by (simp add: mult.assoc)
  have "m * u - v = (m - v * t) * u" using v by (simp add: left_diff_distrib)
  then have "\<bar>m * u - v\<bar> = \<bar>m - v * t\<bar> * u" using assms(2) by (simp add: abs_mult)
  also have "\<dots> \<le> v * t / c * u" by (rule mult_right_mono [OF assms(3,2)])
  also have "\<dots> = v / c" using v by simp
  finally show ?thesis .
qed

text \<open>The error of one operation: half a unit in the last of 53 bits.\<close>

lemma to_double_near:
  assumes "0 < q"
  shows "\<bar>dbl_value (to_double p q) - real p / real q\<bar> \<le> real p / real q / 2 ^ 53"
proof (cases "p = 0")
  case False
  then have p: "0 < p" by simp
  let ?s = "mantissa_scale p q" and ?v = "real p / real q"
  obtain a b where ab: "scale p q ?s = (a, b)" by fastforce
  have b: "0 < b" and x: "real a / real b = ?v * 2 powi ?s" using scale_value [OF ab assms] by simp_all
  let ?m = "real (round_div a b)"
  obtain c d where cd: "scale (round_div a b) 1 (- ?s) = (c, d)" by fastforce
  have val: "dbl_value (to_double p q) = ?m * 2 powi (- ?s)"
    using scale_value(2) [OF cd] False by (simp add: to_double_def ab cd dbl_value_def del: One_nat_def)
  have "\<bar>?m - ?v * 2 powi ?s\<bar> \<le> 1 / 2" using round_div_near [OF b, of a] by (simp add: x)
  also have "\<dots> = 2 ^ 52 / 2 ^ 53" by simp
  also have "\<dots> \<le> ?v * 2 powi ?s / 2 ^ 53"
    by (intro divide_right_mono mantissa_scale_bounds(1) [OF p assms]) simp
  finally have near: "\<bar>?m - ?v * 2 powi ?s\<bar> \<le> ?v * 2 powi ?s / 2 ^ 53" .
  have "2 powi ?s * 2 powi (- ?s) = (1 :: real)" by (simp add: power_int_minus)
  moreover have "0 \<le> (2 :: real) powi (- ?s)" by simp
  ultimately show ?thesis unfolding val using near by (rule unscale)
qed (simp add: to_double_def dbl_value_def)

text \<open>A number below \<open>2 ^ 53\<close> is a \<open>double\<close>.\<close>

lemma to_double_exact:
  assumes "n < 2 ^ 53"
  shows "dbl_value (to_double n 1) = real n" and "0 < snd (to_double n 1)"
proof -
  have "dbl_value (to_double n 1) = real n \<and> 0 < snd (to_double n 1)"
  proof (cases "n = 0")
    case False
    let ?s = "mantissa_scale n 1"
    have "2 ^ 52 \<le> real n * 2 powi ?s" using mantissa_scale_bounds(1) [of n 1] False by simp
    have "0 \<le> ?s"
    proof (rule ccontr)
      assume "\<not> 0 \<le> ?s"
      then have "(2 :: real) powi ?s \<le> 2 powi (- 1)" by (intro power_int_increasing) simp_all
      then have "real n * 2 powi ?s \<le> real n * 2 powi (- 1)" by (intro mult_left_mono) simp_all
      also have "\<dots> < 2 ^ 52" using assms by (simp add: power_int_minus)
      finally show False using \<open>2 ^ 52 \<le> real n * 2 powi ?s\<close> by simp
    qed
    then have "scale n 1 ?s = (n * 2 ^ nat ?s, 1)" by (simp add: scale_def)
    then have "to_double n 1 = (n * 2 ^ nat (- (- ?s)) * 2 ^ nat (- ?s), 2 ^ nat ?s)"
      using False \<open>0 \<le> ?s\<close> round_div_exact [of 1] by (simp add: to_double_def scale_def Let_def)
    then show ?thesis using \<open>0 \<le> ?s\<close> by (simp add: dbl_value_def)
  qed (simp add: to_double_def dbl_value_def)
  then show "dbl_value (to_double n 1) = real n" "0 < snd (to_double n 1)" by simp_all
qed

text \<open>
  A printed ratio of two counts is off by half a unit of its last digit, and by what one division of
  \<open>double\<close> loses.
\<close>

lemma ratio_printed:
  assumes "unat a < 2 ^ 53" and "unat b < 2 ^ 53" and "b \<noteq> 0"
  shows "\<exists>k. fixed3 (dbl_div (dbl_of_u64 a) (dbl_of_u64 b)) = thousandths_text k
    \<and> \<bar>real k / 1000 - real (unat a) / real (unat b)\<bar> \<le> 1 / 2000 + real (unat a) / real (unat b) / 2 ^ 53"
proof -
  let ?x = "dbl_of_u64 a" and ?y = "dbl_of_u64 b" and ?r = "real (unat a) / real (unat b)"
  note x = to_double_exact [OF assms(1), folded dbl_of_u64_def] and y = to_double_exact [OF assms(2), folded dbl_of_u64_def]
  have "0 < unat b" using assms(3) by (simp add: unat_gt_0)
  then have "0 < dbl_value ?y" unfolding y(1) by (simp only: of_nat_0_less_iff)
  then have fy: "0 < fst ?y" by (cases "fst ?y") (simp_all add: dbl_value_def)
  let ?d = "to_double (fst ?x * snd ?y) (snd ?x * fst ?y)"
  have r: "real (fst ?x * snd ?y) / real (snd ?x * fst ?y) = ?r"
    using x y fy by (simp add: dbl_value_def field_simps)
  have near: "\<bar>dbl_value ?d - ?r\<bar> \<le> ?r / 2 ^ 53"
    using to_double_near [of "snd ?x * fst ?y" "fst ?x * snd ?y"] x(2) fy unfolding r by simp
  have pos: "0 < snd ?d" by (simp add: to_double_def scale_def Let_def)
  let ?k = "round_div (fst ?d * 1000) (snd ?d)"
  have "\<bar>real ?k - real (fst ?d * 1000) / real (snd ?d)\<bar> \<le> 1 / 2" by (rule round_div_near [OF pos])
  moreover have "real (fst ?d * 1000) / real (snd ?d) = 1000 * dbl_value ?d" by (simp add: dbl_value_def)
  ultimately have "\<bar>real ?k / 1000 - dbl_value ?d\<bar> \<le> 1 / 2000" by linarith
  with near have "\<bar>real ?k / 1000 - ?r\<bar> \<le> 1 / 2000 + ?r / 2 ^ 53" by linarith
  then show ?thesis unfolding dbl_div_def fixed3_def by blast
qed

text \<open>\<open>backupctl stats\<close>: what stands behind the ratio of deduplication.\<close>

lemma dedup_ratio_printed:
  assumes "rs_total_chunks s \<noteq> 0" and "rs_unique_chunks s \<noteq> 0"
    and "unat (rs_total_chunks s) < 2 ^ 53" and "unat (rs_unique_chunks s) < 2 ^ 53"
  defines "r \<equiv> real (unat (rs_total_chunks s)) / real (unat (rs_unique_chunks s))"
  shows "\<exists>k. fixed3 (dedup_ratio s) = thousandths_text k \<and> \<bar>real k / 1000 - r\<bar> \<le> 1 / 2000 + r / 2 ^ 53"
  unfolding r_def using ratio_printed [OF assms(3,4,2)] assms(1,2) by (simp add: dedup_ratio_def)

lemma one_third_printed: "fixed3 (dbl_div (dbl_of_u64 1) (dbl_of_u64 3)) = ''0.333''"
  by (simp add: dbl_div_def dbl_of_u64_def to_double_def mantissa_scale_def scale_def bit_length.simps
      round_div_def fixed3_def thousandths_text_def dec.simps digit_char_def char_of_def bit_0)

end
