(* ===== verification/Spec2Isabelle.thy ===== *)
theory Spec2Isabelle
  imports DPC_Acks DPC_Figures
begin

text \<open>
  A model of the data protection core: a deduplicating backup store with crash recovery, and the
  upload protocol over it, with the theorems that make it correct.

  The program. A repository is a directory with four parts: objects/ holds compressed chunks under
  their SHA-256, manifests/ holds for every version a manifest and a commit marker, metadata/ holds
  the write-ahead log, the checkpoint and the indices of uploads, tmp/ holds manifests under way.
  A backup scans a source directory, cuts its files into chunks, puts the chunks into the store and
  commits a manifest; a restore and a verification read it back. The server does the same for chunks
  that arrive over a connection. A version exists exactly when its commit marker does.

  The theories, from the bottom up, and the files under src/ they model:

  DPC_Prelude: machine integers as words; exceptions as values of a sum (include/dpc/common/Error.hpp);
  the state-and-exception computations the member functions become, with the two rules everything is
  proved by: \<open>keeps P m\<close> (P holds of the state however m ends: return, throw, or the end of the process
  at any call) and \<open>triple\<close>.
  DPC_Text, DPC_Hash, DPC_Path: strings and bytes, the extraction of words and numbers from a
  \<open>std::istringstream\<close>, \<open>std::stoull\<close>, hexadecimal text and hashing (Hash.hpp), and
  \<open>fileutil::safeRelativePath\<close> with the paths it accepts.
  DPC_Files: the disk as a map from places to nodes, the calls of the operating system against a script
  of events (done, partial, interrupted, failed, killed) and the helpers of FileUtils.hpp, above all
  \<open>writeFileAtomic\<close>.
  DPC_Chunk: the chunkers (core/FixedChunker.cpp, core/ContentDefinedChunker.cpp), both instances of the
  locale \<open>chunker\<close>, and the compressor.
  DPC_Wire, DPC_Wal, DPC_Packet: integers on the wire (locale with an instance per width and byte order),
  the write-ahead log (metadata/WalLog.cpp) and the packets of the protocol (network/PacketCodec.cpp).
  DPC_Manifest, DPC_Store: the text of a manifest and the versions of a repository (core/ManifestStore.cpp,
  metadata/CommitMarker.cpp).
  DPC_Objects: the object store (core/ObjectStore.cpp), an instance of the locale \<open>object_store\<close>: what was
  put is read back, and nothing that is calm changes that.
  DPC_Meta: checkpoint, fault injection, recovery and compaction (metadata/).
  DPC_Backup: scanner and engines (core/FileScanner.cpp, BackupEngine.cpp, VerifyEngine.cpp,
  RestoreEngine.cpp).
  DPC_Safety: what the operations leave alone. The locale \<open>inside_repo\<close> is the contract of everything that
  writes in a repository; it is interpreted for the files outside of the repository and for the
  directory of the versions.
  DPC_Create, DPC_Restore: what a backup and a restore leave when they return, and how backups are numbered
  (\<open>backup_numbers\<close>).
  DPC_Copy: the restored directory compared with the source, as the benchmark's self-check does it
  (bench/backup_bench_main.cpp); what a restore adds to its target is exactly the manifest's files.
  DPC_Session: the index of an upload (network/SessionIndex.cpp), with ordered maps over the locale
  \<open>key_order\<close>.
  DPC_Server, DPC_Commit: the server (network/BackupServer.cpp): payloads, the handler of every packet, the
  loop over a connection and \<open>serve\<close>, which takes the connections one after the other as a pool with one
  worker does; what the handlers do.
  DPC_Client: the client (network/BackupClient.cpp, network/TransferSession.cpp): what it reads and writes in an
  upload, frame by frame (\<open>exchanged\<close>), and what it learns of a chunk that was damaged.
  DPC_Upload: client and server together: the packets of an upload, fresh or resumed, through the handlers
  to the version that is committed, which \<open>holds_source\<close> compares with the client's source.
  DPC_Queue: the bounded queue (concurrency/BoundedQueue.hpp), an instance of the locale \<open>channel\<close>, and the
  thread pool (concurrency/ThreadPool.cpp) as the step relation \<open>pool_step\<close> of its workers, of the threads
  that submit and of the one that shuts it down. A step is what a thread does under the mutex up to a
  return or a wait. The invariant says that no wakeup is lost; \<open>pool_work\<close> bounds the steps of a pool that
  nobody calls.
  DPC_Console, DPC_Double: what a program has printed (common/Logger.hpp), and the arithmetic of \<open>double\<close> behind
  the figures it prints: every operation gives the nearest number with 53 bits, ties to even.
  DPC_Cli: options, commands, output and exit codes of the programs (cli/backupctl_main.cpp,
  cli/backup_client_main.cpp, and the arguments of cli/backup_server_main.cpp).
  DPC_Tools: the tool that appends garbage to the log (tools/corrupt_repo_main.cpp), and that the reader
  of the log notices.
  DPC_Bench: the benchmark (bench/backup_bench_main.cpp): options, workloads, the measured run and its
  self-check, the figures, and the removal of what it made, after which nothing is left
  (\<open>benchmark_cleans_up\<close>).
  DPC_Figures: how far a printed figure is from the exact one.
  DPC_Steps: the type \<open>prog\<close> of computations that others interrupt, and what the server's handlers call, in
  steps; \<open>run_prog\<close> of each is the function it is made from, so that the two cannot drift apart. A step is a
  call of the system, a look at the disk, or the writes of one \<open>writeAll\<close>; the test for a directory and its
  \<open>mkdir\<close> are one step for every component of a path.
  DPC_Workers: the server with all its workers as the step relation \<open>server_step\<close>. The locale \<open>shared_disk\<close>
  says what a fact of the disk must be for threads to rely on it, \<open>shared_repo\<close> what the handlers keep of it.
  \<open>workers_keep_versions\<close> is the safety of committed versions under every interleaving, \<open>one_worker_serves\<close>
  that \<open>serve\<close> is a run of the server with one worker.
  DPC_Descriptors: the table of descriptors and who closes what; \<open>strays\<close> collects the calls of \<open>close\<close> on a
  number that was not the caller's, so that a second \<open>close\<close> shows. \<open>UniqueFd\<close> (FileUtils.hpp), \<open>SocketFd\<close>, the
  sockets of \<open>connectTo\<close> (BackupClient.cpp) and of \<open>BackupServer::run\<close> with its accept loop; the logger
  (common/Logger.hpp) and the main program of the server (cli/backup_server_main.cpp).
  DPC_Whole: objects under concurrent puts. A worker owns the temporary file it writes (\<open>owns\<close>), and what it
  renames to the place of an object is whole.
  DPC_Acks: what an acknowledgement is worth among other workers. \<open>assures\<close> says of the steps of a computation
  that they establish a fact and that none destroys it; the locale \<open>lasting_file\<close> is a place that no handler
  removes, as that of an object. \<open>acknowledged_stays\<close>: the object of an acknowledged chunk is there and whole,
  ever after. \<open>put_again\<close>: a chunk that is stored and recorded is acknowledged again and nothing is written.

  The state. \<open>world\<close> is the disk, the script of what the next calls of the system do, two clocks, the
  process and its mask, the fault injector's flag, and what is still to be read from and was written to a
  connection. A theorem about every world is therefore about every pattern of partial writes,
  interruptions, failures and every place at which the process can be cut off.

  Libraries. OpenSSL's SHA-256 and zstd are the fields of \<open>third_party\<close>, an argument of every definition that
  uses them. Where a theorem needs it, \<open>sha_ok\<close> says that a digest has 32 bytes and \<open>zstd_ok\<close> that
  compressing into a buffer of the bound succeeds, that the frame declares its size and that
  decompressing gives the data back; \<open>toy\<close> is an instance. No theorem assumes that SHA-256 has no
  collisions: where it matters, \<open>collision\<close> is the other possibility.

  Loops. All definitions are total functions. A loop over a stream or a connection ends because it
  consumes it (\<open>fields_loop\<close>, \<open>records_loop\<close>, \<open>handleConnection\<close>), a retried call because the script
  gets shorter; after the script every call succeeds. The growth loop of \<open>decompress\<close> has the eight
  attempts of the code. No fuel is used. The pool is a relation, and \<open>shutdown_terminates\<close> shows that it
  comes to its end.

  Not modelled: a loss of power. A process can end at any call, and what it wrote before is there, whether it
  was synchronised or not; that an \<open>fsync\<close> stands where it should is in the definitions, but no theorem needs it.
  Places are lexical: a relative and an absolute name of the same file are two places, so the paths of one run are
  taken to be of one kind. Also not modelled: what is in a socket address (the answers of the resolver and of the calls on
  sockets are arguments of \<open>connectTo\<close> and \<open>server_run\<close>); symbolic links, devices and hard links;
  permissions as a reason for a call to fail other than the script; the set \<open>unique_seen\<close> of the backup
  engine, which nothing reads; the order \<open>std::sort\<close> gives equal keys; the exact
  wording of an exception of the standard library; the order in which \<open>remove_all\<close> reads a directory; \<open>BackupServer::stop\<close>, which no program calls (in
  \<open>accept_loop\<close> the flag it sets is an argument). The theorems about uploads and commits are about handlers
  that are not interrupted; under interleaving it is shown that versions and objects
  are safe and that acknowledged chunks are stored, not what two commits at the same time give: they can take
  the same version, a limit the README states. The connections of \<open>server_step\<close> and the sockets of
  \<open>accept_loop\<close> are two views of the same loop that are not joined. The tasks of the pool are values that
  return. A task that throws ends the process
  (\<open>bad_number_ends_server\<close>), so no step of the pool follows it. The order in which C++ evaluates the
  arguments of a call is not fixed; options are looked up from left to right, which matters only for
  the message when several are missing.
\<close>

end
